(* ===== verification/Sylar_Prelude.thy ===== *)
theory Sylar_Prelude
  imports Main "HOL-Library.Word"
begin

text \<open>
  Shared vocabulary of the development: the machine types of the C++ sources, the values an
  operation can end with instead of a result, the error monad the components are written in, and
  the generic lemmas on lists and fixed-size blocks that the component proofs rest on.
\<close>

unbundle bit_operations_syntax

section \<open>Machine types\<close>

text \<open>
  A C++ integer of \<open>n\<close> bits is an \<open>n word\<close>, signed or unsigned: \<open>uint\<close> reads the unsigned and
  \<open>sint\<close> the two's complement value. A \<open>std::string\<close> or a \<open>char\<close> buffer is a list of bytes where
  its bytes matter and an Isabelle \<open>string\<close> where it is text.
\<close>

type_synonym u8 = "8 word"
type_synonym u16 = "16 word"
type_synonym u32 = "32 word"
type_synonym u64 = "64 word"
type_synonym bytes = "u8 list"

section \<open>Abnormal ends of an operation\<close>

text \<open>
  The C++ exceptions the sources throw, a failed \<open>SYLAR_ASSERT\<close>, and the undefined behaviours a
  run can step into. An operation that can end in one of them returns a value of type \<open>'a res\<close>.
\<close>

datatype cxx_error =
    Out_of_range string
  | Invalid_argument string
  | Logic_error string
  | Assert_fail string
  | Null_deref
  | Out_of_bounds
  | Div_by_zero
  | Undefined string

type_synonym 'a res = "cxx_error + 'a"

definition bindE :: "'e + 'a \<Rightarrow> ('a \<Rightarrow> 'e + 'b) \<Rightarrow> 'e + 'b" where
  "bindE m f = (case m of Inl e \<Rightarrow> Inl e | Inr x \<Rightarrow> f x)"

lemma bindE_simps [simp]:
  "bindE (Inl e) f = Inl e"
  "bindE (Inr x) f = f x"
  by (simp_all add: bindE_def)

lemma bindE_eq_Inr [simp]: "bindE m f = Inr y \<longleftrightarrow> (\<exists>x. m = Inr x \<and> f x = Inr y)"
  by (cases m) simp_all

lemma bindE_eq_Inl: "bindE m f = Inl e \<longleftrightarrow> m = Inl e \<or> (\<exists>x. m = Inr x \<and> f x = Inl e)"
  by (cases m) simp_all

lemma bindE_cong [fundef_cong]:
  "m = m' \<Longrightarrow> (\<And>x. m' = Inr x \<Longrightarrow> f x = f' x) \<Longrightarrow> bindE m f = bindE m' f'"
  by (cases m') simp_all

section \<open>Overwriting a segment of a list\<close>

text \<open>What \<open>memcpy\<close> does to the destination: the bytes from \<open>p\<close> on are replaced.\<close>

definition overwrite :: "'a list \<Rightarrow> nat \<Rightarrow> 'a list \<Rightarrow> 'a list" where
  "overwrite xs p ys = take p xs @ ys @ drop (p + length ys) xs"

lemma length_overwrite [simp]:
  "p + length ys \<le> length xs \<Longrightarrow> length (overwrite xs p ys) = length xs"
  by (simp add: overwrite_def)

lemma overwrite_Nil [simp]: "overwrite xs p [] = xs"
  by (simp add: overwrite_def)

lemma take_overwrite [simp]:
  "p \<le> length xs \<Longrightarrow> take p (overwrite xs p ys) = take p xs"
  by (simp add: overwrite_def)

lemma drop_take_overwrite [simp]:
  "p \<le> length xs \<Longrightarrow> take (length ys) (drop p (overwrite xs p ys)) = ys"
  by (simp add: overwrite_def)

lemma overwrite_take_drop:
  assumes "n \<le> length ys" "p + length ys \<le> length xs"
  shows "overwrite (overwrite xs p (take n ys)) (p + n) (drop n ys) = overwrite xs p ys"
proof -
  have t: "take (p + n) (overwrite xs p (take n ys)) = take p xs @ take n ys"
    using assms by (simp add: overwrite_def)
  have d: "drop (p + n + length (drop n ys)) (overwrite xs p (take n ys)) =
      drop (p + length ys) xs"
    using assms by (simp add: overwrite_def add.commute)
  show ?thesis
    unfolding overwrite_def [of _ "p + n"] t d by (simp add: overwrite_def)
qed

lemma overwrite_overwrite_append:
  "p \<le> length xs \<Longrightarrow>
   overwrite (overwrite xs p ys) (p + length ys) zs = overwrite xs p (ys @ zs)"
  by (simp add: overwrite_def ac_simps)

lemma overwrite_append_mid:
  assumes "length us = m" "p + length ys \<le> length xs"
  shows "us @ overwrite xs p ys @ vs = overwrite (us @ xs @ vs) (m + p) ys"
  using assms by (simp add: overwrite_def add.assoc)

lemma take_overwrite_ge:
  assumes "p + length ys \<le> length xs" "p \<le> n" "n \<le> length xs"
  shows "take (max n (p + length ys)) (overwrite xs p ys) =
    take p (take n xs) @ ys @ drop (p + length ys) (take n xs)"
proof (cases "n \<le> p + length ys")
  case True
  then have "max n (p + length ys) = p + length ys" by simp
  moreover have "take (p + length ys) (overwrite xs p ys) = take p xs @ ys"
    using assms by (simp add: overwrite_def)
  ultimately show ?thesis using assms True by simp
next
  case False
  then obtain k where "n = p + length ys + k"
    by (metis le_add_diff_inverse nat_le_linear)
  then show ?thesis using assms by (simp add: overwrite_def max_def drop_take)
qed

section \<open>Lists of equally long blocks\<close>

definition blocks :: "nat \<Rightarrow> 'a list list \<Rightarrow> bool" where
  "blocks n xss \<longleftrightarrow> (\<forall>xs \<in> set xss. length xs = n)"

lemma blocks_Nil [simp]: "blocks n []"
  and blocks_Cons [simp]: "blocks n (xs # xss) \<longleftrightarrow> length xs = n \<and> blocks n xss"
  and blocks_append [simp]: "blocks n (xss @ yss) \<longleftrightarrow> blocks n xss \<and> blocks n yss"
  by (auto simp: blocks_def)

lemma blocks_nth [simp]: "blocks n xss \<Longrightarrow> i < length xss \<Longrightarrow> length (xss ! i) = n"
  by (simp add: blocks_def)

lemma blocks_take [simp]: "blocks n xss \<Longrightarrow> blocks n (take i xss)"
  by (meson blocks_def in_set_takeD)

lemma blocks_update [simp]:
  "blocks n xss \<Longrightarrow> length ys = n \<Longrightarrow> blocks n (xss[i := ys])"
  using set_update_subset_insert by (fastforce simp: blocks_def)

lemma length_concat_blocks [simp]: "blocks n xss \<Longrightarrow> length (concat xss) = length xss * n"
  by (induction xss) simp_all

lemma concat_overwrite_block:
  assumes "blocks n xss" "i < length xss" "p + length ys \<le> n"
  shows "concat (xss[i := overwrite (xss ! i) p ys]) = overwrite (concat xss) (i * n + p) ys"
proof -
  have split: "xss = take i xss @ xss ! i # drop (Suc i) xss"
    using assms(2) by (rule id_take_nth_drop)
  have len: "length (concat (take i xss)) = i * n"
    using assms length_concat_blocks [OF blocks_take, of n xss i] by simp
  have "concat (xss[i := overwrite (xss ! i) p ys]) =
      concat (take i xss) @ overwrite (xss ! i) p ys @ concat (drop (Suc i) xss)"
    using assms(2) by (simp add: upd_conv_take_nth_drop)
  also have "\<dots> = overwrite (concat (take i xss) @ xss ! i @ concat (drop (Suc i) xss)) (i * n + p) ys"
    using assms len by (intro overwrite_append_mid) simp_all
  also have "concat (take i xss) @ xss ! i @ concat (drop (Suc i) xss) = concat xss"
    by (subst (4) split) simp
  finally show ?thesis .
qed

lemma drop_concat_block:
  assumes "blocks n xss" "i < length xss" "p \<le> n"
  shows "drop (i * n + p) (concat xss) = drop p (xss ! i) @ concat (drop (Suc i) xss)"
proof -
  have split: "xss = take i xss @ xss ! i # drop (Suc i) xss"
    using assms(2) by (rule id_take_nth_drop)
  have len: "length (concat (take i xss)) = i * n"
    using assms length_concat_blocks [OF blocks_take, of n xss i] by simp
  have "concat xss = concat (take i xss) @ xss ! i @ concat (drop (Suc i) xss)"
    by (subst (1) split) simp
  then show ?thesis
    using assms len by simp
qed

end
