(* ===== verification/Sylar_Endian.thy ===== *)
theory Sylar_Endian
  imports Sylar_Prelude
begin

text \<open>
  Byte order (\<^verbatim>\<open>sylar/endian.h\<close>): the object representation of a machine word on a host of either
  byte order, the \<open>byteswap\<close> templates and their conditional variants. The host byte order, which
  the header takes from the preprocessor, is an argument, so every fact holds on both kinds of
  machine.
\<close>

section \<open>Object representations\<close>

text \<open>The values of \<^verbatim>\<open>SYLAR_LITTLE_ENDIAN\<close> and \<^verbatim>\<open>SYLAR_BIG_ENDIAN\<close>.\<close>

definition SYLAR_LITTLE_ENDIAN :: u8 where "SYLAR_LITTLE_ENDIAN = 1"
definition SYLAR_BIG_ENDIAN :: u8 where "SYLAR_BIG_ENDIAN = 2"

lemma endian_distinct [simp]:
  "SYLAR_LITTLE_ENDIAN \<noteq> SYLAR_BIG_ENDIAN" "SYLAR_BIG_ENDIAN \<noteq> SYLAR_LITTLE_ENDIAN"
  by (simp_all add: SYLAR_LITTLE_ENDIAN_def SYLAR_BIG_ENDIAN_def)

text \<open>\<^verbatim>\<open>SYLAR_BYTE_ORDER\<close>, from whether the preprocessor's \<^verbatim>\<open>BYTE_ORDER\<close> is \<^verbatim>\<open>BIG_ENDIAN\<close>.\<close>

definition SYLAR_BYTE_ORDER :: "bool \<Rightarrow> u8" where
  "SYLAR_BYTE_ORDER big = (if big then SYLAR_BIG_ENDIAN else SYLAR_LITTLE_ENDIAN)"

definition byte_order :: "u8 \<Rightarrow> bool" where
  "byte_order e \<longleftrightarrow> e = SYLAR_LITTLE_ENDIAN \<or> e = SYLAR_BIG_ENDIAN"

lemma byte_order_simps [simp]:
  "byte_order SYLAR_LITTLE_ENDIAN" "byte_order SYLAR_BIG_ENDIAN" "byte_order (SYLAR_BYTE_ORDER big)"
  by (simp_all add: byte_order_def SYLAR_BYTE_ORDER_def)

definition byte_of :: "'a::len word \<Rightarrow> nat \<Rightarrow> u8" where
  "byte_of w i = ucast (drop_bit (8 * i) w)"

definition le_bytes :: "'a::len word \<Rightarrow> bytes" where
  "le_bytes w = map (byte_of w) [0..<LENGTH('a) div 8]"

primrec of_le_bytes :: "bytes \<Rightarrow> 'a::len word" where
  "of_le_bytes [] = 0"
| "of_le_bytes (b # bs) = ucast b OR push_bit 8 (of_le_bytes bs)"

text \<open>The bytes a word occupies in memory, and the word they are read back as.\<close>

definition mem_of :: "u8 \<Rightarrow> 'a::len word \<Rightarrow> bytes" where
  "mem_of host w = (if host = SYLAR_LITTLE_ENDIAN then le_bytes w else rev (le_bytes w))"

definition of_mem :: "u8 \<Rightarrow> bytes \<Rightarrow> 'a::len word" where
  "of_mem host bs = of_le_bytes (if host = SYLAR_LITTLE_ENDIAN then bs else rev bs)"

text \<open>
  The three \<open>byteswap\<close> templates select \<^verbatim>\<open>bswap_64\<close>, \<^verbatim>\<open>bswap_32\<close> or \<^verbatim>\<open>bswap_16\<close> by the size of the
  type; each of them reverses the bytes of its argument.
\<close>

definition byteswap :: "'a::len word \<Rightarrow> 'a word" where
  "byteswap w = of_le_bytes (rev (le_bytes w))"

text \<open>The two definitions of each conditional variant, selected by the host byte order.\<close>

definition byteswapOnLittleEndian :: "u8 \<Rightarrow> 'a::len word \<Rightarrow> 'a word" where
  "byteswapOnLittleEndian host t = (if host = SYLAR_BIG_ENDIAN then t else byteswap t)"

definition byteswapOnBigEndian :: "u8 \<Rightarrow> 'a::len word \<Rightarrow> 'a word" where
  "byteswapOnBigEndian host t = (if host = SYLAR_BIG_ENDIAN then byteswap t else t)"

section \<open>Round trips\<close>

lemma length_le_bytes [simp]: "length (le_bytes (w :: 'a::len word)) = LENGTH('a) div 8"
  by (simp add: le_bytes_def)

lemma nth_le_bytes [simp]:
  "i < LENGTH('a) div 8 \<Longrightarrow> le_bytes (w :: 'a::len word) ! i = byte_of w i"
  by (simp add: le_bytes_def)

lemma bit_byte_of:
  "bit (byte_of (w :: 'a::len word) i) n \<longleftrightarrow> n < 8 \<and> bit w (8 * i + n)"
  by (auto simp: byte_of_def bit_ucast_iff bit_drop_bit_eq dest: bit_imp_le_length)

lemma bit_of_le_bytes:
  "bit (of_le_bytes bs :: 'a::len word) n \<longleftrightarrow>
    n < LENGTH('a) \<and> n div 8 < length bs \<and> bit (bs ! (n div 8)) (n mod 8)"
proof (induction bs arbitrary: n)
  case Nil
  then show ?case by simp
next
  case (Cons b bs)
  show ?case
  proof (cases "n < 8")
    case True
    then show ?thesis
      by (auto simp: bit_or_iff bit_ucast_iff bit_push_bit_iff)
  next
    case False
    then have "n div 8 = Suc ((n - 8) div 8)" and "n mod 8 = (n - 8) mod 8"
      by (simp_all add: le_div_geq le_mod_geq)
    moreover have "\<not> bit (ucast b :: 'a word) n"
      using False by (auto simp: bit_ucast_iff dest: bit_imp_le_length)
    ultimately show ?thesis
      using False by (auto simp: bit_or_iff bit_push_bit_iff Cons.IH dest: bit_imp_le_length)
  qed
qed

definition whole_bytes :: "'a::len word \<Rightarrow> bool" where
  "whole_bytes w \<longleftrightarrow> 8 dvd LENGTH('a)"

lemma whole_bytes_simps [simp]:
  "whole_bytes (w8 :: u8)" "whole_bytes (w16 :: u16)"
  "whole_bytes (w32 :: u32)" "whole_bytes (w64 :: u64)"
  by (simp_all add: whole_bytes_def)

lemma of_le_bytes_le_bytes [simp]:
  assumes "whole_bytes (w :: 'a::len word)"
  shows "of_le_bytes (le_bytes w) = w"
proof (rule bit_word_eqI)
  fix n assume n: "n < LENGTH('a)"
  then have "n div 8 < LENGTH('a) div 8"
    using assms by (auto simp: whole_bytes_def elim!: dvdE)
  then show "bit (of_le_bytes (le_bytes w) :: 'a word) n \<longleftrightarrow> bit w n"
    using n by (simp add: bit_of_le_bytes bit_byte_of)
qed

lemma le_bytes_of_le_bytes [simp]:
  assumes "length bs = LENGTH('a::len) div 8" "whole_bytes (0 :: 'a word)"
  shows "le_bytes (of_le_bytes bs :: 'a word) = bs"
proof (rule nth_equalityI)
  show "length (le_bytes (of_le_bytes bs :: 'a word)) = length bs"
    using assms by simp
  fix i assume "i < length (le_bytes (of_le_bytes bs :: 'a word))"
  then have i: "i < LENGTH('a) div 8" by simp
  have "8 * i + n < LENGTH('a)" if "n < 8" for n
    using i that by linarith
  then have "bit (byte_of (of_le_bytes bs :: 'a word) i) n \<longleftrightarrow> bit (bs ! i) n" if "n < 8" for n
    using i that assms(1) by (simp add: bit_byte_of bit_of_le_bytes)
  then show "le_bytes (of_le_bytes bs :: 'a word) ! i = bs ! i"
    using i by (auto intro!: bit_word_eqI)
qed

lemma le_bytes_byteswap [simp]:
  "whole_bytes (w :: 'a::len word) \<Longrightarrow> le_bytes (byteswap w) = rev (le_bytes w)"
  by (simp add: byteswap_def whole_bytes_def)

lemma byteswap_byteswap [simp]: "whole_bytes w \<Longrightarrow> byteswap (byteswap w) = w"
  by (subst byteswap_def) simp

lemma length_mem_of [simp]: "length (mem_of h (w :: 'a::len word)) = LENGTH('a) div 8"
  by (simp add: mem_of_def)

lemma of_mem_mem_of [simp]: "whole_bytes w \<Longrightarrow> of_mem h (mem_of h w) = w"
  by (simp add: mem_of_def of_mem_def)

end
