(* ===== verification/Sylar_ByteArray.thy ===== *)
theory Sylar_ByteArray
  imports Sylar_Endian
begin

text \<open>
  The serialisation buffer (\<^verbatim>\<open>sylar/bytearray.cpp\<close>): a chain of equally sized memory blocks with
  one cursor for reading and writing. This theory holds the buffer itself: construction, growth,
  raw reads and writes, positioning, file transfer and the scatter/gather views. The typed
  encodings are in the theory \<open>Sylar_Codec\<close>.

  The chain of nodes hangs off \<^verbatim>\<open>m_root\<close> and is only ever extended at its end or cut after its
  first node, so a node pointer is modelled by the index of the node in the chain: \<open>Some i\<close> for
  the \<open>i\<close>-th node, \<open>None\<close> for the null pointer, and \<open>next\<close> of the last node is null. Sizes are
  natural numbers (a chain never exceeds the address space); the one subtraction of \<^verbatim>\<open>size_t\<close>
  values that the code does not guard is written with its wrap-around. \<^verbatim>\<open>new char[s]\<close> leaves the
  block's contents indeterminate: they come from the field \<open>m_fill\<close>, about which nothing is assumed.
\<close>

section \<open>State\<close>

record bytearray =
  m_baseSize :: nat
  m_position :: nat
  m_capacity :: nat
  m_size :: nat
  m_endian :: u8
  m_nodes :: "bytes list"
  m_cur :: "nat option"
  m_fill :: "nat \<Rightarrow> nat \<Rightarrow> u8"

definition new_node :: "(nat \<Rightarrow> nat \<Rightarrow> u8) \<Rightarrow> nat \<Rightarrow> nat \<Rightarrow> bytes" where
  "new_node fill i s = map (fill i) [0..<s]"

definition ByteArray :: "(nat \<Rightarrow> nat \<Rightarrow> u8) \<Rightarrow> nat \<Rightarrow> bytearray" where
  "ByteArray fill base_size =
    \<lparr>m_baseSize = base_size, m_position = 0, m_capacity = base_size, m_size = 0,
     m_endian = SYLAR_BIG_ENDIAN, m_nodes = [new_node fill 0 base_size], m_cur = Some 0,
     m_fill = fill\<rparr>"

definition isLittleEndian :: "bytearray \<Rightarrow> bool" where
  "isLittleEndian b \<longleftrightarrow> m_endian b = SYLAR_LITTLE_ENDIAN"

definition setIsLittleEndian :: "bytearray \<Rightarrow> bool \<Rightarrow> bytearray" where
  "setIsLittleEndian b val =
    (if val then b\<lparr>m_endian := SYLAR_LITTLE_ENDIAN\<rparr> else b\<lparr>m_endian := SYLAR_BIG_ENDIAN\<rparr>)"

definition getReadSize :: "bytearray \<Rightarrow> nat" where
  "getReadSize b = m_size b - m_position b"

definition getCapacity :: "bytearray \<Rightarrow> nat" where
  "getCapacity b = m_capacity b - m_position b"

definition clear :: "bytearray \<Rightarrow> bytearray" where
  "clear b = b\<lparr>m_position := 0, m_size := 0, m_capacity := m_baseSize b,
               m_nodes := take 1 (m_nodes b), m_cur := Some 0\<rparr>"

section \<open>Node pointers\<close>

definition node_next :: "bytes list \<Rightarrow> nat \<Rightarrow> nat option" where
  "node_next nodes i = (if Suc i < length nodes then Some (Suc i) else None)"

definition deref :: "bytes list \<Rightarrow> nat option \<Rightarrow> (nat \<times> bytes) res" where
  "deref nodes p =
    (case p of
       None \<Rightarrow> Inl Null_deref
     | Some i \<Rightarrow> if i < length nodes then Inr (i, nodes ! i) else Inl Out_of_bounds)"

text \<open>\<^verbatim>\<open>memcpy\<close> into and out of a node's block; leaving the block is a memory error.\<close>

definition node_put :: "bytes \<Rightarrow> nat \<Rightarrow> bytes \<Rightarrow> bytes res" where
  "node_put nd off bs =
    (if off + length bs \<le> length nd then Inr (overwrite nd off bs) else Inl Out_of_bounds)"

definition node_get :: "bytes \<Rightarrow> nat \<Rightarrow> nat \<Rightarrow> bytes res" where
  "node_get nd off n =
    (if off + n \<le> length nd then Inr (take n (drop off nd)) else Inl Out_of_bounds)"

definition nodes_left :: "bytes list \<Rightarrow> nat option \<Rightarrow> nat" where
  "nodes_left nodes cur = (case cur of None \<Rightarrow> 0 | Some i \<Rightarrow> length nodes - i)"

lemma deref_next_less [termination_simp]:
  "deref nodes cur = Inr (i, nd) \<Longrightarrow> deref nodes' (node_next nodes i) = Inr (j, nd') \<Longrightarrow>
   length nodes' = length nodes \<Longrightarrow> nodes_left nodes' (node_next nodes i) < nodes_left nodes cur"
  by (auto simp: deref_def node_next_def nodes_left_def split: option.splits if_splits)

section \<open>Growing\<close>

text \<open>
  \<open>ceil(1.0 * size / m_baseSize)\<close>, computed in \<open>double\<close>: exact for the sizes below \<open>2^53\<close> bytes.
\<close>

definition ceil_div :: "nat \<Rightarrow> nat \<Rightarrow> nat" where
  "ceil_div a n = (a + n - 1) div n"

primrec add_nodes :: "nat \<Rightarrow> bytearray \<Rightarrow> bytearray" where
  "add_nodes 0 b = b"
| "add_nodes (Suc k) b =
     add_nodes k
       (b\<lparr>m_nodes := m_nodes b @ [new_node (m_fill b) (length (m_nodes b)) (m_baseSize b)],
          m_capacity := m_capacity b + m_baseSize b\<rparr>)"

definition addCapacity :: "bytearray \<Rightarrow> nat \<Rightarrow> bytearray res" where
  "addCapacity b len =
    (if len = 0 then Inr b
     else let old_cap = getCapacity b in
       if old_cap \<ge> len then Inr b
       else if m_baseSize b = 0 then Inl Div_by_zero
       else
         let count = ceil_div (len - old_cap) (m_baseSize b);
             first = (if count = 0 then None else Some (length (m_nodes b)));
             b1 = add_nodes count b
         in Inr (if old_cap = 0 then b1\<lparr>m_cur := first\<rparr> else b1))"

section \<open>Raw writes and reads\<close>

text \<open>
  The copy loop of \<open>write\<close>, over the chain, the cursor's node, the position and the bytes still to
  be stored. It moves to the next node only when the current one is full, so it ends.
\<close>

function write_loop ::
  "bytes list \<Rightarrow> nat option \<Rightarrow> nat \<Rightarrow> bytes \<Rightarrow> nat \<Rightarrow> nat \<Rightarrow> (bytes list \<times> nat option \<times> nat) res"
where
  "write_loop nodes cur position buf npos ncap =
    (if buf = [] then Inr (nodes, cur, position)
     else case deref nodes cur of
       Inl e \<Rightarrow> Inl e
     | Inr (i, nd) \<Rightarrow>
        (if ncap \<ge> length buf then
           case node_put nd npos buf of
             Inl e \<Rightarrow> Inl e
           | Inr nd' \<Rightarrow>
               Inr (nodes[i := nd'],
                    if length nd = npos + length buf then node_next nodes i else cur,
                    position + length buf)
         else
           case node_put nd npos (take ncap buf) of
             Inl e \<Rightarrow> Inl e
           | Inr nd' \<Rightarrow>
              (case deref (nodes[i := nd']) (node_next nodes i) of
                 Inl e \<Rightarrow> Inl e
               | Inr (j, nd2) \<Rightarrow>
                   write_loop (nodes[i := nd']) (node_next nodes i) (position + ncap)
                     (drop ncap buf) 0 (length nd2))))"
  by pat_completeness auto
termination
  by (relation "measure (\<lambda>(nodes, cur, position, buf, npos, ncap). nodes_left nodes cur)")
    (auto intro: deref_next_less)

definition ba_write :: "bytearray \<Rightarrow> bytes \<Rightarrow> bytearray res" where
  "ba_write b buf =
    (if buf = [] then Inr b
     else bindE (addCapacity b (length buf)) (\<lambda>b1.
       if m_baseSize b1 = 0 then Inl Div_by_zero
       else bindE (deref (m_nodes b1) (m_cur b1)) (\<lambda>(i, nd).
         let npos = m_position b1 mod m_baseSize b1; ncap = length nd - npos in
         bindE (write_loop (m_nodes b1) (m_cur b1) (m_position b1) buf npos ncap)
           (\<lambda>(nodes, cur, position).
              Inr (b1\<lparr>m_nodes := nodes, m_cur := cur, m_position := position,
                      m_size := (if position > m_size b1 then position else m_size b1)\<rparr>)))))"

function read_loop ::
  "bytes list \<Rightarrow> nat option \<Rightarrow> nat \<Rightarrow> nat \<Rightarrow> nat \<Rightarrow> nat \<Rightarrow> (bytes \<times> nat option \<times> nat) res"
where
  "read_loop nodes cur position len npos ncap =
    (if len = 0 then Inr ([], cur, position)
     else case deref nodes cur of
       Inl e \<Rightarrow> Inl e
     | Inr (i, nd) \<Rightarrow>
        (if ncap \<ge> len then
           case node_get nd npos len of
             Inl e \<Rightarrow> Inl e
           | Inr bs \<Rightarrow>
               Inr (bs, if length nd = npos + len then node_next nodes i else cur, position + len)
         else
           case node_get nd npos ncap of
             Inl e \<Rightarrow> Inl e
           | Inr bs \<Rightarrow>
              (case deref nodes (node_next nodes i) of
                 Inl e \<Rightarrow> Inl e
               | Inr (j, nd2) \<Rightarrow>
                  (case read_loop nodes (node_next nodes i) (position + ncap) (len - ncap) 0
                          (length nd2) of
                     Inl e \<Rightarrow> Inl e
                   | Inr (rest, cur', position') \<Rightarrow> Inr (bs @ rest, cur', position')))))"
  by pat_completeness auto
termination
  by (relation "measure (\<lambda>(nodes, cur, position, len, npos, ncap). nodes_left nodes cur)")
    (auto intro: deref_next_less)

declare write_loop.simps [simp del] read_loop.simps [simp del]

text \<open>
  \<open>read(buf, size)\<close> computes the room in the current node before it looks at \<open>size\<close>, so it
  dereferences \<^verbatim>\<open>m_cur\<close> even when nothing is to be read.
\<close>

definition ba_read :: "bytearray \<Rightarrow> nat \<Rightarrow> (bytes \<times> bytearray) res" where
  "ba_read b len =
    (if len > getReadSize b then Inl (Out_of_range ''not enough len'')
     else if m_baseSize b = 0 then Inl Div_by_zero
     else bindE (deref (m_nodes b) (m_cur b)) (\<lambda>(i, nd).
       let npos = m_position b mod m_baseSize b; ncap = length nd - npos in
       bindE (read_loop (m_nodes b) (m_cur b) (m_position b) len npos ncap)
         (\<lambda>(bs, cur, position). Inr (bs, b\<lparr>m_cur := cur, m_position := position\<rparr>))))"

text \<open>
  The \<open>const\<close> overload reads at a given position but starts in the node of the cursor. Its bound
  \<open>m_size - position\<close> is a difference of \<^verbatim>\<open>size_t\<close> values and wraps.
\<close>

definition size_sub :: "nat \<Rightarrow> nat \<Rightarrow> nat" where
  "size_sub a c = (if c \<le> a then a - c else a + 2 ^ 64 - c)"

definition ba_read_at :: "bytearray \<Rightarrow> nat \<Rightarrow> nat \<Rightarrow> bytes res" where
  "ba_read_at b len position =
    (if len > size_sub (m_size b) position then Inl (Out_of_range ''not enough len'')
     else if m_baseSize b = 0 then Inl Div_by_zero
     else bindE (deref (m_nodes b) (m_cur b)) (\<lambda>(i, nd).
       let npos = position mod m_baseSize b; ncap = length nd - npos in
       bindE (read_loop (m_nodes b) (m_cur b) position len npos ncap)
         (\<lambda>(bs, cur, position'). Inr bs)))"

section \<open>Positioning\<close>

function seek_loop :: "bytes list \<Rightarrow> nat option \<Rightarrow> nat \<Rightarrow> (nat option \<times> nat) res" where
  "seek_loop nodes cur v =
    (case deref nodes cur of
       Inl e \<Rightarrow> Inl e
     | Inr (i, nd) \<Rightarrow>
         if v > length nd then
           (case deref nodes (node_next nodes i) of
              Inl e \<Rightarrow> Inl e
            | Inr _ \<Rightarrow> seek_loop nodes (node_next nodes i) (v - length nd))
         else Inr (if v = length nd then node_next nodes i else cur, v))"
  by pat_completeness auto
termination
  by (relation "measure (\<lambda>(nodes, cur, v). nodes_left nodes cur)")
    (auto intro: deref_next_less)

declare seek_loop.simps [simp del]

definition setPosition :: "bytearray \<Rightarrow> nat \<Rightarrow> bytearray res" where
  "setPosition b v =
    (if v > m_capacity b then Inl (Out_of_range ''set_position out of range'')
     else
       let b1 = b\<lparr>m_position := v, m_size := (if v > m_size b then v else m_size b)\<rparr> in
       bindE (seek_loop (m_nodes b) (Some 0) v) (\<lambda>(cur, _). Inr (b1\<lparr>m_cur := cur\<rparr>)))"


section \<open>Invariant and contents\<close>

text \<open>The node the cursor points to when \<open>k\<close> nodes of \<open>n\<close> bytes are chained and it stands at \<open>p\<close>.\<close>

definition cursor :: "nat \<Rightarrow> nat \<Rightarrow> nat \<Rightarrow> nat option" where
  "cursor n k p = (if p < k * n then Some (p div n) else None)"

definition ba_inv :: "bytearray \<Rightarrow> bool" where
  "ba_inv b \<longleftrightarrow>
     0 < m_baseSize b \<and> m_nodes b \<noteq> [] \<and> blocks (m_baseSize b) (m_nodes b) \<and>
     m_capacity b = length (m_nodes b) * m_baseSize b \<and>
     m_position b \<le> m_size b \<and> m_size b \<le> m_capacity b \<and>
     m_cur b = cursor (m_baseSize b) (length (m_nodes b)) (m_position b) \<and>
     byte_order (m_endian b)"

text \<open>The abstract contents: the bytes \<open>[0, m_size)\<close> of the chain.\<close>

definition contents :: "bytearray \<Rightarrow> bytes" where
  "contents b = take (m_size b) (concat (m_nodes b))"

lemma length_contents [simp]: "ba_inv b \<Longrightarrow> length (contents b) = m_size b"
  by (auto simp: contents_def ba_inv_def)

lemma cursor_in: "(p :: nat) < k * n \<Longrightarrow> p div n < k"
  by (rule less_mult_imp_div_less)

lemma cursor_step:
  assumes "0 < n" "i < k" "npos + m \<le> n" "length nodes = k"
  shows "(if n = npos + m then node_next nodes i else Some i) = cursor n k (i * n + npos + m)"
proof (cases "n = npos + m")
  case True
  then have "i * n + npos + m = Suc i * n" by simp
  moreover have "Suc i * n < k * n \<longleftrightarrow> Suc i < k" using assms(1) by (simp del: mult_Suc)
  moreover have "Suc i * n div n = Suc i" using assms(1) by (simp del: mult_Suc)
  ultimately show ?thesis
    unfolding cursor_def node_next_def using True assms(4) by (simp del: mult_Suc)
next
  case False
  then have less: "npos + m < n" using assms(3) by simp
  then have "i * n + (npos + m) < Suc i * n" by simp
  also have "\<dots> \<le> k * n" using assms(2) by (intro mult_le_mono1) simp
  finally show ?thesis
    using False less assms(1) by (simp add: cursor_def add.assoc)
qed

lemma write_loop_correct:
  assumes "0 < n" "blocks n nodes" "i < length nodes" "npos < n"
    and "i * n + npos + length buf \<le> length nodes * n"
  shows "\<exists>nodes'. write_loop nodes (Some i) position buf npos (n - npos) =
      Inr (nodes', cursor n (length nodes) (i * n + npos + length buf), position + length buf) \<and>
      length nodes' = length nodes \<and> blocks n nodes' \<and>
      concat nodes' = overwrite (concat nodes) (i * n + npos) buf"
  using assms
proof (induction "length nodes - i" arbitrary: i npos buf nodes position rule: less_induct)
  case less
  have drf: "deref nodes (Some i) = Inr (i, nodes ! i)" using less.prems by (simp add: deref_def)
  have len: "length (nodes ! i) = n" using less.prems by simp
  show ?case
  proof (cases "length buf \<le> n - npos")
    case True
    have fits: "npos + length buf \<le> n" using True less.prems(4) by simp
    have stop: "write_loop nodes (Some i) position buf npos (n - npos) =
        Inr (nodes[i := overwrite (nodes ! i) npos buf],
             cursor n (length nodes) (i * n + npos + length buf), position + length buf)"
      using True fits len drf less.prems cursor_step [of n i "length nodes" npos "length buf" nodes]
      by (cases "buf = []")
        (auto simp: write_loop.simps [of nodes] node_put_def)
    show ?thesis
      using stop fits len less.prems by (simp add: concat_overwrite_block)
  next
    case False
    let ?m = "n - npos"
    let ?nd = "overwrite (nodes ! i) npos (take ?m buf)"
    let ?nodes = "nodes[i := ?nd]"
    have lt: "length (take ?m buf) = ?m" using False by simp
    have lnd: "length ?nd = n" using lt len less.prems(4) by simp
    have room: "Suc i < length nodes"
    proof (rule ccontr)
      assume "\<not> Suc i < length nodes"
      then have "length nodes = Suc i" using less.prems(3) by simp
      then show False using less.prems(4,5) False by simp
    qed
    have blk: "blocks n ?nodes" using less.prems lnd by simp
    have "\<exists>nodes'. write_loop ?nodes (Some (Suc i)) (position + ?m) (drop ?m buf) 0 (n - 0) =
      Inr (nodes', cursor n (length ?nodes) (Suc i * n + 0 + length (drop ?m buf)),
           position + ?m + length (drop ?m buf)) \<and>
      length nodes' = length ?nodes \<and> blocks n nodes' \<and>
      concat nodes' = overwrite (concat ?nodes) (Suc i * n + 0) (drop ?m buf)"
      using less.prems room blk False
      by (intro less.hyps) simp_all
    then obtain nodes' where ih:
      "write_loop ?nodes (Some (Suc i)) (position + ?m) (drop ?m buf) 0 n =
        Inr (nodes', cursor n (length nodes) (i * n + npos + length buf), position + length buf)"
      "length nodes' = length nodes" "blocks n nodes'"
      "concat nodes' = overwrite (concat ?nodes) (i * n + npos + ?m) (drop ?m buf)"
      using False less.prems(4) by (auto simp: algebra_simps)
    have "write_loop nodes (Some i) position buf npos ?m =
        write_loop ?nodes (Some (Suc i)) (position + ?m) (drop ?m buf) 0 n"
      using False drf lt len lnd room less.prems(2,4)
      by (subst write_loop.simps) (auto simp: node_put_def node_next_def deref_def)
    moreover have "concat nodes' = overwrite (concat nodes) (i * n + npos) buf"
    proof -
      have "concat ?nodes = overwrite (concat nodes) (i * n + npos) (take ?m buf)"
        using less.prems lt by (intro concat_overwrite_block) simp_all
      then show ?thesis
        using ih(4) False less.prems overwrite_take_drop [of ?m buf "i * n + npos" "concat nodes"]
        by simp
    qed
    ultimately show ?thesis using ih by simp
  qed
qed

lemma read_loop_correct:
  assumes "0 < n" "blocks n nodes" "i < length nodes" "npos < n"
    and "i * n + npos + len \<le> length nodes * n"
  shows "read_loop nodes (Some i) position len npos (n - npos) =
      Inr (take len (drop (i * n + npos) (concat nodes)),
           cursor n (length nodes) (i * n + npos + len), position + len)"
  using assms
proof (induction "length nodes - i" arbitrary: i npos len position rule: less_induct)
  case less
  have drf: "deref nodes (Some i) = Inr (i, nodes ! i)" using less.prems by (simp add: deref_def)
  have ln: "length (nodes ! i) = n" using less.prems by simp
  have dr: "drop (i * n + npos) (concat nodes) = drop npos (nodes ! i) @ concat (drop (Suc i) nodes)"
    using less.prems by (intro drop_concat_block) simp_all
  show ?case
  proof (cases "len \<le> n - npos")
    case True
    then have fits: "npos + len \<le> n" using less.prems(4) by simp
    show ?thesis
      using True fits ln drf dr less.prems cursor_step [of n i "length nodes" npos len nodes]
      by (cases "len = 0")
        (auto simp: read_loop.simps [of nodes] node_get_def)
  next
    case False
    let ?m = "n - npos"
    have room: "Suc i < length nodes"
    proof (rule ccontr)
      assume "\<not> Suc i < length nodes"
      then have "length nodes = Suc i" using less.prems(3) by simp
      then show False using less.prems(4,5) False by simp
    qed
    have "read_loop nodes (Some (Suc i)) (position + ?m) (len - ?m) 0 (n - 0) =
      Inr (take (len - ?m) (drop (Suc i * n + 0) (concat nodes)),
           cursor n (length nodes) (Suc i * n + 0 + (len - ?m)), position + ?m + (len - ?m))"
      using less.prems room False by (intro less.hyps) simp_all
    moreover have "drop (Suc i * n) (concat nodes) = concat (drop (Suc i) nodes)"
      using drop_concat_block [of n nodes i n] less.prems by (simp add: add.commute)
    ultimately have "read_loop nodes (Some (Suc i)) (position + ?m) (len - ?m) 0 n =
      Inr (take (len - ?m) (concat (drop (Suc i) nodes)),
           cursor n (length nodes) (i * n + npos + len), position + len)"
      using False less.prems(4) by (simp add: algebra_simps)
    moreover have "take len (drop (i * n + npos) (concat nodes)) =
        drop npos (nodes ! i) @ take (len - ?m) (concat (drop (Suc i) nodes))"
      using dr ln False by simp
    ultimately show ?thesis
      using False drf ln room less.prems(2,4)
      by (subst read_loop.simps) (auto simp: node_get_def node_next_def deref_def)
  qed
qed

lemma seek_loop_correct:
  assumes "0 < n" "blocks n nodes" "i < length nodes" "i * n + v \<le> length nodes * n"
  shows "\<exists>w. seek_loop nodes (Some i) v = Inr (cursor n (length nodes) (i * n + v), w)"
  using assms
proof (induction "length nodes - i" arbitrary: i v rule: less_induct)
  case less
  have drf: "deref nodes (Some i) = Inr (i, nodes ! i)" using less.prems by (simp add: deref_def)
  have ln: "length (nodes ! i) = n" using less.prems by simp
  show ?case
  proof (cases "v \<le> n")
    case True
    then show ?thesis
      using drf ln less.prems cursor_step [of n i "length nodes" 0 v nodes]
      by (subst seek_loop.simps) auto
  next
    case False
    have room: "Suc i < length nodes"
    proof (rule ccontr)
      assume "\<not> Suc i < length nodes"
      then have "length nodes = Suc i" using less.prems(3) by simp
      then show False using less.prems(4) False by simp
    qed
    have "\<exists>w. seek_loop nodes (Some (Suc i)) (v - n) =
        Inr (cursor n (length nodes) (Suc i * n + (v - n)), w)"
      using less.prems room False by (intro less.hyps) simp_all
    moreover have "Suc i * n + (v - n) = i * n + v" using False by simp
    ultimately show ?thesis
      using False drf ln room less.prems(2)
      by (subst seek_loop.simps) (auto simp: node_next_def deref_def)
  qed
qed

section \<open>Growing keeps the invariant\<close>

lemma length_new_node [simp]: "length (new_node f i s) = s"
  by (simp add: new_node_def)

lemma add_nodes_props:
  "m_baseSize (add_nodes k b) = m_baseSize b \<and> m_position (add_nodes k b) = m_position b \<and>
   m_size (add_nodes k b) = m_size b \<and> m_endian (add_nodes k b) = m_endian b \<and>
   m_cur (add_nodes k b) = m_cur b \<and>
   m_capacity (add_nodes k b) = m_capacity b + k * m_baseSize b \<and>
   (\<exists>new. m_nodes (add_nodes k b) = m_nodes b @ new \<and> length new = k \<and> blocks (m_baseSize b) new)"
proof (induction k arbitrary: b)
  case 0
  then show ?case by simp
next
  case (Suc k)
  show ?case
    using Suc [of "b\<lparr>m_nodes := m_nodes b @ [new_node (m_fill b) (length (m_nodes b)) (m_baseSize b)],
          m_capacity := m_capacity b + m_baseSize b\<rparr>"]
    by (auto simp: algebra_simps)
qed

lemma ceil_div_bounds:
  assumes "0 < n"
  shows "a \<le> ceil_div a n * n" and "0 < a \<Longrightarrow> 0 < ceil_div a n"
    and "0 < a \<Longrightarrow> (ceil_div a n - 1) * n < a"
proof -
  have dm: "(a + n - 1) div n * n + (a + n - 1) mod n = a + n - 1" by simp
  have "(a + n - 1) mod n < n" using assms by (rule mod_less_divisor)
  then show "a \<le> ceil_div a n * n" using dm assms unfolding ceil_div_def by linarith
  show pos: "0 < ceil_div a n" if "0 < a"
    using assms that by (simp add: ceil_div_def div_greater_zero_iff)
  show "(ceil_div a n - 1) * n < a" if "0 < a"
  proof -
    have "ceil_div a n * n \<le> a + n - 1" by (simp add: ceil_div_def)
    then show ?thesis using that assms by (simp add: diff_mult_distrib)
  qed
qed

text \<open>
  The abstract effect of \<open>addCapacity\<close>: it never fails, keeps the contents and the position, leaves
  room for the request, and appends the fewest nodes that do so.
\<close>

lemma addCapacity_correct:
  assumes inv: "ba_inv b"
  shows "\<exists>b'. addCapacity b len = Inr b' \<and> ba_inv b' \<and> contents b' = contents b \<and>
    m_position b' = m_position b \<and> m_size b' = m_size b \<and> m_endian b' = m_endian b \<and>
    m_baseSize b' = m_baseSize b \<and> m_position b + len \<le> m_capacity b' \<and>
    m_capacity b' \<le> max (m_capacity b) (m_position b + len + m_baseSize b - 1)"
proof (cases "len = 0 \<or> len \<le> getCapacity b")
  case True
  then show ?thesis
    using inv by (auto simp: addCapacity_def getCapacity_def ba_inv_def Let_def)
next
  case False
  let ?n = "m_baseSize b"
  let ?old = "getCapacity b"
  define k where "k = ceil_div (len - ?old) ?n"
  define b1 where "b1 = add_nodes k b"
  let ?b = "if ?old = 0 then b1\<lparr>m_cur := Some (length (m_nodes b))\<rparr> else b1"
  from inv have n: "0 < ?n" and pc: "m_position b \<le> m_capacity b" and
    cap: "m_capacity b = length (m_nodes b) * ?n" and ne: "m_nodes b \<noteq> []" and
    blk: "blocks ?n (m_nodes b)" and szc: "m_size b \<le> m_capacity b" and
    cur: "m_cur b = cursor ?n (length (m_nodes b)) (m_position b)" and
    bo: "byte_order (m_endian b)" and
    ps: "m_position b \<le> m_size b"
    by (auto simp: ba_inv_def)
  have k: "0 < k" "len - ?old \<le> k * ?n" "(k - 1) * ?n < len - ?old"
    using ceil_div_bounds [OF n, of "len - ?old"] False by (auto simp: k_def)
  obtain new where new: "m_nodes b1 = m_nodes b @ new" "length new = k" "blocks ?n new"
    using add_nodes_props unfolding b1_def by blast
  have b1: "m_baseSize b1 = ?n" "m_position b1 = m_position b" "m_size b1 = m_size b"
    "m_endian b1 = m_endian b" "m_cur b1 = m_cur b" "m_capacity b1 = m_capacity b + k * ?n"
    by (simp_all add: b1_def add_nodes_props)
  have run: "addCapacity b len = Inr ?b"
    using False n k(1) unfolding b1_def k_def by (auto simp: addCapacity_def Let_def)
  have old: "?old + m_position b = m_capacity b" using pc by (simp add: getCapacity_def)
  have cap_ge: "m_position b + len \<le> m_capacity b1"
    using k(2) pc b1(6) by (simp add: getCapacity_def)
  have "k * ?n = (k - 1) * ?n + ?n"
    using k(1) by (metis Suc_diff_1 add.commute mult_Suc)
  then have "m_capacity b1 = m_capacity b + (k - 1) * ?n + ?n"
    using b1(6) by linarith
  then have cap_le: "m_capacity b1 \<le> m_position b + len + ?n - 1"
    using less_diff_conv [THEN iffD1, OF k(3)] old n by linarith
  have curb: "m_cur ?b = cursor ?n (length (m_nodes b1)) (m_position b)"
  proof (cases "?old = 0")
    case True
    then have "m_position b = length (m_nodes b) * ?n" using pc cap by (simp add: getCapacity_def)
    then show ?thesis using True k(1) new n by (simp add: cursor_def algebra_simps)
  next
    case False
    then have "m_position b < length (m_nodes b) * ?n" using cap by (simp add: getCapacity_def)
    then show ?thesis using False cur new b1 by (simp add: cursor_def add_mult_distrib)
  qed
  have "ba_inv ?b"
    unfolding ba_inv_def using curb n new blk ne cap b1 ps szc bo
    by (auto simp: add_mult_distrib)
  moreover have "contents ?b = contents b"
    using new b1 szc cap blk by (simp add: contents_def)
  ultimately show ?thesis
    using run cap_ge cap_le b1 by auto
qed

section \<open>The contract of a seekable byte store\<close>

text \<open>
  What the typed encodings and the streams rely on: a store of bytes with one position, where a
  write lands at the position and extends the data, a read returns the bytes ahead, and the
  position can be moved. \<open>mode\<close> is a setting no operation touches (the byte order).
\<close>

locale seekable_store =
  fixes invar :: "'s \<Rightarrow> bool" and data :: "'s \<Rightarrow> bytes" and pos :: "'s \<Rightarrow> nat"
    and capacity :: "'s \<Rightarrow> nat" and mode :: "'s \<Rightarrow> u8"
    and put :: "'s \<Rightarrow> bytes \<Rightarrow> 's res" and get :: "'s \<Rightarrow> nat \<Rightarrow> (bytes \<times> 's) res"
    and seek :: "'s \<Rightarrow> nat \<Rightarrow> 's res"
  assumes mode_ok: "invar s \<Longrightarrow> byte_order (mode s)"
    and pos_le: "invar s \<Longrightarrow> pos s \<le> length (data s)"
    and data_le: "invar s \<Longrightarrow> length (data s) \<le> capacity s"
    and put_ok: "invar s \<Longrightarrow>
      \<exists>s'. put s bs = Inr s' \<and> invar s' \<and> data s' = overwrite (data s) (pos s) bs \<and>
           pos s' = pos s + length bs \<and> mode s' = mode s"
    and get_ok: "invar s \<Longrightarrow> pos s + n \<le> length (data s) \<Longrightarrow> 0 < n \<or> pos s < capacity s \<Longrightarrow>
      \<exists>s'. get s n = Inr (take n (drop (pos s) (data s)), s') \<and> invar s' \<and> data s' = data s \<and>
           pos s' = pos s + n \<and> mode s' = mode s \<and> capacity s' = capacity s"
    and get_short: "invar s \<Longrightarrow> length (data s) < pos s + n \<Longrightarrow>
      get s n = Inl (Out_of_range ''not enough len'')"
    and seek_ok: "invar s \<Longrightarrow> p \<le> length (data s) \<Longrightarrow>
      \<exists>s'. seek s p = Inr s' \<and> invar s' \<and> data s' = data s \<and> pos s' = p \<and> mode s' = mode s \<and>
           capacity s' = capacity s"
begin

text \<open>\<open>s1\<close> is \<open>s\<close> with the bytes \<open>bs\<close> written at its position.\<close>

definition wrote :: "'s \<Rightarrow> bytes \<Rightarrow> 's \<Rightarrow> bool" where
  "wrote s bs s1 \<longleftrightarrow> invar s \<and> invar s1 \<and> data s1 = overwrite (data s) (pos s) bs \<and>
     pos s1 = pos s + length bs \<and> mode s1 = mode s"

text \<open>The bytes \<open>bs\<close> lie ahead of the position of \<open>s\<close>.\<close>

definition ahead :: "'s \<Rightarrow> bytes \<Rightarrow> bool" where
  "ahead s bs \<longleftrightarrow> invar s \<and> pos s + length bs \<le> length (data s) \<and>
     take (length bs) (drop (pos s) (data s)) = bs"

text \<open>\<open>s'\<close> is \<open>s\<close> with the position moved on by \<open>n\<close> bytes.\<close>

definition moved :: "'s \<Rightarrow> nat \<Rightarrow> 's \<Rightarrow> bool" where
  "moved s n s' \<longleftrightarrow> invar s' \<and> data s' = data s \<and> pos s' = pos s + n \<and> mode s' = mode s \<and>
     capacity s' = capacity s"

lemma put_wrote: "invar s \<Longrightarrow> \<exists>s1. put s bs = Inr s1 \<and> wrote s bs s1"
  using put_ok [of s bs] by (auto simp: wrote_def)

text \<open>Writes in a row add up to one write of the concatenation.\<close>

lemma wrote_append: "wrote s xs s1 \<Longrightarrow> wrote s1 ys s2 \<Longrightarrow> wrote s (xs @ ys) s2"
  using pos_le [of s] by (auto simp: wrote_def overwrite_overwrite_append)

lemma wrote_Nil: "invar s \<Longrightarrow> wrote s [] s"
  by (simp add: wrote_def)

lemma moved_trans: "moved s m s1 \<Longrightarrow> moved s1 n s2 \<Longrightarrow> moved s (m + n) s2"
  by (simp add: moved_def)

text \<open>Whatever was written is ahead again after seeking back to where the write began.\<close>

lemma wrote_seek_ahead:
  assumes "wrote s bs s1"
  shows "\<exists>s2. seek s1 (pos s) = Inr s2 \<and> ahead s2 bs \<and> pos s2 = pos s \<and> data s2 = data s1 \<and>
    mode s2 = mode s \<and> capacity s2 = capacity s1"
proof -
  have s1: "invar s1" "data s1 = overwrite (data s) (pos s) bs" "mode s1 = mode s"
    and ps: "pos s \<le> length (data s)"
    using assms pos_le [of s] by (auto simp: wrote_def)
  have "pos s + length bs \<le> length (data s1)"
    using ps by (simp add: s1(2) overwrite_def)
  then show ?thesis
    using seek_ok [OF s1(1), of "pos s"] s1 ps by (auto simp: ahead_def)
qed

lemma get_ahead:
  assumes "ahead s (xs @ ys)" "xs \<noteq> [] \<or> pos s < capacity s"
  shows "\<exists>s'. get s (length xs) = Inr (xs, s') \<and> ahead s' ys \<and> moved s (length xs) s'"
proof -
  have inv: "invar s" and len: "pos s + (length xs + length ys) \<le> length (data s)"
    and bs: "take (length xs + length ys) (drop (pos s) (data s)) = xs @ ys"
    using assms(1) by (auto simp: ahead_def)
  have xs: "take (length xs) (drop (pos s) (data s)) = xs"
  proof -
    have "take (length xs) (take (length xs + length ys) (drop (pos s) (data s))) = xs"
      by (simp only: bs) simp
    then show ?thesis by simp
  qed
  have ys: "take (length ys) (drop (pos s + length xs) (data s)) = ys"
  proof -
    have "drop (length xs) (take (length xs + length ys) (drop (pos s) (data s))) = ys"
      by (simp only: bs) simp
    then show ?thesis by (simp add: drop_take add.commute)
  qed
  show ?thesis
    using get_ok [OF inv, of "length xs"] len xs ys assms(2)
    by (auto simp: ahead_def moved_def add.assoc)
qed

end

text \<open>
  A codec over such a store: a writer and a reader for values of one type that agree on the bytes
  of a value. \<open>okv\<close> are the values the format can carry. \<open>solid\<close> are those whose reader never asks for
  zero bytes; the others can only be read back when the store has room behind them.
\<close>

locale byte_codec = seekable_store invar data pos capacity mode put get seek
  for invar :: "'s \<Rightarrow> bool" and data :: "'s \<Rightarrow> bytes" and pos :: "'s \<Rightarrow> nat"
    and capacity :: "'s \<Rightarrow> nat" and mode :: "'s \<Rightarrow> u8"
    and put :: "'s \<Rightarrow> bytes \<Rightarrow> 's res" and get :: "'s \<Rightarrow> nat \<Rightarrow> (bytes \<times> 's) res"
    and seek :: "'s \<Rightarrow> nat \<Rightarrow> 's res" +
  fixes wr :: "'s \<Rightarrow> 'v \<Rightarrow> 's res" and rd :: "'s \<Rightarrow> ('v \<times> 's) res"
    and wire :: "u8 \<Rightarrow> 'v \<Rightarrow> bytes" and okv :: "'v \<Rightarrow> bool" and solid :: "'v \<Rightarrow> bool"
  assumes wr_ok: "invar s \<Longrightarrow> okv v \<Longrightarrow> \<exists>s1. wr s v = Inr s1 \<and> wrote s (wire (mode s) v) s1"
    and rd_ok: "okv v \<Longrightarrow> ahead s (wire (mode s) v @ rest) \<Longrightarrow>
      solid v \<or> pos s + length (wire (mode s) v) < capacity s \<Longrightarrow>
      \<exists>s'. rd s = Inr (v, s') \<and> ahead s' rest \<and> moved s (length (wire (mode s) v)) s'"
begin

lemma write_seek_read:
  assumes "invar s" "okv v" "solid v"
  shows "\<exists>s1 s2 s3. wr s v = Inr s1 \<and> seek s1 (pos s) = Inr s2 \<and> rd s2 = Inr (v, s3) \<and>
    invar s3 \<and> pos s3 = pos s1 \<and> data s3 = data s1"
proof -
  obtain s1 where s1: "wr s v = Inr s1" "wrote s (wire (mode s) v) s1"
    using wr_ok [OF assms(1,2)] by blast
  obtain s2 where s2: "seek s1 (pos s) = Inr s2" "ahead s2 (wire (mode s) v)" "pos s2 = pos s"
    "data s2 = data s1" "mode s2 = mode s"
    using wrote_seek_ahead [OF s1(2)] by blast
  then show ?thesis
    using s1 rd_ok [of v s2 "[]"] assms(2,3) by (auto simp: moved_def wrote_def)
qed

text \<open>A sequence of values written one after the other is read back value by value.\<close>

primrec wr_all :: "'s \<Rightarrow> 'v list \<Rightarrow> 's res" where
  "wr_all s [] = Inr s"
| "wr_all s (v # vs) = bindE (wr s v) (\<lambda>s1. wr_all s1 vs)"

primrec rd_all :: "'s \<Rightarrow> nat \<Rightarrow> ('v list \<times> 's) res" where
  "rd_all s 0 = Inr ([], s)"
| "rd_all s (Suc n) = bindE (rd s) (\<lambda>(v, s1). bindE (rd_all s1 n) (\<lambda>(vs, s2). Inr (v # vs, s2)))"

definition wires :: "u8 \<Rightarrow> 'v list \<Rightarrow> bytes" where
  "wires e vs = concat (map (wire e) vs)"

lemma wr_all_ok:
  "invar s \<Longrightarrow> \<forall>v \<in> set vs. okv v \<Longrightarrow>
   \<exists>s1. wr_all s vs = Inr s1 \<and> wrote s (wires (mode s) vs) s1"
proof (induction vs arbitrary: s)
  case Nil
  then show ?case by (simp add: wires_def wrote_Nil)
next
  case (Cons v vs)
  obtain s1 where s1: "wr s v = Inr s1" "wrote s (wire (mode s) v) s1"
    using wr_ok [of s v] Cons.prems by auto
  then obtain s2 where "wr_all s1 vs = Inr s2" "wrote s1 (wires (mode s1) vs) s2"
    using Cons.IH [of s1] Cons.prems by (auto simp: wrote_def)
  moreover have "mode s1 = mode s" using s1(2) by (simp add: wrote_def)
  ultimately show ?case using s1 wrote_append by (auto simp: wires_def)
qed

lemma rd_all_ok:
  "\<forall>v \<in> set vs. okv v \<and> solid v \<Longrightarrow> ahead s (wires (mode s) vs) \<Longrightarrow>
   \<exists>s'. rd_all s (length vs) = Inr (vs, s') \<and> moved s (length (wires (mode s) vs)) s'"
proof (induction vs arbitrary: s)
  case Nil
  then show ?case by (simp add: moved_def wires_def ahead_def)
next
  case (Cons v vs)
  obtain s1 where s1: "rd s = Inr (v, s1)" "ahead s1 (wires (mode s) vs)"
    "moved s (length (wire (mode s) v)) s1"
    using rd_ok [of v s "wires (mode s) vs"] Cons.prems by (auto simp: wires_def)
  then have "mode s1 = mode s" by (simp add: moved_def)
  then obtain s2 where "rd_all s1 (length vs) = Inr (vs, s2)"
    "moved s1 (length (wires (mode s) vs)) s2"
    using Cons.IH [of s1] Cons.prems s1(2) by auto
  then show ?case using s1 moved_trans by (force simp: wires_def)
qed

lemma write_seek_read_all:
  assumes "invar s" "\<forall>v \<in> set vs. okv v \<and> solid v"
  shows "\<exists>s1 s2 s3. wr_all s vs = Inr s1 \<and> seek s1 (pos s) = Inr s2 \<and>
    rd_all s2 (length vs) = Inr (vs, s3) \<and> pos s3 = pos s1 \<and> data s3 = data s1"
proof -
  obtain s1 where s1: "wr_all s vs = Inr s1" "wrote s (wires (mode s) vs) s1"
    using wr_all_ok [OF assms(1), of vs] assms(2) by blast
  obtain s2 where "seek s1 (pos s) = Inr s2" "ahead s2 (wires (mode s) vs)" "pos s2 = pos s"
    "data s2 = data s1" "mode s2 = mode s"
    using wrote_seek_ahead [OF s1(2)] by blast
  then show ?thesis
    using s1 rd_all_ok [of vs s2] assms(2) by (auto simp: moved_def wrote_def)
qed

end

section \<open>The buffer implements the contract\<close>

lemma ByteArray_inv: "0 < n \<Longrightarrow> ba_inv (ByteArray f n)"
  by (simp add: ba_inv_def ByteArray_def cursor_def)

lemma contents_ByteArray [simp]: "contents (ByteArray f n) = []"
  by (simp add: contents_def ByteArray_def)

lemma clear_inv: "ba_inv b \<Longrightarrow> ba_inv (clear b)"
  by (cases "m_nodes b") (auto simp: ba_inv_def clear_def cursor_def)

lemma deref_cursor:
  assumes "ba_inv b" "m_position b < m_capacity b"
  shows "deref (m_nodes b) (m_cur b) =
    Inr (m_position b div m_baseSize b, m_nodes b ! (m_position b div m_baseSize b))"
    and "m_position b div m_baseSize b < length (m_nodes b)"
    and "length (m_nodes b ! (m_position b div m_baseSize b)) = m_baseSize b"
    and "m_cur b = Some (m_position b div m_baseSize b)"
  using assms cursor_in [of "m_position b" "length (m_nodes b)" "m_baseSize b"]
  by (auto simp: ba_inv_def deref_def cursor_def)

lemma ba_write_correct:
  assumes inv: "ba_inv b"
  shows "\<exists>b'. ba_write b bs = Inr b' \<and> ba_inv b' \<and>
    contents b' = overwrite (contents b) (m_position b) bs \<and>
    m_position b' = m_position b + length bs \<and> m_endian b' = m_endian b \<and>
    m_size b' = max (m_size b) (m_position b + length bs) \<and> m_baseSize b' = m_baseSize b"
proof (cases "bs = []")
  case True
  then show ?thesis using inv by (auto simp: ba_write_def ba_inv_def)
next
  case False
  obtain b1 where b1: "addCapacity b (length bs) = Inr b1" "ba_inv b1" "contents b1 = contents b"
    "m_position b1 = m_position b" "m_size b1 = m_size b" "m_endian b1 = m_endian b"
    "m_baseSize b1 = m_baseSize b" "m_position b + length bs \<le> m_capacity b1"
    using addCapacity_correct [OF inv, of "length bs"] by blast
  let ?n = "m_baseSize b1" and ?p = "m_position b1"
  have n: "0 < ?n" and blk: "blocks ?n (m_nodes b1)" and
    cap: "m_capacity b1 = length (m_nodes b1) * ?n" and
    pz: "?p \<le> m_size b1" "m_size b1 \<le> m_capacity b1"
    using b1(2) by (auto simp: ba_inv_def)
  have pc: "?p < m_capacity b1" using b1(4,8) False by (cases bs) auto
  note drf = deref_cursor [OF b1(2) pc]
  have pp: "?p div ?n * ?n + ?p mod ?n = ?p" by simp
  obtain nodes' where nodes':
    "write_loop (m_nodes b1) (Some (?p div ?n)) ?p bs (?p mod ?n) (?n - ?p mod ?n) =
      Inr (nodes', cursor ?n (length (m_nodes b1)) (?p + length bs), ?p + length bs)"
    "length nodes' = length (m_nodes b1)" "blocks ?n nodes'"
    "concat nodes' = overwrite (concat (m_nodes b1)) ?p bs"
    using write_loop_correct [of ?n "m_nodes b1" "?p div ?n" "?p mod ?n" bs ?p]
      n blk drf(2) b1(4,8) cap pp by auto
  let ?b = "b1\<lparr>m_nodes := nodes', m_cur := cursor ?n (length (m_nodes b1)) (?p + length bs),
      m_position := ?p + length bs,
      m_size := (if ?p + length bs > m_size b1 then ?p + length bs else m_size b1)\<rparr>"
  have run: "ba_write b bs = Inr ?b"
    using False b1(1) n drf nodes'(1) by (simp add: ba_write_def)
  have size: "m_size ?b = max (m_size b) (m_position b + length bs)"
    using b1 by simp
  have "ba_inv ?b"
    using b1(2,4,8) nodes' cap by (auto simp: ba_inv_def)
  moreover have "contents ?b = overwrite (contents b) (m_position b) bs"
  proof -
    have "contents ?b = take (max (m_size b) (?p + length bs)) (overwrite (concat (m_nodes b1)) ?p bs)"
      using nodes'(4) size by (simp add: contents_def b1(4))
    also have "\<dots> = overwrite (take (m_size b) (concat (m_nodes b1))) ?p bs"
      using take_overwrite_ge [of ?p bs "concat (m_nodes b1)" "m_size b"] pz b1(4,5,8) cap
        length_concat_blocks [OF blk]
      by (simp add: overwrite_def)
    also have "take (m_size b) (concat (m_nodes b1)) = contents b"
      using b1(3,5) by (simp add: contents_def)
    finally show ?thesis by (simp add: b1(4))
  qed
  ultimately show ?thesis
    using run size b1 by auto
qed

lemma ba_read_correct:
  assumes inv: "ba_inv b" and len: "m_position b + n \<le> m_size b"
    and room: "0 < n \<or> m_position b < m_capacity b"
  shows "\<exists>b'. ba_read b n = Inr (take n (drop (m_position b) (contents b)), b') \<and> ba_inv b' \<and>
    contents b' = contents b \<and> m_position b' = m_position b + n \<and> m_endian b' = m_endian b \<and>
    b' = b\<lparr>m_position := m_position b + n,
           m_cur := cursor (m_baseSize b) (length (m_nodes b)) (m_position b + n)\<rparr>"
proof -
  let ?s = "m_baseSize b" and ?p = "m_position b"
  have s: "0 < ?s" and blk: "blocks ?s (m_nodes b)" and
    cap: "m_capacity b = length (m_nodes b) * ?s" and sz: "m_size b \<le> m_capacity b"
    using inv by (auto simp: ba_inv_def)
  have pc: "?p < m_capacity b" using room len sz by linarith
  note drf = deref_cursor [OF inv pc]
  have "read_loop (m_nodes b) (Some (?p div ?s)) ?p n (?p mod ?s) (?s - ?p mod ?s) =
      Inr (take n (drop (?p div ?s * ?s + ?p mod ?s) (concat (m_nodes b))),
           cursor ?s (length (m_nodes b)) (?p div ?s * ?s + ?p mod ?s + n), ?p + n)"
    using s blk drf(2) len sz cap by (intro read_loop_correct) simp_all
  moreover have "take n (drop ?p (concat (m_nodes b))) = take n (drop ?p (contents b))"
    using len by (simp add: contents_def drop_take)
  ultimately have "ba_read b n = Inr (take n (drop ?p (contents b)),
      b\<lparr>m_cur := cursor ?s (length (m_nodes b)) (?p + n), m_position := ?p + n\<rparr>)"
    using len s drf by (simp add: ba_read_def getReadSize_def)
  then show ?thesis
    using inv len by (auto simp: ba_inv_def contents_def)
qed

lemma ba_read_short:
  "ba_inv b \<Longrightarrow> m_size b < m_position b + n \<Longrightarrow>
   ba_read b n = Inl (Out_of_range ''not enough len'')"
  by (auto simp: ba_read_def getReadSize_def ba_inv_def)

lemma setPosition_correct:
  assumes inv: "ba_inv b" and v: "v \<le> m_capacity b"
  shows "\<exists>b'. setPosition b v = Inr b' \<and> ba_inv b' \<and> m_position b' = v \<and>
    m_size b' = max (m_size b) v \<and> m_nodes b' = m_nodes b \<and> m_endian b' = m_endian b \<and>
    m_capacity b' = m_capacity b"
proof -
  obtain w where "seek_loop (m_nodes b) (Some 0) v =
      Inr (cursor (m_baseSize b) (length (m_nodes b)) v, w)"
    using seek_loop_correct [of "m_baseSize b" "m_nodes b" 0 v] inv v by (auto simp: ba_inv_def)
  then show ?thesis
    using inv v by (auto simp: setPosition_def ba_inv_def)
qed

interpretation ba: seekable_store ba_inv contents m_position m_capacity m_endian ba_write ba_read
  setPosition
proof (unfold_locales, goal_cases)
  case (4 s bs)
  then show ?case using ba_write_correct [of s bs] by blast
next
  case (5 s n)
  then show ?case using ba_read_correct [of s n] by (auto simp: Let_def)
next
  case (6 s n)
  then show ?case by (simp add: ba_read_short)
next
  case (7 s p)
  then have "p \<le> m_capacity s" by (simp add: ba_inv_def)
  then show ?case
    using 7 setPosition_correct [of s p] by (auto simp: contents_def)
qed (simp_all add: ba_inv_def)

section \<open>The buffer as a file: the specification machine\<close>

text \<open>
  The specification of a buffer is a byte string with one position. A client's calls are a list of
  operations; a run collects what the reads return. The specification refuses what the code does
  not promise: reading past the end, an empty read, seeking past the data.
\<close>

datatype ba_op = Op_write bytes | Op_read nat | Op_seek nat | Op_clear

fun spec_step :: "bytes \<times> nat \<Rightarrow> ba_op \<Rightarrow> (bytes \<times> bytes \<times> nat) option" where
  "spec_step (d, p) (Op_write bs) = Some ([], overwrite d p bs, p + length bs)"
| "spec_step (d, p) (Op_read n) =
     (if 0 < n \<and> p + n \<le> length d then Some (take n (drop p d), d, p + n) else None)"
| "spec_step (d, p) (Op_seek v) = (if v \<le> length d then Some ([], d, v) else None)"
| "spec_step (d, p) Op_clear = Some ([], [], 0)"

fun spec_run :: "bytes \<times> nat \<Rightarrow> ba_op list \<Rightarrow> (bytes \<times> bytes \<times> nat) option" where
  "spec_run s [] = Some ([], s)"
| "spec_run s (x # xs) =
     (case spec_step s x of
        None \<Rightarrow> None
      | Some (out, s') \<Rightarrow>
         (case spec_run s' xs of None \<Rightarrow> None | Some (outs, s'') \<Rightarrow> Some (out @ outs, s'')))"

fun ba_step :: "bytearray \<Rightarrow> ba_op \<Rightarrow> (bytes \<times> bytearray) res" where
  "ba_step b (Op_write bs) = bindE (ba_write b bs) (\<lambda>b'. Inr ([], b'))"
| "ba_step b (Op_read n) = ba_read b n"
| "ba_step b (Op_seek v) = bindE (setPosition b v) (\<lambda>b'. Inr ([], b'))"
| "ba_step b Op_clear = Inr ([], clear b)"

fun ba_run :: "bytearray \<Rightarrow> ba_op list \<Rightarrow> (bytes \<times> bytearray) res" where
  "ba_run b [] = Inr ([], b)"
| "ba_run b (x # xs) =
     bindE (ba_step b x) (\<lambda>(out, b').
       bindE (ba_run b' xs) (\<lambda>(outs, b''). Inr (out @ outs, b'')))"

definition ba_abs :: "bytearray \<Rightarrow> bytes \<times> nat" where
  "ba_abs b = (contents b, m_position b)"

lemma ba_step_simulates:
  assumes "ba_inv b" "spec_step (ba_abs b) x = Some (out, s')"
  shows "\<exists>b'. ba_step b x = Inr (out, b') \<and> ba_inv b' \<and> ba_abs b' = s'"
proof (cases x)
  case (Op_write bs)
  then show ?thesis using assms ba_write_correct [of b bs] by (auto simp: ba_abs_def)
next
  case (Op_read n)
  then show ?thesis
    using assms ba_read_correct [of b n] by (auto simp: ba_abs_def split: if_splits)
next
  case (Op_seek v)
  then show ?thesis
    using assms ba.seek_ok [of b v] by (auto simp: ba_abs_def split: if_splits)
next
  case Op_clear
  then show ?thesis
    using assms clear_inv [of b] by (auto simp: ba_abs_def clear_def contents_def)
qed

lemma ba_run_simulates:
  assumes "ba_inv b" "spec_run (ba_abs b) xs = Some (outs, s')"
  shows "\<exists>b'. ba_run b xs = Inr (outs, b') \<and> ba_inv b' \<and> ba_abs b' = s'"
  using assms
proof (induction xs arbitrary: b outs)
  case Nil
  then show ?case by simp
next
  case (Cons x xs)
  from Cons.prems(2) obtain out s1 outs1 where s1: "spec_step (ba_abs b) x = Some (out, s1)"
    "spec_run s1 xs = Some (outs1, s')" "outs = out @ outs1"
    by (auto split: option.splits)
  obtain b1 where "ba_step b x = Inr (out, b1)" "ba_inv b1" "ba_abs b1 = s1"
    using ba_step_simulates [OF Cons.prems(1) s1(1)] by blast
  then show ?case using Cons.IH [of b1 outs1] s1 by auto
qed

section \<open>Properties\<close>

text \<open>
  C3: Refinement of the chained buffer by a byte string with a position. Whatever sequence of
  writes, reads, seeks and clears the specification accepts, a fresh \<open>ByteArray\<close> of any block size
  and any initial memory runs it without an exception or a memory error, every read returns what
  the specification returns, the representation invariant holds at the end, and the final contents
  and position are those of the specification.
\<close>

theorem ByteArray_refines_file:
  assumes "0 < n" "spec_run ([], 0) xs = Some (outs, s)"
  shows "\<exists>b. ba_run (ByteArray fill n) xs = Inr (outs, b) \<and> ba_inv b \<and> ba_abs b = s"
proof -
  have "ba_abs (ByteArray fill n) = ([], 0)"
    by (simp add: ba_abs_def) (simp add: ByteArray_def)
  then show ?thesis using ba_run_simulates [OF ByteArray_inv] assms by simp
qed

theorem ByteArray_refines_file_witness:
  "\<exists>b. ba_run (ByteArray (\<lambda>_ _. 0) 2)
      [Op_write [1, 2, 3, 4, 5], Op_seek 1, Op_read 3, Op_write [9], Op_seek 0, Op_read 5] =
      Inr ([2, 3, 4, 1, 2, 3, 4, 9], b) \<and>
    ba_inv b \<and> ba_abs b = ([1, 2, 3, 4, 9], 5)"
  by (rule ByteArray_refines_file) (simp_all add: overwrite_def)

text \<open>
  C30: Reading is guarded: on a buffer in a valid state, asking for more bytes than lie between the
  position and the end throws \<open>out_of_range\<close>, and any other non-empty read succeeds. The exception is
  the empty read: when the buffer is full up to its capacity and the position is at the end, the
  cursor is the null pointer and \<open>read\<close> of zero bytes dereferences it.
\<close>

theorem read_outcomes:
  assumes "ba_inv b"
  shows "(ba_read b n = Inl (Out_of_range ''not enough len'') \<longleftrightarrow> getReadSize b < n) \<and>
    ((\<exists>bs b'. ba_read b n = Inr (bs, b')) \<longleftrightarrow>
       n \<le> getReadSize b \<and> (0 < n \<or> m_position b < m_capacity b)) \<and>
    (ba_read b n = Inl Null_deref \<longleftrightarrow> n = 0 \<and> m_position b = m_capacity b)"
proof -
  have pz: "m_position b \<le> m_size b" "m_size b \<le> m_capacity b" using assms by (auto simp: ba_inv_def)
  consider "getReadSize b < n" | "n \<le> getReadSize b" "0 < n \<or> m_position b < m_capacity b"
    | "n = 0" "m_position b = m_capacity b"
    using pz by linarith
  then show ?thesis
  proof cases
    case 1
    then show ?thesis using ba_read_short [OF assms, of n] by (simp add: getReadSize_def)
  next
    case 2
    then have "m_position b + n \<le> m_size b" using pz by (simp add: getReadSize_def)
    then show ?thesis using ba_read_correct [OF assms _ 2(2)] 2 by auto
  next
    case 3
    then have "m_cur b = None" "0 < m_baseSize b" using assms by (auto simp: ba_inv_def cursor_def)
    then show ?thesis using 3 by (simp add: ba_read_def deref_def)
  qed
qed

theorem read_outcomes_witness:
  "\<exists>b. setPosition (ByteArray (\<lambda>_ _. 0) 4) 4 = Inr b \<and> ba_read b 0 = Inl Null_deref"
proof -
  obtain b where "setPosition (ByteArray (\<lambda>_ _. 0) 4) 4 = Inr b" "ba_inv b" "m_position b = 4"
    "m_nodes b = m_nodes (ByteArray (\<lambda>_ _. 0) 4)" "m_baseSize b = 4"
    using setPosition_correct [OF ByteArray_inv, of 4 4 "\<lambda>_ _. 0"]
    by (auto simp: ByteArray_def setPosition_def)
  then show ?thesis using read_outcomes [of b 0] by (auto simp: ba_inv_def ByteArray_def)
qed

end
