(* ===== verification/Sylar_Codec.thy ===== *)
theory Sylar_Codec
  imports Sylar_ByteArray
begin

text \<open>
  The typed encodings of \<^verbatim>\<open>ByteArray\<close> (\<^verbatim>\<open>sylar/bytearray.cpp\<close>): fixed-width integers in the byte
  order of the buffer, variable-length integers of seven bits per byte, the zigzag map that makes
  small negative numbers short, floating-point values through their bit patterns, and strings with
  a length prefix. Signed and unsigned integers of a width are the same words; \<^const>\<open>sint\<close> and
  \<^const>\<open>uint\<close> read them. \<open>big\<close> says whether the host is big-endian.

  A C++ exception that leaves a reader is the error value; the part of the buffer it had consumed
  before is then not part of the result.
\<close>

unbundle bit_operations_syntax

section \<open>Fixed width\<close>

text \<open>The body the fixed-width writers share, and the macro \<^verbatim>\<open>XX\<close> of the readers.\<close>

definition writeF :: "bool \<Rightarrow> bytearray \<Rightarrow> 'a::len word \<Rightarrow> bytearray res" where
  "writeF big b value =
    ba_write b (mem_of (SYLAR_BYTE_ORDER big)
      (if m_endian b \<noteq> SYLAR_BYTE_ORDER big then byteswap value else value))"

definition readF :: "bool \<Rightarrow> bytearray \<Rightarrow> ('a::len word \<times> bytearray) res" where
  "readF big b =
    bindE (ba_read b (LENGTH('a) div 8)) (\<lambda>(bs, b').
      let v = of_mem (SYLAR_BYTE_ORDER big) bs in
      Inr (if m_endian b' = SYLAR_BYTE_ORDER big then v else byteswap v, b'))"

definition writeFint8 :: "bytearray \<Rightarrow> 8 word \<Rightarrow> bytearray res" where
  "writeFint8 b value = ba_write b [value]"

definition writeFuint8 :: "bytearray \<Rightarrow> u8 \<Rightarrow> bytearray res" where
  "writeFuint8 b value = ba_write b [value]"

definition writeFint16 :: "bool \<Rightarrow> bytearray \<Rightarrow> 16 word \<Rightarrow> bytearray res" where
  "writeFint16 = writeF"

definition writeFuint16 :: "bool \<Rightarrow> bytearray \<Rightarrow> u16 \<Rightarrow> bytearray res" where
  "writeFuint16 = writeF"

definition writeFint32 :: "bool \<Rightarrow> bytearray \<Rightarrow> 32 word \<Rightarrow> bytearray res" where
  "writeFint32 = writeF"

definition writeFuint32 :: "bool \<Rightarrow> bytearray \<Rightarrow> u32 \<Rightarrow> bytearray res" where
  "writeFuint32 = writeF"

definition writeFint64 :: "bool \<Rightarrow> bytearray \<Rightarrow> 64 word \<Rightarrow> bytearray res" where
  "writeFint64 = writeF"

definition writeFuint64 :: "bool \<Rightarrow> bytearray \<Rightarrow> u64 \<Rightarrow> bytearray res" where
  "writeFuint64 = writeF"

definition readFint8 :: "bytearray \<Rightarrow> (8 word \<times> bytearray) res" where
  "readFint8 b = bindE (ba_read b 1) (\<lambda>(bs, b'). Inr (hd bs, b'))"

definition readFuint8 :: "bytearray \<Rightarrow> (u8 \<times> bytearray) res" where
  "readFuint8 b = bindE (ba_read b 1) (\<lambda>(bs, b'). Inr (hd bs, b'))"

definition readFint16 :: "bool \<Rightarrow> bytearray \<Rightarrow> (16 word \<times> bytearray) res" where
  "readFint16 = readF"

definition readFuint16 :: "bool \<Rightarrow> bytearray \<Rightarrow> (u16 \<times> bytearray) res" where
  "readFuint16 = readF"

definition readFint32 :: "bool \<Rightarrow> bytearray \<Rightarrow> (32 word \<times> bytearray) res" where
  "readFint32 = readF"

definition readFuint32 :: "bool \<Rightarrow> bytearray \<Rightarrow> (u32 \<times> bytearray) res" where
  "readFuint32 = readF"

definition readFint64 :: "bool \<Rightarrow> bytearray \<Rightarrow> (64 word \<times> bytearray) res" where
  "readFint64 = readF"

definition readFuint64 :: "bool \<Rightarrow> bytearray \<Rightarrow> (u64 \<times> bytearray) res" where
  "readFuint64 = readF"

section \<open>Zigzag and variable length\<close>

text \<open>
  The arithmetic of the zigzag encoders is on signed integers in the source; it is taken modulo
  the word size, which is what two's complement hardware computes where C++ leaves the overflow
  undefined.
\<close>

definition EncodeZigzag32 :: "32 word \<Rightarrow> u32" where
  "EncodeZigzag32 v = (if v <s 0 then (- v) * 2 - 1 else v * 2)"

definition EncodeZigzag64 :: "64 word \<Rightarrow> u64" where
  "EncodeZigzag64 v = (if v <s 0 then (- v) * 2 - 1 else v * 2)"

definition DecodeZigzag32 :: "u32 \<Rightarrow> 32 word" where
  "DecodeZigzag32 v = drop_bit 1 v XOR - (v AND 1)"

definition DecodeZigzag64 :: "u64 \<Rightarrow> 64 word" where
  "DecodeZigzag64 v = drop_bit 1 v XOR - (v AND 1)"

text \<open>
  The loop that fills \<open>tmp\<close>: the first argument is the room left in the array, and a store behind
  its end is a memory error.
\<close>

fun varint_loop :: "nat \<Rightarrow> 'a::len word \<Rightarrow> bytes res" where
  "varint_loop 0 value = Inl Out_of_bounds"
| "varint_loop (Suc k) value =
     (if value \<ge> 0x80 then
        bindE (varint_loop k (drop_bit 7 value))
          (\<lambda>tmp. Inr (ucast ((value AND 0x7F) OR 0x80) # tmp))
      else Inr [ucast value])"

definition writeUint32 :: "bytearray \<Rightarrow> u32 \<Rightarrow> bytearray res" where
  "writeUint32 b value = bindE (varint_loop 5 value) (\<lambda>tmp. ba_write b tmp)"

definition writeUint64 :: "bytearray \<Rightarrow> u64 \<Rightarrow> bytearray res" where
  "writeUint64 b value = bindE (varint_loop 10 value) (\<lambda>tmp. ba_write b tmp)"

definition writeInt32 :: "bytearray \<Rightarrow> 32 word \<Rightarrow> bytearray res" where
  "writeInt32 b value = writeUint32 b (EncodeZigzag32 value)"

definition writeInt64 :: "bytearray \<Rightarrow> 64 word \<Rightarrow> bytearray res" where
  "writeInt64 b value = writeUint64 b (EncodeZigzag64 value)"

text \<open>\<open>for (int i = 0; i < width; i += 7)\<close>, with the shifts of the result's type.\<close>

function read_varint ::
  "nat \<Rightarrow> nat \<Rightarrow> bytearray \<Rightarrow> 'a::len word \<Rightarrow> ('a word \<times> bytearray) res"
where
  "read_varint width i s result =
    (if i < width then
       bindE (readFuint8 s) (\<lambda>(b, s').
         if b < 0x80 then Inr (result OR push_bit i (ucast b), s')
         else read_varint width (i + 7) s' (result OR push_bit i (ucast (b AND 0x7f))))
     else Inr (result, s))"
  by pat_completeness auto
termination
  by (relation "measure (\<lambda>(width, i, s, result). width - i)") auto

declare read_varint.simps [simp del]

definition readUint32 :: "bytearray \<Rightarrow> (u32 \<times> bytearray) res" where
  "readUint32 b = read_varint 32 0 b 0"

definition readUint64 :: "bytearray \<Rightarrow> (u64 \<times> bytearray) res" where
  "readUint64 b = read_varint 64 0 b 0"

definition readInt32 :: "bytearray \<Rightarrow> (32 word \<times> bytearray) res" where
  "readInt32 b = bindE (readUint32 b) (\<lambda>(v, b'). Inr (DecodeZigzag32 v, b'))"

definition readInt64 :: "bytearray \<Rightarrow> (64 word \<times> bytearray) res" where
  "readInt64 b = bindE (readUint64 b) (\<lambda>(v, b'). Inr (DecodeZigzag64 v, b'))"

section \<open>Floating point and strings\<close>

text \<open>A \<open>float\<close> or \<open>double\<close> is its bit pattern: \<open>memcpy\<close> to the integer and back keeps it.\<close>

definition writeFloat :: "bool \<Rightarrow> bytearray \<Rightarrow> u32 \<Rightarrow> bytearray res" where
  "writeFloat big b value = writeFuint32 big b value"

definition writeDouble :: "bool \<Rightarrow> bytearray \<Rightarrow> u64 \<Rightarrow> bytearray res" where
  "writeDouble big b value = writeFuint64 big b value"

definition readFloat :: "bool \<Rightarrow> bytearray \<Rightarrow> (u32 \<times> bytearray) res" where
  "readFloat big b = readFuint32 big b"

definition readDouble :: "bool \<Rightarrow> bytearray \<Rightarrow> (u64 \<times> bytearray) res" where
  "readDouble big b = readFuint64 big b"

text \<open>
  A string is its bytes; \<open>value.size()\<close> is cut to the width of the prefix. The readers allocate the
  string before they read it; running out of memory there is not modelled.
\<close>

definition writeStringF16 :: "bool \<Rightarrow> bytearray \<Rightarrow> bytes \<Rightarrow> bytearray res" where
  "writeStringF16 big b value =
    bindE (writeFuint16 big b (of_nat (length value))) (\<lambda>b1. ba_write b1 value)"

definition writeStringF32 :: "bool \<Rightarrow> bytearray \<Rightarrow> bytes \<Rightarrow> bytearray res" where
  "writeStringF32 big b value =
    bindE (writeFuint32 big b (of_nat (length value))) (\<lambda>b1. ba_write b1 value)"

definition writeStringF64 :: "bool \<Rightarrow> bytearray \<Rightarrow> bytes \<Rightarrow> bytearray res" where
  "writeStringF64 big b value =
    bindE (writeFuint64 big b (of_nat (length value))) (\<lambda>b1. ba_write b1 value)"

definition writeStringVint :: "bytearray \<Rightarrow> bytes \<Rightarrow> bytearray res" where
  "writeStringVint b value =
    bindE (writeUint64 b (of_nat (length value))) (\<lambda>b1. ba_write b1 value)"

definition writeStringWithoutLength :: "bytearray \<Rightarrow> bytes \<Rightarrow> bytearray res" where
  "writeStringWithoutLength b value = ba_write b value"

definition readStringF16 :: "bool \<Rightarrow> bytearray \<Rightarrow> (bytes \<times> bytearray) res" where
  "readStringF16 big b = bindE (readFuint16 big b) (\<lambda>(len, b1). ba_read b1 (unat len))"

definition readStringF32 :: "bool \<Rightarrow> bytearray \<Rightarrow> (bytes \<times> bytearray) res" where
  "readStringF32 big b = bindE (readFuint32 big b) (\<lambda>(len, b1). ba_read b1 (unat len))"

definition readStringF64 :: "bool \<Rightarrow> bytearray \<Rightarrow> (bytes \<times> bytearray) res" where
  "readStringF64 big b = bindE (readFuint64 big b) (\<lambda>(len, b1). ba_read b1 (unat len))"

definition readStringVint :: "bytearray \<Rightarrow> (bytes \<times> bytearray) res" where
  "readStringVint b = bindE (readUint64 b) (\<lambda>(len, b1). ba_read b1 (unat len))"

section \<open>Building codecs from codecs\<close>

text \<open>A value sent through a coding of it is a codec, and so is a string behind its length.\<close>

context byte_codec
begin

lemma mapped_codec:
  assumes "\<And>v. g (f v) = v"
  shows "byte_codec invar data pos capacity mode put get seek (\<lambda>s v. wr s (f v))
    (\<lambda>s. bindE (rd s) (\<lambda>(x, s'). Inr (g x, s'))) (\<lambda>e v. wire e (f v)) (\<lambda>v. okv (f v))
    (\<lambda>v. solid (f v))"
proof (unfold_locales, goal_cases)
  case (1 s v)
  then show ?case by (rule wr_ok)
next
  case (2 v s rest)
  then show ?case using rd_ok [of "f v" s rest] assms by auto
qed

end

abbreviation ba_codec ::
  "(bytearray \<Rightarrow> 'v \<Rightarrow> bytearray res) \<Rightarrow> (bytearray \<Rightarrow> ('v \<times> bytearray) res) \<Rightarrow>
   (u8 \<Rightarrow> 'v \<Rightarrow> bytes) \<Rightarrow> ('v \<Rightarrow> bool) \<Rightarrow> ('v \<Rightarrow> bool) \<Rightarrow> bool"
where
  "ba_codec \<equiv>
    byte_codec ba_inv contents m_position m_capacity m_endian ba_write ba_read setPosition"

section \<open>Fixed-width codecs\<close>

text \<open>Swapping when the orders differ puts the bytes in the buffer's order, on every host.\<close>

lemma mem_of_swapped:
  assumes "whole_bytes v" "byte_order e" "byte_order h"
  shows "mem_of h (if e \<noteq> h then byteswap v else v) = mem_of e v"
  using assms by (auto simp: mem_of_def byte_order_def)

lemma of_mem_swapped:
  assumes "whole_bytes v" "byte_order e" "byte_order h"
  shows "(if e = h then of_mem h (mem_of e v) else byteswap (of_mem h (mem_of e v))) = v"
  using assms by (auto simp: mem_of_def of_mem_def byte_order_def byteswap_def whole_bytes_def)

lemma fixed_codec:
  assumes "\<And>v :: 'a::len word. whole_bytes v" "8 \<le> LENGTH('a)"
  shows "ba_codec (writeF big) (readF big) (mem_of :: u8 \<Rightarrow> 'a word \<Rightarrow> bytes) (\<lambda>_. True) (\<lambda>_. True)"
proof (unfold_locales, goal_cases)
  case (1 s v)
  then show ?case
    using ba.put_wrote [of s "mem_of (m_endian s) v"] ba.mode_ok [of s] assms(1)
    by (simp add: writeF_def mem_of_swapped)
next
  case (2 v s rest)
  have "mem_of (m_endian s) v \<noteq> []" using assms(2) length_mem_of [of "m_endian s" v]
    by (metis div_greater_zero_iff length_greater_0_conv zero_less_numeral)
  then obtain s' where s': "ba_read s (LENGTH('a) div 8) = Inr (mem_of (m_endian s) v, s')"
    "ba.ahead s' rest" "ba.moved s (LENGTH('a) div 8) s'"
    using ba.get_ahead [OF 2(2)] by auto
  moreover have "m_endian s' = m_endian s" "byte_order (m_endian s)"
    using s'(3) ba.mode_ok [of s'] by (auto simp: ba.moved_def)
  ultimately show ?case
    using of_mem_swapped [OF assms(1), of "m_endian s" "SYLAR_BYTE_ORDER big" v]
    by (simp add: readF_def Let_def split: if_splits)
qed

lemma byte_value_codec:
  "ba_codec (\<lambda>b v. ba_write b [v]) (\<lambda>b. bindE (ba_read b 1) (\<lambda>(bs, b'). Inr (hd bs, b')))
    (\<lambda>e v. [v]) (\<lambda>_. True) (\<lambda>_. True)"
proof (unfold_locales, goal_cases)
  case (1 s v)
  then show ?case by (simp add: ba.put_wrote)
next
  case (2 v s rest)
  then show ?case using ba.get_ahead [of s "[v]" rest] by auto
qed

interpretation f8: byte_codec ba_inv contents m_position m_capacity m_endian ba_write ba_read
  setPosition writeFuint8 readFuint8 "\<lambda>e v. [v]" "\<lambda>_. True" "\<lambda>_. True"
  using byte_value_codec by (simp add: writeFuint8_def [abs_def] readFuint8_def [abs_def])

interpretation fi8: byte_codec ba_inv contents m_position m_capacity m_endian ba_write ba_read
  setPosition writeFint8 readFint8 "\<lambda>e v. [v]" "\<lambda>_. True" "\<lambda>_. True"
  using byte_value_codec by (simp add: writeFint8_def [abs_def] readFint8_def [abs_def])

interpretation f16: byte_codec ba_inv contents m_position m_capacity m_endian ba_write ba_read
  setPosition "writeFuint16 big" "readFuint16 big" mem_of "\<lambda>_. True" "\<lambda>_. True" for big
  unfolding writeFuint16_def readFuint16_def by (rule fixed_codec) simp_all

interpretation fi16: byte_codec ba_inv contents m_position m_capacity m_endian ba_write ba_read
  setPosition "writeFint16 big" "readFint16 big" mem_of "\<lambda>_. True" "\<lambda>_. True" for big
  unfolding writeFint16_def readFint16_def by (rule fixed_codec) simp_all

interpretation f32: byte_codec ba_inv contents m_position m_capacity m_endian ba_write ba_read
  setPosition "writeFuint32 big" "readFuint32 big" mem_of "\<lambda>_. True" "\<lambda>_. True" for big
  unfolding writeFuint32_def readFuint32_def by (rule fixed_codec) simp_all

interpretation fi32: byte_codec ba_inv contents m_position m_capacity m_endian ba_write ba_read
  setPosition "writeFint32 big" "readFint32 big" mem_of "\<lambda>_. True" "\<lambda>_. True" for big
  unfolding writeFint32_def readFint32_def by (rule fixed_codec) simp_all

interpretation f64: byte_codec ba_inv contents m_position m_capacity m_endian ba_write ba_read
  setPosition "writeFuint64 big" "readFuint64 big" mem_of "\<lambda>_. True" "\<lambda>_. True" for big
  unfolding writeFuint64_def readFuint64_def by (rule fixed_codec) simp_all

interpretation fi64: byte_codec ba_inv contents m_position m_capacity m_endian ba_write ba_read
  setPosition "writeFint64 big" "readFint64 big" mem_of "\<lambda>_. True" "\<lambda>_. True" for big
  unfolding writeFint64_def readFint64_def by (rule fixed_codec) simp_all

section \<open>Variable-length codecs\<close>

lemma bit7_u8: "(x :: u8) < 0x80 \<longleftrightarrow> \<not> bit x 7"
proof -
  have "unat x < 2 ^ LENGTH(8)" by (rule unsigned_less)
  then have lt: "unat x < 256" by simp
  have "bit x 7 \<longleftrightarrow> bit (unat x) 7" by (simp add: bit_unsigned_iff)
  also have "\<dots> \<longleftrightarrow> odd (unat x div 128)" by (simp add: bit_iff_odd)
  also have "\<dots> \<longleftrightarrow> \<not> unat x < 128"
  proof (cases "unat x < 128")
    case False
    then have "unat x div 128 = 1" using lt by (intro div_nat_eqI) simp_all
    then show ?thesis using False by simp
  qed simp
  finally show ?thesis by (simp add: word_less_nat_alt)
qed

lemma unat_0x80: "8 \<le> LENGTH('a) \<Longrightarrow> unat (0x80 :: 'a::len word) = 128"
  using power_increasing [of 8 "LENGTH('a)" "2 :: nat"] by (simp add: take_bit_nat_eq_self)

lemma varint_loop_ok:
  assumes "unat v < 2 ^ (7 * k)" "0 < k" "8 \<le> LENGTH('a)"
  shows "\<exists>bs. varint_loop k (v :: 'a::len word) = Inr bs"
  using assms
proof (induction k arbitrary: v)
  case 0
  then show ?case by simp
next
  case (Suc k)
  show ?case
  proof (cases "v \<ge> 0x80")
    case True
    then have "128 \<le> unat v" using Suc.prems(3) by (simp only: word_le_nat_alt unat_0x80)
    then have "0 < k" using Suc.prems(1) by (cases k) auto
    moreover have "unat (drop_bit 7 v) < 2 ^ (7 * k)"
      using Suc.prems(1) less_mult_imp_div_less [of "unat v" "2 ^ (7 * k)" 128]
      by (simp add: unat_drop_bit_eq drop_bit_nat_def power_add mult.commute)
    ultimately show ?thesis using Suc by auto
  qed simp
qed


text \<open>The low seven bits and the rest put a word together again, also through a byte.\<close>

lemma low_seven_bits:
  "push_bit i (v AND 0x7F) OR push_bit (i + 7) (drop_bit 7 v) = push_bit i (v :: 'a::len word)"
proof -
  have "v AND 0x7F = take_bit 7 v" using take_bit_eq_mask [of 7 v] by (simp add: mask_eq_exp_minus_1)
  then have "push_bit i (v AND 0x7F) OR push_bit (i + 7) (drop_bit 7 v) =
      push_bit i (take_bit 7 v OR push_bit 7 (drop_bit 7 v))"
    by (simp add: push_bit_push_bit add.commute)
  also have "take_bit 7 v OR push_bit 7 (drop_bit 7 v) = v"
  proof (rule bit_word_eqI)
    fix n assume "n < LENGTH('a)"
    then show "bit (take_bit 7 v OR push_bit 7 (drop_bit 7 v)) n \<longleftrightarrow> bit v n"
      by (cases "n < 7") (simp_all add: bit_or_iff bit_take_bit_iff bit_push_bit_iff bit_drop_bit_eq)
  qed
  finally show ?thesis .
qed

lemma bit_0x80: "bit (0x80 :: int) n \<longleftrightarrow> n = 7"
proof -
  have "(0x80 :: int) = push_bit 7 1" by (simp add: push_bit_eq_mult)
  then show ?thesis by (simp only: bit_push_bit_iff) (auto simp: bit_1_iff)
qed

lemma more_byte:
  fixes v :: "'a::len word"
  assumes "8 \<le> LENGTH('a)"
  defines "x \<equiv> ucast ((v AND 0x7F) OR 0x80) :: u8"
  shows "\<not> x < 0x80" and "ucast (x AND 0x7f) = v AND 0x7F"
proof -
  show "\<not> x < 0x80"
    using assms(1) by (simp add: bit7_u8 x_def bit_ucast_iff bit_or_iff bit_0x80)
  have m: "v AND 0x7F = take_bit 7 v" "x AND 0x7F = take_bit 7 x"
    using take_bit_eq_mask [of 7 v] take_bit_eq_mask [of 7 x] by (simp_all add: mask_eq_exp_minus_1)
  show "ucast (x AND 0x7f) = v AND 0x7F"
    unfolding m using assms(1)
    by (intro bit_word_eqI)
      (auto simp: x_def m(1) bit_ucast_iff bit_take_bit_iff bit_or_iff bit_0x80 dest: bit_imp_le_length)
qed

lemma last_byte:
  fixes v :: "'a::len word"
  assumes "8 \<le> LENGTH('a)" "\<not> v \<ge> 0x80"
  shows "(ucast v :: u8) < 0x80" and "ucast (ucast v :: u8) = v"
proof -
  have v: "unat v < 128" using assms by (simp only: not_le word_less_nat_alt unat_0x80)
  then have u: "unat (ucast v :: u8) = unat v" by (simp add: unsigned_ucast_eq take_bit_nat_eq_self)
  then show "(ucast v :: u8) < 0x80" using v by (simp add: word_less_nat_alt)
  have "unat (ucast (ucast v :: u8) :: 'a word) = unat v"
    unfolding unsigned_ucast_eq [of "ucast v :: u8"] u
    by (rule take_bit_nat_eq_self) (rule unsigned_less)
  then show "ucast (ucast v :: u8) = v" by (simp add: word_unat_eq_iff)
qed

lemma read_varint_ok:
  assumes "8 \<le> LENGTH('a)" "varint_loop k (v :: 'a::len word) = Inr bs" "ba.ahead s (bs @ rest)"
    "i + 7 * k < width + 7"
  shows "\<exists>s'. read_varint width i s r = Inr (r OR push_bit i v, s') \<and> ba.ahead s' rest \<and>
    ba.moved s (length bs) s'"
  using assms(2-)
proof (induction k arbitrary: v bs s i r)
  case 0
  then show ?case by simp
next
  case (Suc k)
  show ?case
  proof (cases "v \<ge> 0x80")
    case True
    then obtain tmp where tmp: "varint_loop k (drop_bit 7 v) = Inr tmp"
      "bs = ucast ((v AND 0x7F) OR 0x80) # tmp"
      using Suc.prems(1) by auto
    let ?x = "ucast ((v AND 0x7F) OR 0x80) :: u8"
    obtain s1 where s1: "readFuint8 s = Inr (?x, s1)" "ba.ahead s1 (tmp @ rest)" "ba.moved s 1 s1"
      using f8.rd_ok [where v = ?x and s = s and rest = "tmp @ rest"] Suc.prems(2) tmp(2) by auto
    obtain s2 where s2: "read_varint width (i + 7) s1 (r OR push_bit i (v AND 0x7F)) =
        Inr ((r OR push_bit i (v AND 0x7F)) OR push_bit (i + 7) (drop_bit 7 v), s2)"
      "ba.ahead s2 rest" "ba.moved s1 (length tmp) s2"
      using Suc.IH [OF tmp(1) s1(2), of "i + 7"] Suc.prems(3) by auto
    have "read_varint width i s r = Inr (r OR push_bit i v, s2)"
      using s1(1) s2(1) more_byte [OF assms(1), of v] Suc.prems(3) low_seven_bits [of i v]
      by (subst read_varint.simps) (simp add: or.assoc)
    moreover have "ba.moved s (length bs) s2"
      using ba.moved_trans [OF s1(3) s2(3)] tmp(2) by simp
    ultimately show ?thesis using s2(2) by auto
  next
    case False
    then have bs: "bs = [ucast v]" using Suc.prems(1) by simp
    then obtain s1 where "readFuint8 s = Inr (ucast v, s1)" "ba.ahead s1 rest" "ba.moved s 1 s1"
      using f8.rd_ok [where v = "ucast v" and s = s and rest = rest] Suc.prems(2) by auto
    then show ?thesis
      using bs last_byte [OF assms(1) False] Suc.prems(3) by (subst read_varint.simps) simp
  qed
qed

text \<open>The bytes of a value, once the loop is known not to overrun its array.\<close>

definition varint_bytes :: "nat \<Rightarrow> 'a::len word \<Rightarrow> bytes" where
  "varint_bytes k v = (case varint_loop k v of Inl _ \<Rightarrow> [] | Inr bs \<Rightarrow> bs)"

lemma varint_bytes_loop:
  assumes "LENGTH('a) \<le> 7 * k" "8 \<le> LENGTH('a)"
  shows "varint_loop k (v :: 'a::len word) = Inr (varint_bytes k v)"
proof -
  have "unat v < 2 ^ LENGTH('a)" by (rule unsigned_less)
  also have "\<dots> \<le> (2 :: nat) ^ (7 * k)" using assms(1) by (intro power_increasing) simp_all
  finally show ?thesis
    using varint_loop_ok [of v k] assms by (auto simp: varint_bytes_def)
qed

lemma varint_codec:
  assumes "LENGTH('a) \<le> 7 * k" "8 \<le> LENGTH('a)" "7 * k < LENGTH('a) + 7"
  shows "ba_codec (\<lambda>b v. bindE (varint_loop k v) (ba_write b))
    (\<lambda>b. read_varint (LENGTH('a)) 0 b 0) (\<lambda>e (v :: 'a::len word). varint_bytes k v)
    (\<lambda>_. True) (\<lambda>_. True)"
proof (unfold_locales, goal_cases)
  case (1 s v)
  then show ?case by (simp add: varint_bytes_loop [OF assms(1,2)] ba.put_wrote)
next
  case (2 v s rest)
  then show ?case
    using read_varint_ok [OF assms(2) varint_bytes_loop [OF assms(1,2)], of s v rest 0 "LENGTH('a)" 0]
      assms(3) by auto
qed

interpretation v32: byte_codec ba_inv contents m_position m_capacity m_endian ba_write ba_read
  setPosition writeUint32 readUint32 "\<lambda>e. varint_bytes 5" "\<lambda>_. True" "\<lambda>_. True"
  using varint_codec [where 'a = 32 and k = 5]
  by (simp add: writeUint32_def [abs_def] readUint32_def [abs_def])

interpretation v64: byte_codec ba_inv contents m_position m_capacity m_endian ba_write ba_read
  setPosition writeUint64 readUint64 "\<lambda>e. varint_bytes 10" "\<lambda>_. True" "\<lambda>_. True"
  using varint_codec [where 'a = 64 and k = 10]
  by (simp add: writeUint64_def [abs_def] readUint64_def [abs_def])

text \<open>Each byte carries seven bits and the encoding is as short as that allows.\<close>

lemma varint_loop_length:
  assumes "8 \<le> LENGTH('a)" "varint_loop k (v :: 'a::len word) = Inr bs"
  shows "0 < length bs \<and> length bs \<le> k \<and> unat v < 2 ^ (7 * length bs) \<and>
    (1 < length bs \<longrightarrow> 2 ^ (7 * (length bs - 1)) \<le> unat v)"
  using assms(2)
proof (induction k arbitrary: v bs)
  case 0
  then show ?case by simp
next
  case (Suc k)
  show ?case
  proof (cases "v \<ge> 0x80")
    case True
    then obtain tmp where tmp: "varint_loop k (drop_bit 7 v) = Inr tmp" "length bs = Suc (length tmp)"
      using Suc.prems by auto
    have v: "128 \<le> unat v" using True assms(1) by (simp only: word_le_nat_alt unat_0x80)
    have dv: "unat (drop_bit 7 v) = unat v div 128" by (simp add: unat_drop_bit_eq drop_bit_nat_def)
    note ih = Suc.IH [OF tmp(1), unfolded dv]
    have "unat v < 2 ^ (7 * length bs)"
      using ih tmp(2) by (simp add: power_add div_less_iff_less_mult mult.commute)
    moreover have "2 ^ (7 * (length bs - 1)) \<le> unat v"
    proof (cases "1 < length tmp")
      case True
      then have "7 * length tmp = 7 * (length tmp - 1) + 7" by simp
      then have "2 ^ (7 * length tmp) = 2 ^ (7 * (length tmp - 1)) * (128 :: nat)"
        by (simp only: power_add) simp
      also have "\<dots> \<le> unat v div 128 * 128" using ih True by (intro mult_le_mono1) simp
      also have "\<dots> \<le> unat v" by simp
      finally show ?thesis using tmp(2) by simp
    next
      case False
      then have "length tmp = 1" using ih by (cases tmp) auto
      then show ?thesis using v tmp(2) by simp
    qed
    ultimately show ?thesis using ih tmp(2) by simp
  next
    case False
    moreover have "unat v < 128"
      using False assms(1) by (simp only: not_le word_less_nat_alt unat_0x80)
    ultimately show ?thesis using Suc.prems by auto
  qed
qed

section \<open>Zigzag\<close>

lemma zigzag_enc:
  fixes v :: "'a::len word"
  shows "uint (if v <s 0 then (- v) * 2 - 1 else v * 2) =
    (if sint v < 0 then - 2 * sint v - 1 else 2 * sint v)"
proof -
  define n where "n = LENGTH('a)"
  have n: "0 < n" by (simp add: n_def)
  have two: "(2 :: int) ^ n = 2 * 2 ^ (n - 1)" using n by (cases n) simp_all
  have lo: "- (2 ^ (n - 1)) \<le> sint v" and hi: "sint v < 2 ^ (n - 1)"
    using sint_greater_eq [of v] sint_less [of v] by (simp_all add: n_def)
  have cong: "uint (of_int x :: 'a word) = x" if "0 \<le> x" "x < 2 ^ n" for x
    using that by (simp add: n_def take_bit_int_eq_self uint_word_of_int_eq)
  show ?thesis
  proof (cases "sint v < 0")
    case True
    have "(- v) * 2 - 1 = (of_int (- 2 * sint v - 1) :: 'a word)" by simp
    moreover have "0 \<le> - 2 * sint v - 1" "- 2 * sint v - 1 < 2 ^ n" using True lo two by auto
    ultimately show ?thesis using True cong [of "- 2 * sint v - 1"] by (simp add: word_sless_alt mult.commute)
  next
    case False
    have "v * 2 = (of_int (2 * sint v) :: 'a word)" by simp
    moreover have "0 \<le> 2 * sint v" "2 * sint v < 2 ^ n" using False hi two by auto
    ultimately show ?thesis using False cong [of "2 * sint v"] by (simp add: word_sless_alt mult.commute)
  qed
qed

lemma zigzag_dec:
  fixes v :: "'a::len word"
  defines "z \<equiv> (if v <s 0 then (- v) * 2 - 1 else v * 2)"
  shows "drop_bit 1 z XOR - (z AND 1) = v"
proof -
  have top: "bit v (LENGTH('a) - Suc 0) \<longleftrightarrow> v <s 0" by (simp add: bit_last_iff word_sless_alt)
  show ?thesis
  proof (cases "v <s 0")
    case True
    define p where "p = push_bit 1 (NOT v)"
    have bp: "bit p i \<longleftrightarrow> 1 \<le> i \<and> i < LENGTH('a) \<and> bit (NOT v) (i - 1)" for i
      unfolding p_def bit_push_bit_iff by auto
    have "(- v) * 2 - 1 = p + 1" by (simp add: p_def push_bit_eq_mult not_eq_complement)
    also have "\<dots> = p OR 1"
      by (rule disjunctive_add) (auto simp: bp bit_1_iff)
    finally have z: "z = p OR 1" using True by (simp add: z_def)
    have "z AND 1 = 1"
      by (rule bit_word_eqI) (auto simp: z bit_and_iff bit_or_iff bit_1_iff)
    moreover have "drop_bit 1 z = NOT v"
    proof (rule bit_word_eqI)
      fix i assume i: "i < LENGTH('a)"
      show "bit (drop_bit 1 z) i \<longleftrightarrow> bit (NOT v) i"
      proof (cases "i = LENGTH('a) - Suc 0")
        case True
        then show ?thesis
          using \<open>v <s 0\<close> top by (auto simp: bit_not_iff bit_drop_bit_eq dest: bit_imp_le_length)
      next
        case False
        then have "Suc i < LENGTH('a)" using i by linarith
        then show ?thesis by (simp add: z bit_drop_bit_eq bit_or_iff bp bit_1_iff)
      qed
    qed
    ultimately show ?thesis by simp
  next
    case False
    have "z = push_bit 1 v" using False by (simp add: z_def push_bit_eq_mult)
    then have z: "bit z i \<longleftrightarrow> 1 \<le> i \<and> i < LENGTH('a) \<and> bit v (i - 1)" for i
      by (simp only: bit_push_bit_iff) auto
    have "z AND 1 = 0"
      by (rule bit_word_eqI) (auto simp: z bit_and_iff bit_1_iff)
    moreover have "drop_bit 1 z = v"
    proof (rule bit_word_eqI)
      fix i assume i: "i < LENGTH('a)"
      show "bit (drop_bit 1 z) i \<longleftrightarrow> bit v i"
        using False top i
        by (cases "i = LENGTH('a) - Suc 0")
          (auto simp: z bit_drop_bit_eq dest: bit_imp_le_length)
    qed
    ultimately show ?thesis by simp
  qed
qed

lemma DecodeZigzag_Encode [simp]:
  "DecodeZigzag32 (EncodeZigzag32 v) = v" "DecodeZigzag64 (EncodeZigzag64 w) = w"
  by (simp_all only: DecodeZigzag32_def EncodeZigzag32_def DecodeZigzag64_def EncodeZigzag64_def
      zigzag_dec)

interpretation z32: byte_codec ba_inv contents m_position m_capacity m_endian ba_write ba_read
  setPosition writeInt32 readInt32 "\<lambda>e v. varint_bytes 5 (EncodeZigzag32 v)" "\<lambda>_. True" "\<lambda>_. True"
  using v32.mapped_codec [of DecodeZigzag32 EncodeZigzag32]
  by (simp add: writeInt32_def [abs_def] readInt32_def [abs_def])

interpretation z64: byte_codec ba_inv contents m_position m_capacity m_endian ba_write ba_read
  setPosition writeInt64 readInt64 "\<lambda>e v. varint_bytes 10 (EncodeZigzag64 v)" "\<lambda>_. True" "\<lambda>_. True"
  using v64.mapped_codec [of DecodeZigzag64 EncodeZigzag64]
  by (simp add: writeInt64_def [abs_def] readInt64_def [abs_def])

section \<open>Strings\<close>

lemma string_codec:
  fixes wire :: "u8 \<Rightarrow> 'a::len word \<Rightarrow> bytes"
  assumes "ba_codec wr rd wire (\<lambda>_. True) (\<lambda>_. True)"
  shows "ba_codec (\<lambda>b v. bindE (wr b (of_nat (length v))) (\<lambda>b1. ba_write b1 v))
    (\<lambda>b. bindE (rd b) (\<lambda>(len, b1). ba_read b1 (unat len)))
    (\<lambda>e v. wire e (of_nat (length v)) @ v) (\<lambda>v. length v < 2 ^ LENGTH('a)) (\<lambda>v. v \<noteq> [])"
proof (unfold_locales, goal_cases)
  case (1 s v)
  obtain s1 where s1: "wr s (of_nat (length v)) = Inr s1"
    "ba.wrote s (wire (m_endian s) (of_nat (length v))) s1"
    using byte_codec.wr_ok [OF assms 1(1)] by blast
  moreover obtain s2 where "ba_write s1 v = Inr s2" "ba.wrote s1 v s2"
    using ba.put_wrote [of s1 v] s1(2) by (auto simp: ba.wrote_def)
  ultimately show ?case using ba.wrote_append by auto
next
  case (2 v s rest)
  let ?n = "of_nat (length v) :: 'a word"
  have n: "unat ?n = length v" using 2(1) by (simp add: unat_of_nat take_bit_nat_eq_self)
  obtain s1 where s1: "rd s = Inr (?n, s1)" "ba.ahead s1 (v @ rest)"
    "ba.moved s (length (wire (m_endian s) ?n)) s1"
    using byte_codec.rd_ok [OF assms, where v = ?n and s = s and rest = "v @ rest"] 2(2) by auto
  have "v \<noteq> [] \<or> m_position s1 < m_capacity s1"
    using 2(3) s1(3) by (auto simp: ba.moved_def)
  then obtain s2 where "ba_read s1 (length v) = Inr (v, s2)" "ba.ahead s2 rest"
    "ba.moved s1 (length v) s2"
    using ba.get_ahead [OF s1(2)] by blast
  then show ?case using s1 n ba.moved_trans by auto
qed

interpretation str16: byte_codec ba_inv contents m_position m_capacity m_endian ba_write ba_read
  setPosition "writeStringF16 big" "readStringF16 big"
  "\<lambda>e v. mem_of e (of_nat (length v) :: u16) @ v" "\<lambda>v. length v < 2 ^ 16" "\<lambda>v. v \<noteq> []" for big
  using string_codec [OF fixed_codec [where 'a = 16], of big]
  by (simp add: writeStringF16_def [abs_def] readStringF16_def [abs_def] writeFuint16_def
      readFuint16_def)

interpretation str32: byte_codec ba_inv contents m_position m_capacity m_endian ba_write ba_read
  setPosition "writeStringF32 big" "readStringF32 big"
  "\<lambda>e v. mem_of e (of_nat (length v) :: u32) @ v" "\<lambda>v. length v < 2 ^ 32" "\<lambda>v. v \<noteq> []" for big
  using string_codec [OF fixed_codec [where 'a = 32], of big]
  by (simp add: writeStringF32_def [abs_def] readStringF32_def [abs_def] writeFuint32_def
      readFuint32_def)

interpretation str64: byte_codec ba_inv contents m_position m_capacity m_endian ba_write ba_read
  setPosition "writeStringF64 big" "readStringF64 big"
  "\<lambda>e v. mem_of e (of_nat (length v) :: u64) @ v" "\<lambda>v. length v < 2 ^ 64" "\<lambda>v. v \<noteq> []" for big
  using string_codec [OF fixed_codec [where 'a = 64], of big]
  by (simp add: writeStringF64_def [abs_def] readStringF64_def [abs_def] writeFuint64_def
      readFuint64_def)

interpretation strv: byte_codec ba_inv contents m_position m_capacity m_endian ba_write ba_read
  setPosition writeStringVint readStringVint
  "\<lambda>e v. varint_bytes 10 (of_nat (length v) :: u64) @ v" "\<lambda>v. length v < 2 ^ 64" "\<lambda>v. v \<noteq> []"
  using string_codec [OF varint_codec [where 'a = 64 and k = 10]]
  by (simp add: writeStringVint_def [abs_def] readStringVint_def [abs_def]
      writeUint64_def [abs_def] readUint64_def [abs_def])

section \<open>Messages of typed values\<close>

text \<open>A client's message: a sequence of typed values, and the types alone, by which it is read.\<close>

datatype field =
    Int8 "8 word" | Uint8 u8 | Int16 "16 word" | Uint16 u16 | Int32 "32 word" | Uint32 u32
  | Int64 "64 word" | Uint64 u64 | Vint32 "32 word" | Vuint32 u32 | Vint64 "64 word" | Vuint64 u64
  | Float32 u32 | Float64 u64 | StrF16 bytes | StrF32 bytes | StrF64 bytes | StrVint bytes

datatype ftype =
    TInt8 | TUint8 | TInt16 | TUint16 | TInt32 | TUint32 | TInt64 | TUint64
  | TVint32 | TVuint32 | TVint64 | TVuint64 | TFloat32 | TFloat64
  | TStrF16 | TStrF32 | TStrF64 | TStrVint

fun ftype_of :: "field \<Rightarrow> ftype" where
  "ftype_of (Int8 v) = TInt8" | "ftype_of (Uint8 v) = TUint8"
| "ftype_of (Int16 v) = TInt16" | "ftype_of (Uint16 v) = TUint16"
| "ftype_of (Int32 v) = TInt32" | "ftype_of (Uint32 v) = TUint32"
| "ftype_of (Int64 v) = TInt64" | "ftype_of (Uint64 v) = TUint64"
| "ftype_of (Vint32 v) = TVint32" | "ftype_of (Vuint32 v) = TVuint32"
| "ftype_of (Vint64 v) = TVint64" | "ftype_of (Vuint64 v) = TVuint64"
| "ftype_of (Float32 v) = TFloat32" | "ftype_of (Float64 v) = TFloat64"
| "ftype_of (StrF16 v) = TStrF16" | "ftype_of (StrF32 v) = TStrF32"
| "ftype_of (StrF64 v) = TStrF64" | "ftype_of (StrVint v) = TStrVint"

fun write_field :: "bool \<Rightarrow> bytearray \<Rightarrow> field \<Rightarrow> bytearray res" where
  "write_field big b (Int8 v) = writeFint8 b v" | "write_field big b (Uint8 v) = writeFuint8 b v"
| "write_field big b (Int16 v) = writeFint16 big b v"
| "write_field big b (Uint16 v) = writeFuint16 big b v"
| "write_field big b (Int32 v) = writeFint32 big b v"
| "write_field big b (Uint32 v) = writeFuint32 big b v"
| "write_field big b (Int64 v) = writeFint64 big b v"
| "write_field big b (Uint64 v) = writeFuint64 big b v"
| "write_field big b (Vint32 v) = writeInt32 b v" | "write_field big b (Vuint32 v) = writeUint32 b v"
| "write_field big b (Vint64 v) = writeInt64 b v" | "write_field big b (Vuint64 v) = writeUint64 b v"
| "write_field big b (Float32 v) = writeFloat big b v"
| "write_field big b (Float64 v) = writeDouble big b v"
| "write_field big b (StrF16 v) = writeStringF16 big b v"
| "write_field big b (StrF32 v) = writeStringF32 big b v"
| "write_field big b (StrF64 v) = writeStringF64 big b v"
| "write_field big b (StrVint v) = writeStringVint b v"

definition tagged :: "('a \<Rightarrow> field) \<Rightarrow> ('a \<times> bytearray) res \<Rightarrow> (field \<times> bytearray) res" where
  "tagged c r = bindE r (\<lambda>(v, b). Inr (c v, b))"

fun read_field :: "bool \<Rightarrow> bytearray \<Rightarrow> ftype \<Rightarrow> (field \<times> bytearray) res" where
  "read_field big b TInt8 = tagged Int8 (readFint8 b)"
| "read_field big b TUint8 = tagged Uint8 (readFuint8 b)"
| "read_field big b TInt16 = tagged Int16 (readFint16 big b)"
| "read_field big b TUint16 = tagged Uint16 (readFuint16 big b)"
| "read_field big b TInt32 = tagged Int32 (readFint32 big b)"
| "read_field big b TUint32 = tagged Uint32 (readFuint32 big b)"
| "read_field big b TInt64 = tagged Int64 (readFint64 big b)"
| "read_field big b TUint64 = tagged Uint64 (readFuint64 big b)"
| "read_field big b TVint32 = tagged Vint32 (readInt32 b)"
| "read_field big b TVuint32 = tagged Vuint32 (readUint32 b)"
| "read_field big b TVint64 = tagged Vint64 (readInt64 b)"
| "read_field big b TVuint64 = tagged Vuint64 (readUint64 b)"
| "read_field big b TFloat32 = tagged Float32 (readFloat big b)"
| "read_field big b TFloat64 = tagged Float64 (readDouble big b)"
| "read_field big b TStrF16 = tagged StrF16 (readStringF16 big b)"
| "read_field big b TStrF32 = tagged StrF32 (readStringF32 big b)"
| "read_field big b TStrF64 = tagged StrF64 (readStringF64 big b)"
| "read_field big b TStrVint = tagged StrVint (readStringVint b)"

fun field_wire :: "u8 \<Rightarrow> field \<Rightarrow> bytes" where
  "field_wire e (Int8 v) = [v]" | "field_wire e (Uint8 v) = [v]"
| "field_wire e (Int16 v) = mem_of e v" | "field_wire e (Uint16 v) = mem_of e v"
| "field_wire e (Int32 v) = mem_of e v" | "field_wire e (Uint32 v) = mem_of e v"
| "field_wire e (Int64 v) = mem_of e v" | "field_wire e (Uint64 v) = mem_of e v"
| "field_wire e (Vint32 v) = varint_bytes 5 (EncodeZigzag32 v)"
| "field_wire e (Vuint32 v) = varint_bytes 5 v"
| "field_wire e (Vint64 v) = varint_bytes 10 (EncodeZigzag64 v)"
| "field_wire e (Vuint64 v) = varint_bytes 10 v"
| "field_wire e (Float32 v) = mem_of e v" | "field_wire e (Float64 v) = mem_of e v"
| "field_wire e (StrF16 v) = mem_of e (of_nat (length v) :: u16) @ v"
| "field_wire e (StrF32 v) = mem_of e (of_nat (length v) :: u32) @ v"
| "field_wire e (StrF64 v) = mem_of e (of_nat (length v) :: u64) @ v"
| "field_wire e (StrVint v) = varint_bytes 10 (of_nat (length v) :: u64) @ v"

fun field_ok :: "field \<Rightarrow> bool" where
  "field_ok (StrF16 v) = (length v < 2 ^ 16)" | "field_ok (StrF32 v) = (length v < 2 ^ 32)"
| "field_ok (StrF64 v) = (length v < 2 ^ 64)" | "field_ok (StrVint v) = (length v < 2 ^ 64)"
| "field_ok _ = True"

fun field_solid :: "field \<Rightarrow> bool" where
  "field_solid (StrF16 v) = (v \<noteq> [])" | "field_solid (StrF32 v) = (v \<noteq> [])"
| "field_solid (StrF64 v) = (v \<noteq> [])" | "field_solid (StrVint v) = (v \<noteq> [])"
| "field_solid _ = True"

lemmas codec_wr_ok = f8.wr_ok fi8.wr_ok f16.wr_ok fi16.wr_ok f32.wr_ok fi32.wr_ok f64.wr_ok fi64.wr_ok
  v32.wr_ok v64.wr_ok z32.wr_ok z64.wr_ok str16.wr_ok str32.wr_ok str64.wr_ok strv.wr_ok

lemmas codec_rd_fixed = f8.rd_ok fi8.rd_ok f16.rd_ok fi16.rd_ok f32.rd_ok fi32.rd_ok f64.rd_ok
  fi64.rd_ok

lemmas codec_rd_ok = v32.rd_ok v64.rd_ok z32.rd_ok z64.rd_ok str16.rd_ok str32.rd_ok str64.rd_ok strv.rd_ok

lemma write_field_ok:
  "ba_inv b \<Longrightarrow> field_ok v \<Longrightarrow>
   \<exists>b1. write_field big b v = Inr b1 \<and> ba.wrote b (field_wire (m_endian b) v) b1"
  by (cases v) (simp_all add: codec_wr_ok writeFloat_def writeDouble_def)

lemma tagged_eq_Inr [simp]: "tagged c r = Inr (x, b) \<longleftrightarrow> (\<exists>v. r = Inr (v, b) \<and> x = c v)"
  by (auto simp: tagged_def)

lemma read_field_ok:
  "field_ok v \<Longrightarrow> ba.ahead b (field_wire (m_endian b) v @ rest) \<Longrightarrow>
   field_solid v \<or> m_position b + length (field_wire (m_endian b) v) < m_capacity b \<Longrightarrow>
   \<exists>b'. read_field big b (ftype_of v) = Inr (v, b') \<and> ba.ahead b' rest \<and>
        ba.moved b (length (field_wire (m_endian b) v)) b'"
  by (cases v)
    (simp_all del: length_append add: readFloat_def readDouble_def codec_rd_ok
      codec_rd_fixed [simplified])

primrec write_message :: "bool \<Rightarrow> bytearray \<Rightarrow> field list \<Rightarrow> bytearray res" where
  "write_message big b [] = Inr b"
| "write_message big b (v # vs) = bindE (write_field big b v) (\<lambda>b1. write_message big b1 vs)"

primrec read_message :: "bool \<Rightarrow> bytearray \<Rightarrow> ftype list \<Rightarrow> (field list \<times> bytearray) res" where
  "read_message big b [] = Inr ([], b)"
| "read_message big b (t # ts) =
     bindE (read_field big b t) (\<lambda>(v, b1).
       bindE (read_message big b1 ts) (\<lambda>(vs, b2). Inr (v # vs, b2)))"

definition message_wire :: "u8 \<Rightarrow> field list \<Rightarrow> bytes" where
  "message_wire e vs = concat (map (field_wire e) vs)"

lemma message_wire_simps [simp]:
  "message_wire e [] = []" "message_wire e (v # vs) = field_wire e v @ message_wire e vs"
  by (simp_all add: message_wire_def)

lemma write_message_ok:
  "ba_inv b \<Longrightarrow> \<forall>v \<in> set vs. field_ok v \<Longrightarrow>
   \<exists>b1. write_message big b vs = Inr b1 \<and> ba.wrote b (message_wire (m_endian b) vs) b1"
proof (induction vs arbitrary: b)
  case Nil
  then show ?case by (simp add: ba.wrote_Nil)
next
  case (Cons v vs)
  obtain b1 where b1: "write_field big b v = Inr b1" "ba.wrote b (field_wire (m_endian b) v) b1"
    using write_field_ok [of b v big] Cons.prems by auto
  moreover have "ba_inv b1" "m_endian b1 = m_endian b" using b1(2) by (auto simp: ba.wrote_def)
  ultimately show ?case using Cons.IH [of b1] Cons.prems(2) ba.wrote_append [OF b1(2)] by auto
qed

lemma read_message_ok:
  "\<forall>v \<in> set vs. field_ok v \<Longrightarrow> ba.ahead b (message_wire (m_endian b) vs) \<Longrightarrow>
   (\<forall>v \<in> set vs. field_solid v) \<or>
     m_position b + length (message_wire (m_endian b) vs) < m_capacity b \<Longrightarrow>
   \<exists>b'. read_message big b (map ftype_of vs) = Inr (vs, b') \<and>
        ba.moved b (length (message_wire (m_endian b) vs)) b'"
proof (induction vs arbitrary: b)
  case Nil
  then show ?case by (simp add: ba.moved_def ba.ahead_def)
next
  case (Cons v vs)
  let ?e = "m_endian b"
  obtain b1 where b1: "read_field big b (ftype_of v) = Inr (v, b1)"
    "ba.ahead b1 (message_wire ?e vs)" "ba.moved b (length (field_wire ?e v)) b1"
    using read_field_ok [of v b "message_wire ?e vs" big] Cons.prems by auto
  have e: "m_endian b1 = ?e" "m_position b1 = m_position b + length (field_wire ?e v)"
    "m_capacity b1 = m_capacity b"
    using b1(3) by (auto simp: ba.moved_def)
  obtain b2 where "read_message big b1 (map ftype_of vs) = Inr (vs, b2)"
    "ba.moved b1 (length (message_wire ?e vs)) b2"
    using Cons.IH [of b1] Cons.prems b1(2) by (auto simp: e add.assoc)
  then show ?case using b1 ba.moved_trans [OF b1(3)] by auto
qed

section \<open>Properties\<close>

text \<open>
  C2: Messages survive the buffer, across machines. Any sequence of typed values (fixed-width and
  variable-length integers, zigzag integers, floating-point bit patterns, length-prefixed strings
  whose length fits the prefix) can be written at any position of any valid buffer; after seeking
  back, a reader on a host of the same or the other byte order that asks for the same types gets
  exactly these values and ends where the writer ended. The one condition is that a message with
  an empty string must not end exactly at the buffer's capacity.
\<close>

theorem message_roundtrip:
  assumes "ba_inv b" "\<forall>v \<in> set vs. field_ok v"
  shows "\<exists>b1. write_message big1 b vs = Inr b1 \<and> ba_inv b1 \<and>
    ((\<forall>v \<in> set vs. field_solid v) \<or> m_position b1 < m_capacity b1 \<longrightarrow>
     (\<exists>b2 b3. setPosition b1 (m_position b) = Inr b2 \<and>
        read_message big2 b2 (map ftype_of vs) = Inr (vs, b3) \<and>
        m_position b3 = m_position b1 \<and> contents b3 = contents b1))"
proof -
  obtain b1 where b1: "write_message big1 b vs = Inr b1"
    "ba.wrote b (message_wire (m_endian b) vs) b1"
    using write_message_ok [OF assms] by blast
  obtain b2 where b2: "setPosition b1 (m_position b) = Inr b2"
    "ba.ahead b2 (message_wire (m_endian b) vs)" "m_position b2 = m_position b"
    "contents b2 = contents b1" "m_endian b2 = m_endian b" "m_capacity b2 = m_capacity b1"
    using ba.wrote_seek_ahead [OF b1(2)] by blast
  have "m_position b1 = m_position b + length (message_wire (m_endian b) vs)" "ba_inv b1"
    using b1(2) by (auto simp: ba.wrote_def)
  then show ?thesis
    using b1(1) b2 read_message_ok [OF assms(2), of b2 big2] by (auto simp: ba.moved_def)
qed

theorem message_roundtrip_witness:
  "\<exists>b1 b2 b3. write_message True (ByteArray (\<lambda>_ _. 0) 3) [Uint16 0x1234, Vint64 (- 5), StrVint [7]] =
      Inr b1 \<and> setPosition b1 0 = Inr b2 \<and>
    read_message False b2 [TUint16, TVint64, TStrVint] =
      Inr ([Uint16 0x1234, Vint64 (- 5), StrVint [7]], b3)"
  using message_roundtrip [OF ByteArray_inv, of 3 "[Uint16 0x1234, Vint64 (- 5), StrVint [7]]"
      True "\<lambda>_ _. 0" False]
  by (auto simp: ByteArray_def)

text \<open>
  C20: The wire format does not depend on the host: a message written on a big-endian and on a
  little-endian host leaves the same contents, namely the old contents overwritten from the
  position on with the concatenated encodings of the values, where a fixed-width value occupies
  its bytes in the buffer's own byte order.
\<close>

theorem message_wire_format:
  assumes "ba_inv b" "\<forall>v \<in> set vs. field_ok v"
  shows "\<exists>b1 b2. write_message True b vs = Inr b1 \<and> write_message False b vs = Inr b2 \<and>
    contents b1 = overwrite (contents b) (m_position b) (concat (map (field_wire (m_endian b)) vs)) \<and>
    contents b2 = contents b1 \<and> m_position b2 = m_position b1"
  using write_message_ok [OF assms, of True] write_message_ok [OF assms, of False]
  by (auto simp: ba.wrote_def message_wire_def)

theorem message_wire_format_witness:
  "\<exists>b1 b2. write_message True (ByteArray (\<lambda>_ _. 0) 2) [Uint32 0x01020304] = Inr b1 \<and>
    write_message False (ByteArray (\<lambda>_ _. 0) 2) [Uint32 0x01020304] = Inr b2 \<and>
    contents b1 = [1, 2, 3, 4] \<and> contents b2 = [1, 2, 3, 4]"
proof -
  have "mem_of SYLAR_BIG_ENDIAN (0x01020304 :: u32) = [1, 2, 3, 4]" by code_simp
  then show ?thesis
    using message_wire_format [OF ByteArray_inv, of 2 "[Uint32 0x01020304]" "\<lambda>_ _. 0"]
    by (auto simp: ByteArray_def contents_def overwrite_def)
qed

text \<open>
  Variable-length integers take as few bytes as seven bits per byte allow: \<open>writeUint32\<close> stores
  between 1 and 5 bytes and \<open>writeUint64\<close> between 1 and 10, never overrunning their arrays; the value
  fits the bits of the bytes stored, and would not fit one byte less.
\<close>

theorem varint_size:
  assumes "ba_inv b"
  shows "(\<exists>b1 k. writeUint32 b v = Inr b1 \<and> m_position b1 = m_position b + k \<and> 1 \<le> k \<and> k \<le> 5 \<and>
      unat v < 2 ^ (7 * k) \<and> (1 < k \<longrightarrow> 2 ^ (7 * (k - 1)) \<le> unat v)) \<and>
    (\<exists>b1 k. writeUint64 b w = Inr b1 \<and> m_position b1 = m_position b + k \<and> 1 \<le> k \<and> k \<le> 10 \<and>
      unat w < 2 ^ (7 * k) \<and> (1 < k \<longrightarrow> 2 ^ (7 * (k - 1)) \<le> unat w))"
proof -
  obtain b1 where "writeUint32 b v = Inr b1" "ba.wrote b (varint_bytes 5 v) b1"
    using v32.wr_ok [OF assms, of v] by auto
  moreover obtain b2 where "writeUint64 b w = Inr b2" "ba.wrote b (varint_bytes 10 w) b2"
    using v64.wr_ok [OF assms, of w] by auto
  moreover note varint_loop_length [OF _ varint_bytes_loop, of 5 v]
    varint_loop_length [OF _ varint_bytes_loop, of 10 w]
  ultimately show ?thesis
    unfolding ba.wrote_def by (auto simp: Suc_le_eq)
qed

theorem varint_size_witness:
  "\<exists>b1. writeUint32 (ByteArray (\<lambda>_ _. 0) 4) 300 = Inr b1 \<and> m_position b1 = 2"
proof -
  obtain b1 k where "writeUint32 (ByteArray (\<lambda>_ _. 0) 4) 300 = Inr b1" "m_position b1 = k"
    "k \<le> 5" "(300 :: nat) < 2 ^ (7 * k)" "1 \<le> k" "1 < k \<longrightarrow> 2 ^ (7 * (k - 1)) \<le> (300 :: nat)"
    using varint_size [OF ByteArray_inv, of 4 "\<lambda>_ _. 0" 300 0] by (auto simp: ByteArray_def)
  moreover from this have "k = 1 \<or> k = 2 \<or> k = 3 \<or> k = 4 \<or> k = 5" by presburger
  ultimately show ?thesis by auto
qed

text \<open>
  The zigzag encoding of a signed integer, 32 or 64 bits wide, is its absolute value doubled,
  less one for negative integers, without wrap-around in the result, and decoding inverts it.
\<close>

theorem zigzag_spec:
  "uint (EncodeZigzag32 v) = (if sint v < 0 then - 2 * sint v - 1 else 2 * sint v) \<and>
   uint (EncodeZigzag64 w) = (if sint w < 0 then - 2 * sint w - 1 else 2 * sint w) \<and>
   DecodeZigzag32 (EncodeZigzag32 v) = v \<and> DecodeZigzag64 (EncodeZigzag64 w) = w"
  unfolding EncodeZigzag32_def EncodeZigzag64_def zigzag_enc
  using DecodeZigzag_Encode [unfolded EncodeZigzag32_def EncodeZigzag64_def] by blast

text \<open>
  A string longer than its 16-bit length prefix can say is cut without an error: written with
  \<open>writeStringF16\<close> and read back, all that comes is the prefix of the string whose length is the
  string's length modulo 65536, and the rest of it is what the next read finds.
\<close>

theorem writeStringF16_truncates:
  assumes "ba_inv b" "2 ^ 16 \<le> length v"
  shows "\<exists>b1 b2 b3. writeStringF16 big b v = Inr b1 \<and> setPosition b1 (m_position b) = Inr b2 \<and>
    readStringF16 big b2 = Inr (take (length v mod 2 ^ 16) v, b3) \<and>
    m_position b3 < m_position b1 \<and> ba.ahead b3 (drop (length v mod 2 ^ 16) v)"
proof -
  let ?n = "of_nat (length v) :: u16" and ?m = "length v mod 2 ^ 16"
  have m: "unat ?n = ?m" "?m < length v" using assms(2) by (auto simp: unat_of_nat take_bit_eq_mod)
  obtain b0 where b0: "writeFuint16 big b ?n = Inr b0" "ba.wrote b (mem_of (m_endian b) ?n) b0"
    using f16.wr_ok [OF assms(1)] by blast
  then obtain b1 where b1: "ba_write b0 v = Inr b1" "ba.wrote b (mem_of (m_endian b) ?n @ v) b1"
    using ba.put_wrote [of b0 v] ba.wrote_append [OF b0(2)] by (auto simp: ba.wrote_def)
  obtain b2 where b2: "setPosition b1 (m_position b) = Inr b2" "m_position b2 = m_position b"
    "ba.ahead b2 (mem_of (m_endian b2) ?n @ take ?m v @ drop ?m v)"
    using ba.wrote_seek_ahead [OF b1(2)] by auto
  obtain c where c: "readFuint16 big b2 = Inr (?n, c)" "ba.ahead c (take ?m v @ drop ?m v)"
    "ba.moved b2 2 c"
    using f16.rd_ok [OF _ b2(3), of big] by auto
  have "m_position c < m_capacity c" using c(2) m(2) ba.data_le [of c] by (auto simp: ba.ahead_def)
  then obtain b3 where b3: "ba_read c (length (take ?m v)) = Inr (take ?m v, b3)"
    "ba.ahead b3 (drop ?m v)" "ba.moved c (length (take ?m v)) b3"
    using ba.get_ahead [OF c(2)] by blast
  then have "m_position b3 < m_position b1"
    using b1(2) b2(2) c(3) m(2) by (auto simp: ba.moved_def ba.wrote_def)
  then show ?thesis
    using b0(1) b1(1) b2(1) b3 c(1) m by (simp add: writeStringF16_def readStringF16_def min_def)
qed

theorem writeStringF16_truncates_witness:
  "\<exists>b1 b2 b3. writeStringF16 False (ByteArray (\<lambda>_ _. 0) 4) (replicate 65537 7) = Inr b1 \<and>
    setPosition b1 0 = Inr b2 \<and> readStringF16 False b2 = Inr ([7], b3)"
  using writeStringF16_truncates [OF ByteArray_inv, of 4 "replicate 65537 7" False "\<lambda>_ _. 0"]
  by (auto simp: ByteArray_def)

end
