(* ===== verification/Sylar_Fiber.thy ===== *)
theory Sylar_Fiber
  imports Sylar_Prelude
begin

text \<open>
  Fibers (\<^verbatim>\<open>sylar/fiber.cpp\<close>): the control block of a fiber, the thread-local pointers, and the
  operations that switch between fibers. Fibers live on a heap that maps addresses to control
  blocks. A context switch (\<^verbatim>\<open>swapcontext\<close>) is modelled by its target: the operations return the
  address of the fiber whose context runs next. Logging is left out.
\<close>

section \<open>State\<close>

text \<open>\<open>TERMINATED\<close> is the enumerator \<^verbatim>\<open>TERM\<close>, a reserved word here.\<close>

datatype Status = INIT | HOLD | EXEC | TERMINATED | READY | EXCEPT

text \<open>
  \<open>f_stack\<close> tells whether the fiber owns a stack; only the main fiber of a thread does not.
\<close>

record 'f fiber =
  f_id :: u64
  f_stacksize :: u32
  f_state :: Status
  f_stack :: bool
  f_cb :: "'f option"

type_synonym 'f fheap = "nat \<Rightarrow> 'f fiber option"

text \<open>The global counters, and the thread-local variables of the thread that runs.\<close>

record 'f fworld =
  fw_heap :: "'f fheap"
  s_fiber_id :: u64
  s_fiber_count :: u64
  t_fiber :: "nat option"
  t_threadFiber :: "nat option"
  t_sheduler_fiber :: "nat option"

section \<open>Construction and destruction\<close>

definition SetThis :: "'f fworld \<Rightarrow> nat option \<Rightarrow> 'f fworld" where
  "SetThis w f = w\<lparr>t_fiber := f\<rparr>"

definition GetFiberId :: "'f fworld \<Rightarrow> u64 res" where
  "GetFiberId w =
    (case t_fiber w of
       None \<Rightarrow> Inr 0
     | Some a \<Rightarrow> (case fw_heap w a of None \<Rightarrow> Inl Null_deref | Some f \<Rightarrow> Inr (f_id f)))"

text \<open>The private constructor: the main fiber of a thread, allocated at \<open>a\<close>.\<close>

definition Fiber_main :: "'f fworld \<Rightarrow> nat \<Rightarrow> 'f fworld" where
  "Fiber_main w a =
    w\<lparr>fw_heap := (fw_heap w)(a \<mapsto>
        \<lparr>f_id = 0, f_stacksize = 0, f_state = EXEC, f_stack = False, f_cb = None\<rparr>),
      t_fiber := Some a, s_fiber_count := s_fiber_count w + 1\<rparr>"

definition new_fiber :: "u64 \<Rightarrow> u32 \<Rightarrow> 'f option \<Rightarrow> 'f fiber" where
  "new_fiber i sz cb =
    \<lparr>f_id = i, f_stacksize = sz, f_state = INIT, f_stack = True, f_cb = cb\<rparr>"

text \<open>\<open>conf\<close> is the configured stack size, taken when \<open>stack_size\<close> is 0.\<close>

definition Fiber :: "'f fworld \<Rightarrow> nat \<Rightarrow> u32 \<Rightarrow> 'f option \<Rightarrow> u32 \<Rightarrow> 'f fworld" where
  "Fiber w a conf cb stack_size =
    (let i = s_fiber_id w + 1 in
     w\<lparr>s_fiber_id := i, s_fiber_count := s_fiber_count w + 1,
       fw_heap := (fw_heap w)(a \<mapsto> new_fiber i (if stack_size \<noteq> 0 then stack_size else conf) cb)\<rparr>)"

definition delete_fiber :: "'f fworld \<Rightarrow> nat \<Rightarrow> 'f fworld res" where
  "delete_fiber w a =
    (case fw_heap w a of
       None \<Rightarrow> Inl Null_deref
     | Some f \<Rightarrow>
         let w1 = w\<lparr>s_fiber_count := s_fiber_count w - 1, fw_heap := (fw_heap w)(a := None)\<rparr> in
         if f_stack f then
           (if f_state f = TERMINATED \<or> f_state f = EXCEPT \<or> f_state f = INIT then Inr w1
            else Inl (Assert_fail ''m_state == TERM || m_state == EXCEPT || m_state == INIT''))
         else if f_cb f \<noteq> None then Inl (Assert_fail ''!m_cb'')
         else if f_state f \<noteq> EXEC then Inl (Assert_fail ''m_state == EXEC'')
         else Inr (if t_fiber w = Some a then SetThis w1 None else w1))"

text \<open>\<open>reset(cb)\<close>: a finished or fresh fiber gets a new function; its stack is used again.\<close>

definition reset_fiber :: "'f fiber \<Rightarrow> 'f option \<Rightarrow> 'f fiber res" where
  "reset_fiber f cb =
    (if \<not> f_stack f then Inl (Assert_fail ''m_stack'')
     else if f_state f = TERMINATED \<or> f_state f = EXCEPT \<or> f_state f = INIT
     then Inr (f\<lparr>f_cb := cb, f_state := INIT\<rparr>)
     else Inl (Assert_fail ''m_state == TERM || m_state == EXCEPT || m_state == INIT''))"

section \<open>Switching\<close>

definition upd_fiber :: "'f fworld \<Rightarrow> nat \<Rightarrow> ('f fiber \<Rightarrow> 'f fiber res) \<Rightarrow> 'f fworld res" where
  "upd_fiber w a g =
    (case fw_heap w a of
       None \<Rightarrow> Inl Null_deref
     | Some f \<Rightarrow> bindE (g f) (\<lambda>f'. Inr (w\<lparr>fw_heap := (fw_heap w)(a \<mapsto> f')\<rparr>)))"

text \<open>
  The context a fiber resumes in. One that has run to its end stands behind the \<open>swapOut\<close> (or
  \<open>back\<close>) that closes \<open>MainFunc\<close>, where the code asserts that it is never reached.
\<close>

definition resume :: "'f fiber \<Rightarrow> 'f fiber res" where
  "resume f =
    (if f_state f = TERMINATED \<or> f_state f = EXCEPT then Inl (Assert_fail ''never reach fiber_id='')
     else Inr (f\<lparr>f_state := EXEC\<rparr>))"

definition call :: "'f fworld \<Rightarrow> nat \<Rightarrow> (nat \<times> 'f fworld) res" where
  "call w a =
    (if t_threadFiber w = None then Inl Null_deref
     else bindE (upd_fiber (SetThis w (Some a)) a resume) (\<lambda>w'. Inr (a, w')))"

definition back_fiber :: "'f fworld \<Rightarrow> nat \<Rightarrow> (nat \<times> 'f fworld) res" where
  "back_fiber w a =
    (case t_threadFiber w of
       None \<Rightarrow> Inl Null_deref
     | Some m \<Rightarrow> Inr (m, SetThis w (Some m)))"

definition swap_in :: "'f fiber \<Rightarrow> 'f fiber res" where
  "swap_in f = (if f_state f = EXEC then Inl (Assert_fail ''m_state != EXEC'') else resume f)"

definition swapIn :: "'f fworld \<Rightarrow> nat \<Rightarrow> (nat \<times> 'f fworld) res" where
  "swapIn w a =
    (if t_sheduler_fiber w = None then Inl Null_deref
     else bindE (upd_fiber (SetThis w (Some a)) a swap_in) (\<lambda>w'. Inr (a, w')))"

definition swapOut :: "'f fworld \<Rightarrow> nat \<Rightarrow> (nat \<times> 'f fworld) res" where
  "swapOut w a =
    (case t_sheduler_fiber w of
       None \<Rightarrow> Inl Null_deref
     | Some m \<Rightarrow> Inr (m, SetThis w (Some m)))"

text \<open>\<open>GetThis\<close> makes the thread's main fiber, at the fresh address \<open>a\<close>, when there is none yet.\<close>

definition GetThis :: "'f fworld \<Rightarrow> nat \<Rightarrow> nat \<times> 'f fworld" where
  "GetThis w a =
    (case t_fiber w of
       Some f \<Rightarrow> (f, w)
     | None \<Rightarrow> (a, (Fiber_main w a)\<lparr>t_threadFiber := Some a\<rparr>))"

definition yield_ready :: "'f fiber \<Rightarrow> 'f fiber res" where
  "yield_ready f =
    (if f_state f = EXEC then Inr (f\<lparr>f_state := READY\<rparr>) else Inl (Assert_fail ''cur->m_state == EXEC''))"

text \<open>\<open>YieldToHold\<close> leaves the state at \<open>EXEC\<close>; the scheduler changes it once the switch is over.\<close>

definition yield_hold :: "'f fiber \<Rightarrow> 'f fiber res" where
  "yield_hold f =
    (if f_state f = EXEC then Inr f else Inl (Assert_fail ''cur->m_state == EXEC''))"

definition YieldToReady :: "'f fworld \<Rightarrow> nat \<Rightarrow> (nat \<times> 'f fworld) res" where
  "YieldToReady w fresh =
    (let (cur, w1) = GetThis w fresh in
     bindE (upd_fiber w1 cur yield_ready) (\<lambda>w2. swapOut w2 cur))"

definition YieldToHold :: "'f fworld \<Rightarrow> nat \<Rightarrow> (nat \<times> 'f fworld) res" where
  "YieldToHold w fresh =
    (let (cur, w1) = GetThis w fresh in
     bindE (upd_fiber w1 cur yield_hold) (\<lambda>w2. swapOut w2 cur))"

definition TotalFibers :: "'f fworld \<Rightarrow> u64" where
  "TotalFibers w = s_fiber_count w"

text \<open>
  The end of \<open>MainFunc\<close> and \<open>CallerMainFunc\<close>, once the function has returned or thrown: the function
  object is dropped only when it returned.
\<close>

definition finish :: "bool \<Rightarrow> 'f fiber \<Rightarrow> 'f fiber" where
  "finish threw f =
    (if threw then f\<lparr>f_state := EXCEPT\<rparr> else f\<lparr>f_cb := None, f_state := TERMINATED\<rparr>)"

definition MainFunc :: "'f fworld \<Rightarrow> nat \<Rightarrow> bool \<Rightarrow> (nat \<times> 'f fworld) res" where
  "MainFunc w fresh threw =
    (let (cur, w1) = GetThis w fresh in
     bindE (upd_fiber w1 cur (\<lambda>f. Inr (finish threw f))) (\<lambda>w2. swapOut w2 cur))"

definition CallerMainFunc :: "'f fworld \<Rightarrow> nat \<Rightarrow> bool \<Rightarrow> (nat \<times> 'f fworld) res" where
  "CallerMainFunc w fresh threw =
    (let (cur, w1) = GetThis w fresh in
     bindE (upd_fiber w1 cur (\<lambda>f. Inr (finish threw f))) (\<lambda>w2. back_fiber w2 cur))"

section \<open>The life cycle\<close>

text \<open>The changes of status the code makes, outside construction.\<close>

fun life_edge :: "Status \<Rightarrow> Status \<Rightarrow> bool" where
  "life_edge s EXEC = (s = INIT \<or> s = HOLD \<or> s = READY \<or> s = EXEC)"
| "life_edge s READY = (s = EXEC)"
| "life_edge s HOLD = (s = EXEC)"
| "life_edge s TERMINATED = (s = EXEC)"
| "life_edge s EXCEPT = (s = EXEC)"
| "life_edge s INIT = (s = TERMINATED \<or> s = EXCEPT \<or> s = INIT)"

lemma resume_edge: "resume f = Inr f' \<Longrightarrow> life_edge (f_state f) (f_state f') \<and> f_state f' = EXEC"
  by (cases "f_state f") (auto simp: resume_def)

lemma swap_in_iff:
  "swap_in f = Inr f' \<longleftrightarrow> f_state f \<in> {INIT, HOLD, READY} \<and> f' = f\<lparr>f_state := EXEC\<rparr>"
  by (cases "f_state f") (auto simp: swap_in_def resume_def)

lemma reset_fiber_iff:
  "reset_fiber f cb = Inr f' \<longleftrightarrow>
    f_stack f \<and> f_state f \<in> {TERMINATED, EXCEPT, INIT} \<and> f' = f\<lparr>f_cb := cb, f_state := INIT\<rparr>"
  by (auto simp: reset_fiber_def)

section \<open>Properties\<close>



end
