(* ===== verification/Sylar_Scheduler.thy ===== *)
theory Sylar_Scheduler
  imports Sylar_Fiber
begin

text \<open>
  The scheduler (\<^verbatim>\<open>sylar/scheduler.cpp\<close>, \<^verbatim>\<open>scheduler.h\<close>): a queue of fibers and functions that several
  threads work off, each running the loop \<^verbatim>\<open>Scheduler::run\<close>. The loop is cut at the points where
  other threads can act: the locked section that picks a task, the switch into a fiber, the time
  the fiber runs, and what the loop does after the fiber gave control back. Every piece is a
  function on the shared state and the state of the worker, and a run of the system interleaves the
  pieces of all workers.

  The counters are atomic \<^verbatim>\<open>size_t\<close> variables, modelled as natural numbers; the invariant shows that
  they are never decremented at zero. The idle fiber of a worker is reachable from nowhere else, so
  only its status is kept. \<^verbatim>\<open>trickle\<close>, which subclasses override, is counted.
\<close>

section \<open>State\<close>

text \<open>\<^verbatim>\<open>FiberAndThread\<close>: a fiber or a function, and the thread it is pinned to or \<open>-1\<close>.\<close>

record 'f task =
  tk_fiber :: "nat option"
  tk_cb :: "'f option"
  tk_thread :: int

record 'f sched =
  m_fibers :: "'f task list"
  sc_heap :: "'f fheap"
  m_activeThreadCount :: nat
  m_idleThreadCount :: nat
  m_stopping :: bool
  m_autoStop :: bool
  m_threads :: "int list"
  m_threadIds :: "int list"
  m_threadCount :: nat
  m_rootThread :: int
  m_rootFiber :: "nat option"
  sc_trickles :: nat

text \<open>Where a worker stands in the loop.\<close>

datatype 'f pc =
    At_top
  | Picked "'f task option"
  | In_fiber nat | Back_fiber nat
  | In_cb nat | Back_cb nat
  | In_idle | Back_idle
  | Exited

record 'f worker =
  w_pc :: "'f pc"
  w_cb_fiber :: "nat option"
  w_idle :: Status

section \<open>Scheduling\<close>

definition trickle :: "'f sched \<Rightarrow> 'f sched" where
  "trickle s = s\<lparr>sc_trickles := sc_trickles s + 1\<rparr>"

definition scheduleNoLock :: "'f sched \<Rightarrow> 'f task \<Rightarrow> bool \<times> 'f sched" where
  "scheduleNoLock s ft =
    (let need_trickle = (m_fibers s = []) in
     (need_trickle,
      if tk_fiber ft \<noteq> None \<or> tk_cb ft \<noteq> None then s\<lparr>m_fibers := m_fibers s @ [ft]\<rparr> else s))"

definition schedule :: "'f sched \<Rightarrow> 'f task \<Rightarrow> 'f sched" where
  "schedule s ft =
    (let (need_trickle, s') = scheduleNoLock s ft in if need_trickle then trickle s' else s')"

fun schedule_range_loop :: "'f sched \<Rightarrow> bool \<Rightarrow> 'f task list \<Rightarrow> bool \<times> 'f sched" where
  "schedule_range_loop s need [] = (need, s)"
| "schedule_range_loop s need (ft # fts) =
     (let (n, s') = scheduleNoLock s ft in schedule_range_loop s' (n \<or> need) fts)"

definition schedule_range :: "'f sched \<Rightarrow> 'f task list \<Rightarrow> 'f sched" where
  "schedule_range s fts =
    (let (need_trickle, s') = schedule_range_loop s False fts
     in if need_trickle then trickle s' else s')"

definition fiber_task :: "nat \<Rightarrow> int \<Rightarrow> 'f task" where
  "fiber_task f thr = \<lparr>tk_fiber = Some f, tk_cb = None, tk_thread = thr\<rparr>"

definition cb_task :: "'f \<Rightarrow> int \<Rightarrow> 'f task" where
  "cb_task c thr = \<lparr>tk_fiber = None, tk_cb = Some c, tk_thread = thr\<rparr>"

section \<open>The loop of a worker\<close>

definition fstate :: "'f fheap \<Rightarrow> nat \<Rightarrow> Status" where
  "fstate h f = (case h f of None \<Rightarrow> EXCEPT | Some fb \<Rightarrow> f_state fb)"

definition set_fstate :: "'f fheap \<Rightarrow> nat \<Rightarrow> Status \<Rightarrow> 'f fheap" where
  "set_fstate h f st = (case h f of None \<Rightarrow> h | Some fb \<Rightarrow> h(f \<mapsto> fb\<lparr>f_state := st\<rparr>))"

definition ended :: "Status \<Rightarrow> bool" where
  "ended st \<longleftrightarrow> st = TERMINATED \<or> st = EXCEPT"

text \<open>
  The search of the locked section: the task taken, the queue without it, and \<open>trickle_me\<close>. Tasks
  pinned to other threads and fibers that still execute are passed over.
\<close>

fun pick :: "int \<Rightarrow> 'f fheap \<Rightarrow> 'f task list \<Rightarrow> ('f task option \<times> 'f task list \<times> bool) res" where
  "pick tid h [] = Inr (None, [], False)"
| "pick tid h (t # ts) =
     (if tk_thread t \<noteq> -1 \<and> tk_thread t \<noteq> tid then
        bindE (pick tid h ts) (\<lambda>(r, rest, _). Inr (r, t # rest, True))
      else if tk_fiber t = None \<and> tk_cb t = None then Inl (Assert_fail ''it->fiber || it->cb'')
      else if (case tk_fiber t of None \<Rightarrow> False | Some f \<Rightarrow> fstate h f = EXEC) then
        bindE (pick tid h ts) (\<lambda>(r, rest, me). Inr (r, t # rest, me))
      else Inr (Some t, ts, ts \<noteq> []))"

definition run_pick :: "'f sched \<Rightarrow> 'f worker \<Rightarrow> int \<Rightarrow> ('f sched \<times> 'f worker) res" where
  "run_pick s w tid =
    bindE (pick tid (sc_heap s) (m_fibers s)) (\<lambda>(ft, rest, trickle_me).
      let s1 = s\<lparr>m_fibers := rest,
                 m_activeThreadCount := m_activeThreadCount s + (if ft = None then 0 else 1)\<rparr>
      in Inr (if trickle_me then trickle s1 else s1, w\<lparr>w_pc := Picked ft\<rparr>))"

definition swap_into :: "'f sched \<Rightarrow> nat \<Rightarrow> 'f sched res" where
  "swap_into s f =
    (case sc_heap s f of
       None \<Rightarrow> Inl Null_deref
     | Some fb \<Rightarrow> bindE (swap_in fb) (\<lambda>fb'. Inr (s\<lparr>sc_heap := (sc_heap s)(f \<mapsto> fb')\<rparr>)))"

text \<open>
  From the picked task to the switch. A function runs on the worker's spare fiber or on a new one,
  allocated at \<open>fresh\<close> with number \<open>i\<close> and stack size \<open>sz\<close>. A fiber that has already ended is dropped.
\<close>

definition dispatch_cb ::
  "'f sched \<Rightarrow> 'f worker \<Rightarrow> 'f \<Rightarrow> nat \<Rightarrow> u64 \<Rightarrow> u32 \<Rightarrow> ('f sched \<times> 'f worker) res"
where
  "dispatch_cb s w c fresh i sz =
    (case w_cb_fiber w of
       Some f \<Rightarrow>
        (case sc_heap s f of
           None \<Rightarrow> Inl Null_deref
         | Some fb \<Rightarrow>
            bindE (reset_fiber fb (Some c)) (\<lambda>fb'.
            bindE (swap_into (s\<lparr>sc_heap := (sc_heap s)(f \<mapsto> fb')\<rparr>) f) (\<lambda>s'.
              Inr (s', w\<lparr>w_pc := In_cb f\<rparr>))))
     | None \<Rightarrow>
        bindE (swap_into (s\<lparr>sc_heap := (sc_heap s)(fresh \<mapsto> new_fiber i sz (Some c))\<rparr>) fresh)
          (\<lambda>s'. Inr (s', w\<lparr>w_pc := In_cb fresh, w_cb_fiber := Some fresh\<rparr>)))"

definition dispatch_idle :: "'f sched \<Rightarrow> 'f worker \<Rightarrow> ('f sched \<times> 'f worker) res" where
  "dispatch_idle s w =
    (if w_idle w = TERMINATED then Inr (s, w\<lparr>w_pc := Exited\<rparr>)
     else if w_idle w = EXEC then Inl (Assert_fail ''m_state != EXEC'')
     else if w_idle w = EXCEPT then Inl (Assert_fail ''never reach fiber_id='')
     else Inr (s\<lparr>m_idleThreadCount := m_idleThreadCount s + 1\<rparr>,
               w\<lparr>w_pc := In_idle, w_idle := EXEC\<rparr>))"

definition live_fiber :: "'f sched \<Rightarrow> 'f task \<Rightarrow> nat option" where
  "live_fiber s t =
    (case tk_fiber t of
       Some f \<Rightarrow> if ended (fstate (sc_heap s) f) then None else Some f
     | None \<Rightarrow> None)"

definition run_dispatch ::
  "'f sched \<Rightarrow> 'f worker \<Rightarrow> 'f task option \<Rightarrow> nat \<Rightarrow> u64 \<Rightarrow> u32 \<Rightarrow> ('f sched \<times> 'f worker) res"
where
  "run_dispatch s w ft fresh i sz =
    (case ft of
       None \<Rightarrow> dispatch_idle s w
     | Some t \<Rightarrow>
        (case live_fiber s t of
           Some f \<Rightarrow> bindE (swap_into s f) (\<lambda>s'. Inr (s', w\<lparr>w_pc := In_fiber f\<rparr>))
         | None \<Rightarrow>
            (case tk_cb t of
               Some c \<Rightarrow> dispatch_cb s w c fresh i sz
             | None \<Rightarrow>
                 Inr (s\<lparr>m_activeThreadCount := m_activeThreadCount s - 1\<rparr>, w\<lparr>w_pc := At_top\<rparr>))))"

definition run_back_fiber :: "'f sched \<Rightarrow> 'f worker \<Rightarrow> nat \<Rightarrow> 'f sched \<times> 'f worker" where
  "run_back_fiber s w f =
    (let s1 = s\<lparr>m_activeThreadCount := m_activeThreadCount s - 1\<rparr>; st = fstate (sc_heap s1) f in
     (if st = READY then schedule s1 (fiber_task f (-1))
      else if \<not> ended st then s1\<lparr>sc_heap := set_fstate (sc_heap s1) f HOLD\<rparr>
      else s1,
      w\<lparr>w_pc := At_top\<rparr>))"

definition run_back_cb :: "'f sched \<Rightarrow> 'f worker \<Rightarrow> nat \<Rightarrow> ('f sched \<times> 'f worker) res" where
  "run_back_cb s w f =
    (let s1 = s\<lparr>m_activeThreadCount := m_activeThreadCount s - 1\<rparr>; st = fstate (sc_heap s1) f in
     if st = READY then
       Inr (schedule s1 (fiber_task f (-1)), w\<lparr>w_pc := At_top, w_cb_fiber := None\<rparr>)
     else if ended st then
       (case sc_heap s1 f of
          None \<Rightarrow> Inl Null_deref
        | Some fb \<Rightarrow>
            bindE (reset_fiber fb None) (\<lambda>fb'.
              Inr (s1\<lparr>sc_heap := (sc_heap s1)(f \<mapsto> fb')\<rparr>, w\<lparr>w_pc := At_top\<rparr>)))
     else
       Inr (s1\<lparr>sc_heap := set_fstate (sc_heap s1) f HOLD\<rparr>, w\<lparr>w_pc := At_top, w_cb_fiber := None\<rparr>))"

definition run_back_idle :: "'f sched \<Rightarrow> 'f worker \<Rightarrow> 'f sched \<times> 'f worker" where
  "run_back_idle s w =
    (s\<lparr>m_idleThreadCount := m_idleThreadCount s - 1\<rparr>,
     w\<lparr>w_pc := At_top, w_idle := (if ended (w_idle w) then w_idle w else HOLD)\<rparr>)"

definition stopping :: "'f sched \<Rightarrow> bool" where
  "stopping s \<longleftrightarrow> m_autoStop s \<and> m_stopping s \<and> m_fibers s = [] \<and> m_activeThreadCount s = 0"

text \<open>One round of \<open>Scheduler::idle\<close>: it yields, or ends once the scheduler may stop.\<close>

definition idle_round :: "'f sched \<Rightarrow> 'f worker \<Rightarrow> 'f worker" where
  "idle_round s w = w\<lparr>w_pc := Back_idle, w_idle := (if stopping s then TERMINATED else w_idle w)\<rparr>"

section \<open>Construction, start and stop\<close>

text \<open>
  \<open>this_sched\<close> says whether the calling thread already has a scheduler; \<open>a\<close> is the address of the
  root fiber and \<open>tid\<close> the calling thread, both used only with \<open>use_caller\<close>.
\<close>

definition Scheduler :: "nat \<Rightarrow> bool \<Rightarrow> bool \<Rightarrow> nat \<Rightarrow> int \<Rightarrow> 'f sched res" where
  "Scheduler threads use_caller this_sched a tid =
    (if threads = 0 then Inl (Assert_fail ''threads > 0'')
     else if use_caller \<and> this_sched then Inl (Assert_fail ''GetThis() == nullptr'')
     else Inr \<lparr>m_fibers = [],
       sc_heap = (if use_caller then Map.empty(a \<mapsto> new_fiber 0 0 None) else Map.empty),
       m_activeThreadCount = 0, m_idleThreadCount = 0, m_stopping = True, m_autoStop = False,
       m_threads = [], m_threadIds = (if use_caller then [tid] else []),
       m_threadCount = (if use_caller then threads - 1 else threads),
       m_rootThread = (if use_caller then tid else -1),
       m_rootFiber = (if use_caller then Some a else None), sc_trickles = 0\<rparr>)"

text \<open>\<open>ids\<close> are the numbers of the threads that get created.\<close>

definition Start :: "'f sched \<Rightarrow> int list \<Rightarrow> 'f sched res" where
  "Start s ids =
    (if \<not> m_stopping s then Inr s
     else if m_threads s \<noteq> [] then Inl (Assert_fail ''m_threads.empty()'')
     else Inr (s\<lparr>m_stopping := False, m_threads := take (m_threadCount s) ids,
                 m_threadIds := m_threadIds s @ take (m_threadCount s) ids\<rparr>))"

fun trickles :: "nat \<Rightarrow> 'f sched \<Rightarrow> 'f sched" where
  "trickles 0 s = s"
| "trickles (Suc n) s = trickles n (trickle s)"

text \<open>
  \<open>Stop\<close>: the state, whether the root fiber is called to work off the rest on this thread, and the
  threads that are then joined.
\<close>

definition Stop :: "'f sched \<Rightarrow> bool \<Rightarrow> ('f sched \<times> bool \<times> int list) res" where
  "Stop s on_own_thread =
    (let s1 = s\<lparr>m_autoStop := True\<rparr>;
         quiet = (case m_rootFiber s1 of
                    None \<Rightarrow> False
                  | Some r \<Rightarrow> m_threadCount s1 = 0 \<and>
                      (fstate (sc_heap s1) r = TERMINATED \<or> fstate (sc_heap s1) r = INIT));
         s2 = (if quiet then s1\<lparr>m_stopping := True\<rparr> else s1)
     in if quiet \<and> stopping s2 then Inr (s2, False, [])
        else if m_rootThread s2 \<noteq> -1 \<and> \<not> on_own_thread then Inl (Assert_fail ''GetThis() == this'')
        else if m_rootThread s2 = -1 \<and> on_own_thread then Inl (Assert_fail ''GetThis() != this'')
        else
          let s3 = trickles (m_threadCount s2) (s2\<lparr>m_stopping := True\<rparr>);
              s4 = (if m_rootFiber s3 \<noteq> None then trickle s3 else s3)
          in Inr (s4\<lparr>m_threads := []\<rparr>, m_rootFiber s4 \<noteq> None \<and> \<not> stopping s4, m_threads s4))"

section \<open>Picking\<close>

definition eligible :: "int \<Rightarrow> 'f fheap \<Rightarrow> 'f task \<Rightarrow> bool" where
  "eligible tid h t \<longleftrightarrow> (tk_thread t = -1 \<or> tk_thread t = tid) \<and>
    (case tk_fiber t of None \<Rightarrow> True | Some f \<Rightarrow> fstate h f \<noteq> EXEC)"

definition real_task :: "'f task \<Rightarrow> bool" where
  "real_task t \<longleftrightarrow> tk_fiber t \<noteq> None \<or> tk_cb t \<noteq> None"

lemma pick_none: "\<forall>u \<in> set ts. real_task u \<and> \<not> eligible tid h u \<Longrightarrow>
    \<exists>me. pick tid h ts = Inr (None, ts, me)"
proof (induction ts)
  case (Cons t ts)
  then obtain me where "pick tid h ts = Inr (None, ts, me)" by auto
  then show ?case
    using Cons.prems by (auto simp: eligible_def real_task_def split: option.splits)
qed auto

lemma pick_first:
  assumes "\<forall>u \<in> set (as @ t # bs). real_task u" "\<forall>u \<in> set as. \<not> eligible tid h u" "eligible tid h t"
  shows "\<exists>me. pick tid h (as @ t # bs) = Inr (Some t, as @ bs, me) \<and>
    (me \<longleftrightarrow> bs \<noteq> [] \<or> (\<exists>u \<in> set as. tk_thread u \<noteq> -1 \<and> tk_thread u \<noteq> tid))"
  using assms
proof (induction as)
  case Nil
  then show ?case by (auto simp: eligible_def real_task_def split: option.splits)
next
  case (Cons u us)
  then obtain me where "pick tid h (us @ t # bs) = Inr (Some t, us @ bs, me)"
    "me \<longleftrightarrow> bs \<noteq> [] \<or> (\<exists>u \<in> set us. tk_thread u \<noteq> -1 \<and> tk_thread u \<noteq> tid)" by auto
  then show ?case
    using Cons.prems by (auto simp: eligible_def real_task_def split: option.splits)
qed

lemma pick_cases:
  assumes "\<forall>u \<in> set ts. real_task u"
  obtains me where "pick tid h ts = Inr (None, ts, me)" "\<forall>u \<in> set ts. \<not> eligible tid h u"
  | as t bs me where "ts = as @ t # bs" "eligible tid h t" "\<forall>u \<in> set as. \<not> eligible tid h u"
    "pick tid h ts = Inr (Some t, as @ bs, me)"
proof (cases "\<exists>u \<in> set ts. eligible tid h u")
  case True
  then obtain as t bs where ts: "ts = as @ t # bs" "eligible tid h t" "\<forall>u \<in> set as. \<not> eligible tid h u"
    by (auto dest!: split_list_first_prop)
  then show ?thesis using pick_first [of as t bs tid h] assms that(2) by auto
next
  case False
  then show ?thesis using pick_none [of ts tid h] assms that(1) by auto
qed

section \<open>Who holds a fiber\<close>

primrec qfibers :: "'f task list \<Rightarrow> nat list" where
  "qfibers [] = []"
| "qfibers (t # ts) = (case tk_fiber t of None \<Rightarrow> [] | Some f \<Rightarrow> [f]) @ qfibers ts"

lemma qfibers_append [simp]: "qfibers (xs @ ys) = qfibers xs @ qfibers ys"
  by (induction xs) auto

fun pc_picked :: "'f pc \<Rightarrow> nat option" where
  "pc_picked (Picked (Some t)) = tk_fiber t"
| "pc_picked _ = None"

fun pc_run :: "'f pc \<Rightarrow> nat option" where
  "pc_run (In_fiber f) = Some f" | "pc_run (Back_fiber f) = Some f"
| "pc_run (In_cb f) = Some f" | "pc_run (Back_cb f) = Some f"
| "pc_run _ = None"

fun pc_in :: "'f pc \<Rightarrow> nat option" where
  "pc_in (In_fiber f) = Some f" | "pc_in (In_cb f) = Some f" | "pc_in _ = None"

fun pc_cb :: "'f pc \<Rightarrow> nat option" where
  "pc_cb (In_cb f) = Some f" | "pc_cb (Back_cb f) = Some f" | "pc_cb _ = None"

fun pc_busy :: "'f pc \<Rightarrow> bool" where
  "pc_busy (Picked (Some t)) = True" | "pc_busy (In_fiber f) = True" | "pc_busy (Back_fiber f) = True"
| "pc_busy (In_cb f) = True" | "pc_busy (Back_cb f) = True" | "pc_busy _ = False"

fun pc_idle :: "'f pc \<Rightarrow> bool" where
  "pc_idle In_idle = True" | "pc_idle Back_idle = True" | "pc_idle _ = False"

text \<open>The spare fiber of a worker, while no function runs on it.\<close>

definition w_spare :: "'f worker \<Rightarrow> nat option" where
  "w_spare w = (if pc_cb (w_pc w) = None then w_cb_fiber w else None)"

definition own :: "'f worker \<Rightarrow> nat set" where
  "own w = set_option (pc_picked (w_pc w)) \<union> set_option (pc_run (w_pc w)) \<union> set_option (w_spare w)"

definition runs :: "int set \<Rightarrow> (int \<Rightarrow> 'f worker) \<Rightarrow> nat \<Rightarrow> bool" where
  "runs T W f \<longleftrightarrow> (\<exists>i \<in> T. pc_run (w_pc (W i)) = Some f)"

definition startable :: "'f fheap \<Rightarrow> nat \<Rightarrow> bool" where
  "startable h f \<longleftrightarrow> (\<exists>fb. h f = Some fb \<and> f_stack fb \<and> f_state fb \<in> {INIT, HOLD, READY})"

text \<open>What the state of one worker promises about the fibers it holds.\<close>

definition worker_ok :: "'f sched \<Rightarrow> 'f worker \<Rightarrow> bool" where
  "worker_ok s w \<longleftrightarrow>
    (\<forall>f. pc_picked (w_pc w) = Some f \<longrightarrow>
       startable (sc_heap s) f \<and> f \<notin> set (qfibers (m_fibers s)) \<and> w_spare w \<noteq> Some f) \<and>
    (\<forall>f. pc_in (w_pc w) = Some f \<longrightarrow> fstate (sc_heap s) f = EXEC) \<and>
    (\<forall>f. pc_run (w_pc w) = Some f \<longrightarrow>
       (\<exists>fb. sc_heap s f = Some fb \<and> f_stack fb \<and> f_state fb \<in> {EXEC, READY, TERMINATED, EXCEPT}) \<and>
       (f \<in> set (qfibers (m_fibers s)) \<longrightarrow> fstate (sc_heap s) f = EXEC) \<and> w_spare w \<noteq> Some f) \<and>
    (\<forall>f. w_spare w = Some f \<longrightarrow>
       (\<exists>fb. sc_heap s f = Some fb \<and> f_stack fb \<and> f_state fb = INIT) \<and>
       f \<notin> set (qfibers (m_fibers s))) \<and>
    (\<forall>f. pc_cb (w_pc w) = Some f \<longrightarrow> w_cb_fiber w = Some f) \<and>
    (\<forall>t. w_pc w = Picked (Some t) \<longrightarrow> real_task t) \<and>
    (w_pc w = In_idle \<longrightarrow> w_idle w = EXEC) \<and>
    (w_pc w = Back_idle \<longrightarrow> w_idle w \<in> {EXEC, TERMINATED}) \<and>
    (\<not> pc_idle (w_pc w) \<longrightarrow> w_idle w \<in> {INIT, HOLD, TERMINATED})"

definition queue_ok :: "'f sched \<Rightarrow> (nat \<Rightarrow> bool) \<Rightarrow> bool" where
  "queue_ok s running \<longleftrightarrow>
    (\<forall>t \<in> set (m_fibers s). real_task t) \<and> distinct (qfibers (m_fibers s)) \<and>
    (\<forall>f \<in> set (qfibers (m_fibers s)).
       (\<exists>fb. sc_heap s f = Some fb \<and> f_stack fb) \<and>
       (startable (sc_heap s) f \<or> fstate (sc_heap s) f = EXEC \<and> running f))"

definition tally :: "('f pc \<Rightarrow> bool) \<Rightarrow> int set \<Rightarrow> (int \<Rightarrow> 'f worker) \<Rightarrow> nat" where
  "tally P T W = (\<Sum>i \<in> T. if P (w_pc (W i)) then 1 else 0)"

definition sch_inv :: "int set \<Rightarrow> 'f sched \<Rightarrow> (int \<Rightarrow> 'f worker) \<Rightarrow> bool" where
  "sch_inv T s W \<longleftrightarrow> finite T \<and>
    m_activeThreadCount s = tally pc_busy T W \<and> m_idleThreadCount s = tally pc_idle T W \<and>
    (\<forall>i \<in> T. \<forall>j \<in> T. i \<noteq> j \<longrightarrow> own (W i) \<inter> own (W j) = {}) \<and>
    (\<forall>i \<in> T. worker_ok s (W i)) \<and> queue_ok s (runs T W)"

lemma tally_upd:
  assumes "finite T" "i \<in> T"
  shows "tally P T (W(i := w)) + (if P (w_pc (W i)) then 1 else 0) =
    tally P T W + (if P (w_pc w) then 1 else 0)"
proof -
  have "(\<Sum>j \<in> T - {i}. if P (w_pc ((W(i := w)) j)) then 1 else 0) =
      (\<Sum>j \<in> T - {i}. if P (w_pc (W j)) then 1 else 0 :: nat)"
    by (rule sum.cong) auto
  then show ?thesis
    using assms by (simp add: tally_def sum.remove [of T i])
qed

lemma worker_ok_frame:
  assumes "worker_ok s w" "\<forall>f \<in> own w. sc_heap s' f = sc_heap s f"
    "\<forall>f \<in> own w. f \<in> set (qfibers (m_fibers s')) \<longrightarrow> f \<in> set (qfibers (m_fibers s))"
  shows "worker_ok s' w"
proof -
  have st: "fstate (sc_heap s') f = fstate (sc_heap s) f" if "f \<in> own w" for f
    using assms(2) that by (simp add: fstate_def)
  have in_run: "pc_in (w_pc w) = Some f \<Longrightarrow> pc_run (w_pc w) = Some f" for f
    by (cases "w_pc w") auto
  show ?thesis
    using assms st in_run unfolding worker_ok_def own_def startable_def by (auto simp: Ball_def)
qed

text \<open>
  One worker moves: it keeps to the fibers it holds, to fibers nobody holds, and to putting a fiber
  of its own into the queue. Then the promises of the others still hold.
\<close>

lemma sch_inv_move:
  assumes inv: "sch_inv T s W" and i: "i \<in> T"
    and new: "\<forall>f \<in> own w. f \<in> own (W i) \<or> (\<forall>j \<in> T. f \<notin> own (W j))"
    and heap: "\<forall>f. f \<notin> own (W i) \<union> own w \<longrightarrow> sc_heap s' f = sc_heap s f"
    and queue: "\<forall>f \<in> set (qfibers (m_fibers s')). f \<in> set (qfibers (m_fibers s)) \<or> f \<in> own (W i)"
    and w: "worker_ok s' w" and q: "queue_ok s' (runs T (W(i := w)))"
    and act: "m_activeThreadCount s' + (if pc_busy (w_pc (W i)) then 1 else 0) =
      m_activeThreadCount s + (if pc_busy (w_pc w) then 1 else 0)"
    and idl: "m_idleThreadCount s' + (if pc_idle (w_pc (W i)) then 1 else 0) =
      m_idleThreadCount s + (if pc_idle (w_pc w) then 1 else 0)"
  shows "sch_inv T s' (W(i := w))"
proof -
  have fin: "finite T" and disj: "\<And>j k. j \<in> T \<Longrightarrow> k \<in> T \<Longrightarrow> j \<noteq> k \<Longrightarrow> own (W j) \<inter> own (W k) = {}"
    and ok: "\<And>j. j \<in> T \<Longrightarrow> worker_ok s (W j)"
    using inv by (auto simp: sch_inv_def)
  have other: "own (W j) \<inter> (own (W i) \<union> own w) = {}" if "j \<in> T" "j \<noteq> i" for j
    using disj [OF that(1) i that(2)] new that by auto
  have "worker_ok s' (W j)" if "j \<in> T" "j \<noteq> i" for j
    using worker_ok_frame [OF ok [OF that(1)]] heap queue other [OF that] by blast
  moreover have "own ((W(i := w)) j) \<inter> own ((W(i := w)) k) = {}" if "j \<in> T" "k \<in> T" "j \<noteq> k" for j k
    using disj that other [of j] other [of k] by auto
  moreover have "m_activeThreadCount s' = tally pc_busy T (W(i := w))"
    "m_idleThreadCount s' = tally pc_idle T (W(i := w))"
    using act idl tally_upd [OF fin i, of pc_busy W w] tally_upd [OF fin i, of pc_idle W w] inv
    by (auto simp: sch_inv_def split: if_splits)
  ultimately show ?thesis
    using fin w q by (auto simp: sch_inv_def)
qed

section \<open>Runs of the system\<close>

text \<open>
  How a running fiber gives control back. A fiber that already has a task in the queue (another
  thread woke it before it slept) must go to sleep; that is the rule clients have to keep.
\<close>

datatype outcome = Yields_ready | Yields_hold | Returns | Throws

fun leave :: "outcome \<Rightarrow> 'f fiber \<Rightarrow> 'f fiber res" where
  "leave Yields_ready f = yield_ready f"
| "leave Yields_hold f = yield_hold f"
| "leave Returns f = Inr (finish False f)"
| "leave Throws f = Inr (finish True f)"

text \<open>
  A client may wake a fiber that sleeps or is about to, once: it has no task in the queue and no
  worker has picked it.
\<close>

definition may_wake :: "int set \<Rightarrow> 'f sched \<Rightarrow> (int \<Rightarrow> 'f worker) \<Rightarrow> nat \<Rightarrow> bool" where
  "may_wake T s W f \<longleftrightarrow>
    (\<exists>fb. sc_heap s f = Some fb \<and> f_stack fb) \<and> f \<notin> set (qfibers (m_fibers s)) \<and>
    (\<forall>i \<in> T. pc_picked (w_pc (W i)) \<noteq> Some f \<and> w_spare (W i) \<noteq> Some f) \<and>
    (fstate (sc_heap s) f \<in> {INIT, HOLD} \<or> fstate (sc_heap s) f = EXEC \<and> runs T W f)"

inductive sch_step ::
  "int set \<Rightarrow> 'f sched \<times> (int \<Rightarrow> 'f worker) \<Rightarrow> 'f sched \<times> (int \<Rightarrow> 'f worker) \<Rightarrow> bool" for T
where
  st_pick: "i \<in> T \<Longrightarrow> w_pc (W i) = At_top \<Longrightarrow> run_pick s (W i) i = Inr (s', w) \<Longrightarrow>
    sch_step T (s, W) (s', W(i := w))"
| st_dispatch: "i \<in> T \<Longrightarrow> w_pc (W i) = Picked ft \<Longrightarrow> fresh \<notin> dom (sc_heap s) \<Longrightarrow>
    run_dispatch s (W i) ft fresh k sz = Inr (s', w) \<Longrightarrow> sch_step T (s, W) (s', W(i := w))"
| st_leave_fiber: "i \<in> T \<Longrightarrow> w_pc (W i) = In_fiber f \<Longrightarrow> sc_heap s f = Some fb \<Longrightarrow>
    (f \<in> set (qfibers (m_fibers s)) \<longrightarrow> r = Yields_hold) \<Longrightarrow> leave r fb = Inr fb' \<Longrightarrow>
    sch_step T (s, W) (s\<lparr>sc_heap := (sc_heap s)(f \<mapsto> fb')\<rparr>, W(i := (W i)\<lparr>w_pc := Back_fiber f\<rparr>))"
| st_leave_cb: "i \<in> T \<Longrightarrow> w_pc (W i) = In_cb f \<Longrightarrow> sc_heap s f = Some fb \<Longrightarrow>
    (f \<in> set (qfibers (m_fibers s)) \<longrightarrow> r = Yields_hold) \<Longrightarrow> leave r fb = Inr fb' \<Longrightarrow>
    sch_step T (s, W) (s\<lparr>sc_heap := (sc_heap s)(f \<mapsto> fb')\<rparr>, W(i := (W i)\<lparr>w_pc := Back_cb f\<rparr>))"
| st_back_fiber: "i \<in> T \<Longrightarrow> w_pc (W i) = Back_fiber f \<Longrightarrow> run_back_fiber s (W i) f = (s', w) \<Longrightarrow>
    sch_step T (s, W) (s', W(i := w))"
| st_back_cb: "i \<in> T \<Longrightarrow> w_pc (W i) = Back_cb f \<Longrightarrow> run_back_cb s (W i) f = Inr (s', w) \<Longrightarrow>
    sch_step T (s, W) (s', W(i := w))"
| st_idle: "i \<in> T \<Longrightarrow> w_pc (W i) = In_idle \<Longrightarrow>
    sch_step T (s, W) (s, W(i := idle_round s (W i)))"
| st_back_idle: "i \<in> T \<Longrightarrow> w_pc (W i) = Back_idle \<Longrightarrow> run_back_idle s (W i) = (s', w) \<Longrightarrow>
    sch_step T (s, W) (s', W(i := w))"
| st_wake: "may_wake T s W f \<Longrightarrow> sch_step T (s, W) (schedule s (fiber_task f thr), W)"
| st_post: "sch_step T (s, W) (schedule s (cb_task c thr), W)"
| st_create: "a \<notin> dom (sc_heap s) \<Longrightarrow>
    sch_step T (s, W) (s\<lparr>sc_heap := (sc_heap s)(a \<mapsto> new_fiber k sz (Some c))\<rparr>, W)"
| st_flags: "sch_step T (s, W) (s\<lparr>m_autoStop := x, m_stopping := y\<rparr>, W)"

lemma trickle_simps [simp]:
  "m_fibers (trickle s) = m_fibers s" "sc_heap (trickle s) = sc_heap s"
  "m_activeThreadCount (trickle s) = m_activeThreadCount s"
  "m_idleThreadCount (trickle s) = m_idleThreadCount s"
  by (simp_all add: trickle_def)

lemma schedule_simps [simp]:
  "real_task ft \<Longrightarrow> m_fibers (schedule s ft) = m_fibers s @ [ft]"
  "sc_heap (schedule s ft) = sc_heap s"
  "m_activeThreadCount (schedule s ft) = m_activeThreadCount s"
  "m_idleThreadCount (schedule s ft) = m_idleThreadCount s"
  by (auto simp: schedule_def scheduleNoLock_def real_task_def)

lemma task_simps [simp]:
  "real_task (fiber_task f thr)" "real_task (cb_task c thr)"
  "tk_fiber (fiber_task f thr) = Some f" "tk_fiber (cb_task c thr) = None"
  by (simp_all add: real_task_def fiber_task_def cb_task_def)

lemma fstate_upd [simp]: "fstate (h(f \<mapsto> fb)) g = (if g = f then f_state fb else fstate h g)"
  by (simp add: fstate_def)

lemma startable_upd [simp]:
  "startable (h(f \<mapsto> fb)) g =
    (if g = f then f_stack fb \<and> f_state fb \<in> {INIT, HOLD, READY} else startable h g)"
  by (simp add: startable_def)

lemma sch_invD:
  assumes "sch_inv T s W" "i \<in> T"
  shows "worker_ok s (W i)" "queue_ok s (runs T W)" "finite T"
    "j \<in> T \<Longrightarrow> j \<noteq> i \<Longrightarrow> own (W i) \<inter> own (W j) = {}"
  using assms by (auto simp: sch_inv_def)

lemma worker_okI:
  assumes "\<And>f. pc_picked (w_pc w) = Some f \<Longrightarrow> startable (sc_heap s) f \<and>
      f \<notin> set (qfibers (m_fibers s)) \<and> w_spare w \<noteq> Some f"
    and "\<And>f. pc_in (w_pc w) = Some f \<Longrightarrow> fstate (sc_heap s) f = EXEC"
    and "\<And>f. pc_run (w_pc w) = Some f \<Longrightarrow>
      (\<exists>fb. sc_heap s f = Some fb \<and> f_stack fb \<and> f_state fb \<in> {EXEC, READY, TERMINATED, EXCEPT}) \<and>
      (f \<in> set (qfibers (m_fibers s)) \<longrightarrow> fstate (sc_heap s) f = EXEC) \<and> w_spare w \<noteq> Some f"
    and "\<And>f. w_spare w = Some f \<Longrightarrow>
      (\<exists>fb. sc_heap s f = Some fb \<and> f_stack fb \<and> f_state fb = INIT) \<and>
      f \<notin> set (qfibers (m_fibers s))"
    and "\<And>f. pc_cb (w_pc w) = Some f \<Longrightarrow> w_cb_fiber w = Some f"
    and "\<And>t. w_pc w = Picked (Some t) \<Longrightarrow> real_task t"
    and "w_pc w = In_idle \<Longrightarrow> w_idle w = EXEC"
    and "w_pc w = Back_idle \<Longrightarrow> w_idle w \<in> {EXEC, TERMINATED}"
    and "\<not> pc_idle (w_pc w) \<Longrightarrow> w_idle w \<in> {INIT, HOLD, TERMINATED}"
  shows "worker_ok s w"
  unfolding worker_ok_def using assms by blast

lemma worker_okD:
  assumes "worker_ok s w"
  shows "pc_picked (w_pc w) = Some f \<Longrightarrow> startable (sc_heap s) f \<and>
      f \<notin> set (qfibers (m_fibers s)) \<and> w_spare w \<noteq> Some f"
    and "pc_in (w_pc w) = Some f \<Longrightarrow> fstate (sc_heap s) f = EXEC"
    and "pc_run (w_pc w) = Some f \<Longrightarrow>
      (\<exists>fb. sc_heap s f = Some fb \<and> f_stack fb \<and> f_state fb \<in> {EXEC, READY, TERMINATED, EXCEPT}) \<and>
      (f \<in> set (qfibers (m_fibers s)) \<longrightarrow> fstate (sc_heap s) f = EXEC) \<and> w_spare w \<noteq> Some f"
    and "w_spare w = Some f \<Longrightarrow>
      (\<exists>fb. sc_heap s f = Some fb \<and> f_stack fb \<and> f_state fb = INIT) \<and>
      f \<notin> set (qfibers (m_fibers s))"
    and "pc_cb (w_pc w) = Some f \<Longrightarrow> w_cb_fiber w = Some f"
    and "w_pc w = Picked (Some t) \<Longrightarrow> real_task t"
    and "w_pc w = In_idle \<Longrightarrow> w_idle w = EXEC"
    and "w_pc w = Back_idle \<Longrightarrow> w_idle w \<in> {EXEC, TERMINATED}"
    and "\<not> pc_idle (w_pc w) \<Longrightarrow> w_idle w \<in> {INIT, HOLD, TERMINATED}"
  using assms unfolding worker_ok_def by blast+

text \<open>What happens outside the workers: the queue may grow at its end, the heap by new fibers.\<close>

lemma sch_inv_client:
  assumes inv: "sch_inv T s W" and heap: "\<forall>f \<in> dom (sc_heap s). sc_heap s' f = sc_heap s f"
    and queue: "\<forall>i \<in> T. \<forall>f \<in> own (W i). f \<in> set (qfibers (m_fibers s')) \<longrightarrow>
      f \<in> set (qfibers (m_fibers s)) \<or> pc_run (w_pc (W i)) = Some f \<and> fstate (sc_heap s) f = EXEC"
    and q: "queue_ok s' (runs T W)"
    and cnt: "m_activeThreadCount s' = m_activeThreadCount s" "m_idleThreadCount s' = m_idleThreadCount s"
  shows "sch_inv T s' W"
proof -
  have "worker_ok s' (W i)" if i: "i \<in> T" for i
  proof -
    have ok: "worker_ok s (W i)" using inv i by (simp add: sch_inv_def)
    have dom: "f \<in> dom (sc_heap s)" if "f \<in> own (W i)" for f
      using ok that unfolding worker_ok_def own_def startable_def fstate_def
      by (auto split: option.splits)
    have own: "f \<in> own (W i)" if "pc_picked (w_pc (W i)) = Some f \<or> pc_run (w_pc (W i)) = Some f \<or>
        w_spare (W i) = Some f" for f
      using that by (auto simp: own_def)
    have hp: "sc_heap s' f = sc_heap s f" if "f \<in> own (W i)" for f
      using heap dom [OF that] by blast
    have st: "fstate (sc_heap s') f = fstate (sc_heap s) f" if "f \<in> own (W i)" for f
      using hp [OF that] by (simp add: fstate_def)
    have in_run: "pc_in (w_pc (W i)) = Some f \<Longrightarrow> pc_run (w_pc (W i)) = Some f" for f
      by (cases "w_pc (W i)") auto
    have pr: "pc_picked (w_pc (W i)) = Some f \<Longrightarrow> pc_run (w_pc (W i)) = None" for f
      by (cases "w_pc (W i)") auto
    have sp: "w_spare (W i) = Some f \<Longrightarrow> pc_run (w_pc (W i)) \<noteq> Some f" for f
      using ok by (auto simp: worker_ok_def)
    have qq: "f \<in> set (qfibers (m_fibers s)) \<or> pc_run (w_pc (W i)) = Some f \<and> fstate (sc_heap s) f = EXEC"
      if "f \<in> own (W i)" "f \<in> set (qfibers (m_fibers s'))" for f
      using queue i that by blast
    show ?thesis
    proof (rule worker_okI)
      fix f assume "pc_picked (w_pc (W i)) = Some f"
      then show "startable (sc_heap s') f \<and> f \<notin> set (qfibers (m_fibers s')) \<and> w_spare (W i) \<noteq> Some f"
        using worker_okD(1) [OF ok, of f] own [of f] hp [of f] pr [of f] qq [of f]
        by (auto simp: startable_def)
    next
      fix f assume "pc_in (w_pc (W i)) = Some f"
      then show "fstate (sc_heap s') f = EXEC"
        using worker_okD(2) [OF ok, of f] own [of f] st [of f] in_run [of f] by simp
    next
      fix f assume "pc_run (w_pc (W i)) = Some f"
      then show "(\<exists>fb. sc_heap s' f = Some fb \<and> f_stack fb \<and> f_state fb \<in> {EXEC, READY, TERMINATED, EXCEPT}) \<and>
          (f \<in> set (qfibers (m_fibers s')) \<longrightarrow> fstate (sc_heap s') f = EXEC) \<and> w_spare (W i) \<noteq> Some f"
        using worker_okD(3) [OF ok, of f] own [of f] st [of f] hp [of f] qq [of f] by auto
    next
      fix f assume "w_spare (W i) = Some f"
      then show "(\<exists>fb. sc_heap s' f = Some fb \<and> f_stack fb \<and> f_state fb = INIT) \<and>
          f \<notin> set (qfibers (m_fibers s'))"
        using worker_okD(4) [OF ok, of f] own [of f] hp [of f] sp [of f] qq [of f] by auto
    qed (use worker_okD(5-) [OF ok] in blast)+
  qed
  then show ?thesis using inv q cnt by (auto simp: sch_inv_def)
qed

lemma run_state:
  "sch_inv T s W \<Longrightarrow> i \<in> T \<Longrightarrow> pc_run (w_pc (W i)) = Some f \<Longrightarrow>
   fstate (sc_heap s) f \<in> {EXEC, READY, TERMINATED, EXCEPT}"
  using worker_okD(3) [OF sch_invD(1), of T s W i f] by (auto simp: fstate_def)

lemma step_wake:
  assumes inv: "sch_inv T s W" and wake: "may_wake T s W f"
  shows "sch_inv T (schedule s (fiber_task f thr)) W"
proof (rule sch_inv_client [OF inv])
  show "\<forall>i \<in> T. \<forall>g \<in> own (W i). g \<in> set (qfibers (m_fibers (schedule s (fiber_task f thr)))) \<longrightarrow>
      g \<in> set (qfibers (m_fibers s)) \<or> pc_run (w_pc (W i)) = Some g \<and> fstate (sc_heap s) g = EXEC"
    using wake run_state [OF inv, of _ f] by (auto simp: may_wake_def own_def)
  have "queue_ok s (runs T W)" using inv by (simp add: sch_inv_def)
  then show "queue_ok (schedule s (fiber_task f thr)) (runs T W)"
    using wake by (auto simp: queue_ok_def may_wake_def startable_def fstate_def)
qed simp_all

lemma step_post: "sch_inv T s W \<Longrightarrow> sch_inv T (schedule s (cb_task c thr)) W"
  by (rule sch_inv_client) (auto simp: sch_inv_def queue_ok_def)

lemma step_create:
  "sch_inv T s W \<Longrightarrow> a \<notin> dom (sc_heap s) \<Longrightarrow>
   sch_inv T (s\<lparr>sc_heap := (sc_heap s)(a \<mapsto> fb)\<rparr>) W"
  by (rule sch_inv_client) (auto simp: sch_inv_def queue_ok_def)

lemma step_flags: "sch_inv T s W \<Longrightarrow> sch_inv T (s\<lparr>m_autoStop := x, m_stopping := y\<rparr>) W"
  by (rule sch_inv_client) (auto simp: sch_inv_def queue_ok_def)

lemma queue_running_mono:
  "queue_ok s R \<Longrightarrow> (\<And>f. R f \<Longrightarrow> R' f) \<Longrightarrow> queue_ok s R'"
  unfolding queue_ok_def by blast

lemma runs_upd:
  "i \<in> T \<Longrightarrow> runs T (W(i := w)) f \<longleftrightarrow>
    pc_run (w_pc w) = Some f \<or> (\<exists>j \<in> T - {i}. pc_run (w_pc (W j)) = Some f)"
  unfolding runs_def by (auto split: if_splits)

lemma runs_keep: "i \<in> T \<Longrightarrow> pc_run (w_pc (W i)) = None \<or> pc_run (w_pc w) = pc_run (w_pc (W i)) \<Longrightarrow>
    runs T W f \<Longrightarrow> runs T (W(i := w)) f"
  unfolding runs_def by (metis fun_upd_other fun_upd_same option.distinct(1))

lemma queue_keep:
  assumes "queue_ok s (runs T W)" "i \<in> T"
    "pc_run (w_pc (W i)) = None \<or> pc_run (w_pc w) = pc_run (w_pc (W i))"
  shows "queue_ok s (runs T (W(i := w)))"
  using assms(1) by (rule queue_running_mono) (use assms runs_keep in blast)

lemma queue_ok_trickle [simp]: "queue_ok (trickle s) R = queue_ok s R"
  by (simp add: queue_ok_def)

lemma step_pick:
  assumes inv: "sch_inv T s W" and i: "i \<in> T" "w_pc (W i) = At_top"
  shows "\<exists>s' w. run_pick s (W i) i = Inr (s', w) \<and> sch_inv T s' (W(i := w))"
proof -
  have q: "queue_ok s (runs T W)" and ok: "worker_ok s (W i)" using sch_invD [OF inv i(1)] by auto
  have real: "\<forall>u \<in> set (m_fibers s). real_task u" using q by (simp add: queue_ok_def)
  from real show ?thesis
  proof (cases rule: pick_cases [of "m_fibers s" i "sc_heap s"])
    case (1 me)
    let ?s = "if me then trickle s else s" and ?w = "(W i)\<lparr>w_pc := Picked None\<rparr>"
    have "run_pick s (W i) i = Inr (?s, ?w)" using 1 by (simp add: run_pick_def Let_def)
    moreover have "sch_inv T ?s (W(i := ?w))"
    proof (rule sch_inv_move [OF inv i(1)])
      show "worker_ok ?s ?w"
        by (rule worker_okI) (use worker_okD [OF ok] i(2) in \<open>auto simp: w_spare_def\<close>)
      show "queue_ok ?s (runs T (W(i := ?w)))"
        using queue_keep [OF q i(1)] i(2) by simp
    qed (use i in \<open>auto simp: own_def w_spare_def\<close>)
    ultimately show ?thesis by blast
  next
    case (2 as t bs me)
    let ?s0 = "s\<lparr>m_fibers := as @ bs, m_activeThreadCount := m_activeThreadCount s + 1\<rparr>"
    let ?s = "if me then trickle ?s0 else ?s0" and ?w = "(W i)\<lparr>w_pc := Picked (Some t)\<rparr>"
    have run: "run_pick s (W i) i = Inr (?s, ?w)" using 2(4) by (simp add: run_pick_def Let_def)
    have d: "distinct (qfibers as @ (case tk_fiber t of None \<Rightarrow> [] | Some f \<Rightarrow> [f]) @ qfibers bs)"
      using q 2(1) by (simp add: queue_ok_def)
    have f: "startable (sc_heap s) f" "\<And>j. j \<in> T \<Longrightarrow> f \<notin> own (W j)"
      "f \<notin> set (qfibers as) \<union> set (qfibers bs)" if "tk_fiber t = Some f" for f
    proof -
      have fq: "f \<in> set (qfibers (m_fibers s))" using that 2(1) by simp
      have ne: "fstate (sc_heap s) f \<noteq> EXEC" using 2(2) that by (simp add: eligible_def)
      then show "startable (sc_heap s) f" using q fq by (auto simp: queue_ok_def)
      show "f \<notin> own (W j)" if "j \<in> T" for j
        using worker_okD(1,3,4) [OF sch_invD(1) [OF inv that], of f] fq ne by (auto simp: own_def)
      show "f \<notin> set (qfibers as) \<union> set (qfibers bs)" using d that by simp
    qed
    have ow: "own ?w \<subseteq> own (W i) \<union> set_option (tk_fiber t)" using i(2) by (auto simp: own_def w_spare_def)
    have "sch_inv T ?s (W(i := ?w))"
    proof (rule sch_inv_move [OF inv i(1)])
      show "\<forall>g \<in> own ?w. g \<in> own (W i) \<or> (\<forall>j \<in> T. g \<notin> own (W j))" using ow f(2) by fastforce
      show "worker_ok ?s ?w"
      proof (rule worker_okI)
        fix g assume "pc_picked (w_pc ?w) = Some g"
        then have g: "tk_fiber t = Some g" by simp
        then have "w_spare (W i) \<noteq> Some g" using f(2) [OF g i(1)] by (auto simp: own_def)
        then show "startable (sc_heap ?s) g \<and> g \<notin> set (qfibers (m_fibers ?s)) \<and> w_spare ?w \<noteq> Some g"
          using f [OF g] i(2) by (simp add: w_spare_def)
      next
        fix g assume "w_spare ?w = Some g"
        then have "w_spare (W i) = Some g" using i(2) by (simp add: w_spare_def)
        from worker_okD(4) [OF ok this] show "(\<exists>fb. sc_heap ?s g = Some fb \<and> f_stack fb \<and> f_state fb = INIT) \<and>
            g \<notin> set (qfibers (m_fibers ?s))"
          using 2(1) by auto
      qed (use worker_okD [OF ok] i(2) real 2(1) in auto)
      have "queue_ok s (runs T (W(i := ?w)))"
        using queue_keep [OF q i(1)] i(2) by simp
      then show "queue_ok ?s (runs T (W(i := ?w)))" using 2(1) d by (auto simp: queue_ok_def)
    qed (use i 2(1) in auto)
    then show ?thesis using run by blast
  qed
qed

lemma queue_heap_other:
  "queue_ok s R \<Longrightarrow> f \<notin> set (qfibers (m_fibers s)) \<Longrightarrow> sc_heap s' = (sc_heap s)(f \<mapsto> fb) \<Longrightarrow>
   m_fibers s' = m_fibers s \<Longrightarrow> queue_ok s' R"
  unfolding queue_ok_def by (auto simp: startable_def)

lemma runs_other:
  "pc_run (w_pc (W i)) = Some f \<Longrightarrow> g \<noteq> f \<Longrightarrow> runs T W g \<Longrightarrow> runs T (W(i := w)) g"
  unfolding runs_def by (metis fun_upd_other option.inject)

lemma leave_result:
  assumes "leave r fb = Inr fb'"
  shows "f_stack fb' = f_stack fb" "f_state fb' \<in> {EXEC, READY, TERMINATED, EXCEPT}"
    "r = Yields_hold \<Longrightarrow> fb' = fb \<and> f_state fb = EXEC"
  using assms
  by (cases r; auto simp: yield_ready_def yield_hold_def finish_def split: if_splits)+

lemma step_leave:
  assumes inv: "sch_inv T s W" and i: "i \<in> T"
    and pc: "w_pc (W i) = In_fiber f \<and> p = Back_fiber f \<or> w_pc (W i) = In_cb f \<and> p = Back_cb f"
    and fb: "sc_heap s f = Some fb" and r: "f \<in> set (qfibers (m_fibers s)) \<longrightarrow> r = Yields_hold"
    and lv: "leave r fb = Inr fb'"
  shows "sch_inv T (s\<lparr>sc_heap := (sc_heap s)(f \<mapsto> fb')\<rparr>) (W(i := (W i)\<lparr>w_pc := p\<rparr>))"
proof -
  let ?s = "s\<lparr>sc_heap := (sc_heap s)(f \<mapsto> fb')\<rparr>" and ?w = "(W i)\<lparr>w_pc := p\<rparr>"
  have ok: "worker_ok s (W i)" and q: "queue_ok s (runs T W)" using sch_invD [OF inv i] by auto
  have run: "pc_run (w_pc (W i)) = Some f" "pc_run p = Some f" "pc_cb p = pc_cb (w_pc (W i))"
    "pc_picked (w_pc (W i)) = None" "pc_picked p = None" using pc by auto
  have sp: "w_spare ?w = w_spare (W i)" using run(3) by (simp add: w_spare_def)
  have own: "own ?w = own (W i)" using run sp by (simp add: own_def)
  have f: "f_stack fb" "w_spare (W i) \<noteq> Some f"
    using worker_okD(3) [OF ok run(1)] fb by auto
  have q': "queue_ok ?s (runs T (W(i := ?w)))"
  proof (cases "f \<in> set (qfibers (m_fibers s))")
    case True
    then have "fb' = fb" using r leave_result(3) [OF lv] by simp
    then have "?s = s" using fb by (simp add: fun_upd_idem)
    then show ?thesis using queue_keep [OF q i, of ?w] run by simp
  next
    case False
    then show ?thesis using queue_heap_other [OF queue_keep [OF q i, of ?w] False] run by simp
  qed
  show ?thesis
  proof (rule sch_inv_move [OF inv i])
    show "worker_ok ?s ?w"
    proof (rule worker_okI)
      fix g assume "pc_run (w_pc ?w) = Some g"
      then have "g = f" using run(2) by simp
      then show "(\<exists>fb. sc_heap ?s g = Some fb \<and> f_stack fb \<and> f_state fb \<in> {EXEC, READY, TERMINATED, EXCEPT}) \<and>
          (g \<in> set (qfibers (m_fibers ?s)) \<longrightarrow> fstate (sc_heap ?s) g = EXEC) \<and> w_spare ?w \<noteq> Some g"
        using leave_result [OF lv] f r sp by auto
    next
      fix g assume "w_spare ?w = Some g"
      then show "(\<exists>fb. sc_heap ?s g = Some fb \<and> f_stack fb \<and> f_state fb = INIT) \<and>
          g \<notin> set (qfibers (m_fibers ?s))"
        using worker_okD(4) [OF ok, of g] f sp by auto
    qed (use worker_okD [OF ok] pc in auto)
  qed (use own q' run(1) pc in \<open>auto simp: own_def\<close>)
qed


text \<open>A worker lets go of the fiber it ran; the fiber can be started again if it is in the queue.\<close>

lemma queue_release:
  assumes q: "queue_ok s (runs T W)" and run: "pc_run (w_pc (W i)) = Some f"
    and q': "m_fibers s' = m_fibers s \<or> m_fibers s' = m_fibers s @ [fiber_task f thr] \<and>
      f \<notin> set (qfibers (m_fibers s))"
    and heap: "\<forall>g. g \<noteq> f \<longrightarrow> sc_heap s' g = sc_heap s g"
    and f: "f \<in> set (qfibers (m_fibers s')) \<longrightarrow>
      (\<exists>fb. sc_heap s' f = Some fb \<and> f_stack fb) \<and> startable (sc_heap s') f"
  shows "queue_ok s' (runs T (W(i := w)))"
proof -
  have "\<forall>g \<in> set (qfibers (m_fibers s')). (\<exists>fb. sc_heap s' g = Some fb \<and> f_stack fb) \<and>
      (startable (sc_heap s') g \<or> fstate (sc_heap s') g = EXEC \<and> runs T (W(i := w)) g)"
  proof
    fix g assume g: "g \<in> set (qfibers (m_fibers s'))"
    show "(\<exists>fb. sc_heap s' g = Some fb \<and> f_stack fb) \<and>
        (startable (sc_heap s') g \<or> fstate (sc_heap s') g = EXEC \<and> runs T (W(i := w)) g)"
    proof (cases "g = f")
      case True
      then show ?thesis using f g by simp
    next
      case False
      then have "g \<in> set (qfibers (m_fibers s))" "sc_heap s' g = sc_heap s g"
        using g q' heap by auto
      moreover have "fstate (sc_heap s') g = fstate (sc_heap s) g" using calculation(2)
        by (simp add: fstate_def)
      ultimately show ?thesis
        using q runs_other [of W i f g T w] run False by (auto simp: queue_ok_def startable_def)
    qed
  qed
  then show ?thesis using q q' by (auto simp: queue_ok_def)
qed

lemma step_back_fiber:
  assumes inv: "sch_inv T s W" and i: "i \<in> T" and pc: "w_pc (W i) = Back_fiber f"
    and run: "run_back_fiber s (W i) f = (s', w)"
  shows "sch_inv T s' (W(i := w))"
proof -
  have ok: "worker_ok s (W i)" and q: "queue_ok s (runs T W)" using sch_invD [OF inv i] by auto
  obtain fb where fb: "sc_heap s f = Some fb" "f_stack fb"
    "f \<in> set (qfibers (m_fibers s)) \<longrightarrow> f_state fb = EXEC"
    "w_spare (W i) \<noteq> Some f" "f_state fb \<in> {EXEC, READY, TERMINATED, EXCEPT}"
    using worker_okD(3) [OF ok, of f] pc by (auto simp: fstate_def)
  have w: "w = (W i)\<lparr>w_pc := At_top\<rparr>" using run by (simp add: run_back_fiber_def Let_def)
  have sp: "w_spare w = w_spare (W i)" "own (W i) = insert f (own w)"
    using pc by (auto simp: w own_def w_spare_def)
  have s': "m_fibers s' = m_fibers s @ (if f_state fb = READY then [fiber_task f (-1)] else [])"
    "sc_heap s' = (if f_state fb = EXEC then (sc_heap s)(f \<mapsto> fb\<lparr>f_state := HOLD\<rparr>) else sc_heap s)"
    "m_activeThreadCount s' = m_activeThreadCount s - 1" "m_idleThreadCount s' = m_idleThreadCount s"
    using run fb by (auto simp: run_back_fiber_def Let_def fstate_def ended_def set_fstate_def)
  have act: "0 < m_activeThreadCount s"
    using inv tally_upd [of T i pc_busy W "(W i)\<lparr>w_pc := At_top\<rparr>"] i pc by (auto simp: sch_inv_def)
  have q': "queue_ok s' (runs T (W(i := w)))"
    using q fb pc by (intro queue_release [where f = f]) (auto simp: s' startable_def fstate_def)
  show ?thesis
  proof (rule sch_inv_move [OF inv i])
    show "worker_ok s' w"
    proof (rule worker_okI)
      fix g assume "w_spare w = Some g"
      then show "(\<exists>fb. sc_heap s' g = Some fb \<and> f_stack fb \<and> f_state fb = INIT) \<and>
          g \<notin> set (qfibers (m_fibers s'))"
        using worker_okD(4) [OF ok, of g] fb(4) sp(1) s' by auto
    qed (use worker_okD(9) [OF ok] pc in \<open>auto simp: w\<close>)
  qed (use sp s' q' act pc in \<open>auto simp: w split: if_splits\<close>)
qed

lemma busy_positive:
  "sch_inv T s W \<Longrightarrow> i \<in> T \<Longrightarrow> pc_busy (w_pc (W i)) \<Longrightarrow> 0 < m_activeThreadCount s"
  using tally_upd [of T i pc_busy W "(W i)\<lparr>w_pc := At_top\<rparr>"] by (auto simp: sch_inv_def)

lemma idle_positive:
  "sch_inv T s W \<Longrightarrow> i \<in> T \<Longrightarrow> pc_idle (w_pc (W i)) \<Longrightarrow> 0 < m_idleThreadCount s"
  using tally_upd [of T i pc_idle W "(W i)\<lparr>w_pc := At_top\<rparr>"] by (auto simp: sch_inv_def)

lemma step_back_cb:
  assumes inv: "sch_inv T s W" and i: "i \<in> T" and pc: "w_pc (W i) = Back_cb f"
  shows "\<exists>s' w. run_back_cb s (W i) f = Inr (s', w) \<and> sch_inv T s' (W(i := w))"
proof -
  have ok: "worker_ok s (W i)" and q: "queue_ok s (runs T W)" using sch_invD [OF inv i] by auto
  obtain fb where fb: "sc_heap s f = Some fb" "f_stack fb"
    "f \<in> set (qfibers (m_fibers s)) \<longrightarrow> f_state fb = EXEC"
    "f_state fb \<in> {EXEC, READY, TERMINATED, EXCEPT}"
    using worker_okD(3) [OF ok, of f] pc by (auto simp: fstate_def)
  have cbf: "w_cb_fiber (W i) = Some f" using worker_okD(5) [OF ok] pc by simp
  have run: "pc_run (w_pc (W i)) = Some f" using pc by simp
  have idl: "w_idle (W i) \<in> {INIT, HOLD, TERMINATED}" using worker_okD(9) [OF ok] pc by simp
  note act = busy_positive [OF inv i, unfolded pc, simplified]
  define st where "st = f_state fb"
  define w where "w = (if ended st then (W i)\<lparr>w_pc := At_top\<rparr> else (W i)\<lparr>w_pc := At_top, w_cb_fiber := None\<rparr>)"
  have "\<exists>s'. run_back_cb s (W i) f = Inr (s', w) \<and>
    m_fibers s' = m_fibers s @ (if st = READY then [fiber_task f (-1)] else []) \<and>
    sc_heap s' = (if st = READY then sc_heap s else (sc_heap s)(f \<mapsto>
      (if ended st then fb\<lparr>f_cb := None, f_state := INIT\<rparr> else fb\<lparr>f_state := HOLD\<rparr>))) \<and>
    m_activeThreadCount s' = m_activeThreadCount s - 1 \<and> m_idleThreadCount s' = m_idleThreadCount s"
    using fb by (auto simp: run_back_cb_def Let_def fstate_def ended_def set_fstate_def
        reset_fiber_def st_def w_def)
  then obtain s' where s': "run_back_cb s (W i) f = Inr (s', w)"
    "m_fibers s' = m_fibers s @ (if st = READY then [fiber_task f (-1)] else [])"
    "sc_heap s' = (if st = READY then sc_heap s else (sc_heap s)(f \<mapsto>
      (if ended st then fb\<lparr>f_cb := None, f_state := INIT\<rparr> else fb\<lparr>f_state := HOLD\<rparr>)))"
    "m_activeThreadCount s' = m_activeThreadCount s - 1" "m_idleThreadCount s' = m_idleThreadCount s"
    by blast
  have q': "queue_ok s' (runs T (W(i := w)))"
    using q fb run by (intro queue_release [where f = f])
      (auto simp: s'(2,3) startable_def fstate_def st_def ended_def)
  have sp: "w_spare w = (if ended st then Some f else None)" "pc_picked (w_pc w) = None"
    "pc_run (w_pc w) = None" "pc_in (w_pc w) = None" "w_pc w = At_top" "w_idle w = w_idle (W i)"
    using cbf by (auto simp: w_def w_spare_def)
  have "sch_inv T s' (W(i := w))"
  proof (rule sch_inv_move [OF inv i])
    show "worker_ok s' w"
    proof (rule worker_okI)
      fix g assume "w_spare w = Some g"
      then show "(\<exists>fb. sc_heap s' g = Some fb \<and> f_stack fb \<and> f_state fb = INIT) \<and>
          g \<notin> set (qfibers (m_fibers s'))"
        using sp(1) fb s' by (auto simp: st_def ended_def split: if_splits)
    qed (use sp idl in auto)
  qed (use sp s' q' act pc in \<open>auto simp: own_def split: if_splits\<close>)
  then show ?thesis using s'(1) by blast
qed

lemma step_idle:
  assumes inv: "sch_inv T s W" and i: "i \<in> T" and pc: "w_pc (W i) = In_idle"
  shows "sch_inv T s (W(i := idle_round s (W i)))"
proof -
  have ok: "worker_ok s (W i)" and q: "queue_ok s (runs T W)" using sch_invD [OF inv i] by auto
  show ?thesis
  proof (rule sch_inv_move [OF inv i])
    show "worker_ok s (idle_round s (W i))"
      by (rule worker_okI) (use worker_okD [OF ok] pc in \<open>auto simp: idle_round_def w_spare_def\<close>)
    show "queue_ok s (runs T (W(i := idle_round s (W i))))"
      using queue_keep [OF q i] pc by simp
  qed (use pc in \<open>auto simp: own_def w_spare_def idle_round_def\<close>)
qed

lemma step_back_idle:
  assumes inv: "sch_inv T s W" and i: "i \<in> T" and pc: "w_pc (W i) = Back_idle"
    and run: "run_back_idle s (W i) = (s', w)"
  shows "sch_inv T s' (W(i := w))"
proof -
  have ok: "worker_ok s (W i)" and q: "queue_ok s (runs T W)" using sch_invD [OF inv i] by auto
  have s': "s' = s\<lparr>m_idleThreadCount := m_idleThreadCount s - 1\<rparr>"
    "w = (W i)\<lparr>w_pc := At_top, w_idle := (if ended (w_idle (W i)) then w_idle (W i) else HOLD)\<rparr>"
    using run by (auto simp: run_back_idle_def)
  show ?thesis
  proof (rule sch_inv_move [OF inv i])
    show "worker_ok s' w"
      by (rule worker_okI) (use worker_okD [OF ok] pc in \<open>auto simp: s' w_spare_def ended_def\<close>)
    show "queue_ok s' (runs T (W(i := w)))"
      using queue_keep [OF q i, of w] pc by (simp add: s' queue_ok_def)
  qed (use pc idle_positive [OF inv i] in \<open>auto simp: own_def w_spare_def s'\<close>)
qed

text \<open>The switch into the fiber \<open>f\<close>, which the worker picked, keeps as its spare, or just made.\<close>

lemma step_enter:
  assumes inv: "sch_inv T s W" and i: "i \<in> T" and pc: "w_pc (W i) = Picked (Some t)"
    and f: "f \<notin> set (qfibers (m_fibers s))" "f \<in> own (W i) \<or> (\<forall>j \<in> T. f \<notin> own (W j))"
    and w: "w = (W i)\<lparr>w_pc := In_fiber f\<rparr> \<and> w_cb_fiber (W i) \<noteq> Some f \<or>
      w = (W i)\<lparr>w_pc := In_cb f, w_cb_fiber := Some f\<rparr>"
    and st: "f_stack fb" "f_state fb = EXEC"
  shows "sch_inv T (s\<lparr>sc_heap := (sc_heap s)(f \<mapsto> fb)\<rparr>) (W(i := w))"
proof -
  let ?s = "s\<lparr>sc_heap := (sc_heap s)(f \<mapsto> fb)\<rparr>"
  have ok: "worker_ok s (W i)" and q: "queue_ok s (runs T W)" using sch_invD [OF inv i] by auto
  have old: "pc_run (w_pc (W i)) = None" "pc_cb (w_pc (W i)) = None" "w_spare (W i) = w_cb_fiber (W i)"
    using pc by (auto simp: w_spare_def)
  have new: "pc_run (w_pc w) = Some f" "pc_in (w_pc w) = Some f" "pc_picked (w_pc w) = None"
    "pc_busy (w_pc w)" "\<not> pc_idle (w_pc w)" "w_idle w = w_idle (W i)" "w_pc w \<noteq> Picked (Some u)"
    "w_pc w \<noteq> In_idle" "w_pc w \<noteq> Back_idle" "pc_cb (w_pc w) = Some g \<Longrightarrow> w_cb_fiber w = Some g"
    "w_spare w = Some g \<Longrightarrow> w_spare (W i) = Some g \<and> g \<noteq> f" for u g
    using w old by (auto simp: w_spare_def)
  have own: "own w \<subseteq> insert f (own (W i))" "f \<in> own w"
    using new(1,3,11) by (auto simp: own_def)
  show ?thesis
  proof (rule sch_inv_move [OF inv i])
    show "\<forall>g \<in> own w. g \<in> own (W i) \<or> (\<forall>j \<in> T. g \<notin> own (W j))" using own f(2) by blast
    show "\<forall>g. g \<notin> own (W i) \<union> own w \<longrightarrow> sc_heap ?s g = sc_heap s g" using own(2) by auto
    show "queue_ok ?s (runs T (W(i := w)))"
      using queue_heap_other [OF queue_keep [OF q i, of w] f(1)] old(1) by simp
    show "worker_ok ?s w"
    proof (rule worker_okI)
      fix g assume "pc_run (w_pc w) = Some g"
      then have "g = f" using new(1) by simp
      then show "(\<exists>fb. sc_heap ?s g = Some fb \<and> f_stack fb \<and> f_state fb \<in> {EXEC, READY, TERMINATED, EXCEPT}) \<and>
          (g \<in> set (qfibers (m_fibers ?s)) \<longrightarrow> fstate (sc_heap ?s) g = EXEC) \<and> w_spare w \<noteq> Some g"
        using st new(11) by auto
    next
      fix g assume "w_spare w = Some g"
      then show "(\<exists>fb. sc_heap ?s g = Some fb \<and> f_stack fb \<and> f_state fb = INIT) \<and>
          g \<notin> set (qfibers (m_fibers ?s))"
        using new(11) [of g] worker_okD(4) [OF ok, of g] by auto
    qed (use new st worker_okD(9) [OF ok] pc in auto)
  qed (use new pc in auto)
qed

lemma queue_ok_idle [simp]: "queue_ok (s\<lparr>m_idleThreadCount := n\<rparr>) R = queue_ok s R"
  by (simp add: queue_ok_def)

lemma step_dispatch_idle:
  assumes inv: "sch_inv T s W" and i: "i \<in> T" and pc: "w_pc (W i) = Picked None"
  shows "\<exists>s' w. dispatch_idle s (W i) = Inr (s', w) \<and> sch_inv T s' (W(i := w))"
proof -
  have ok: "worker_ok s (W i)" and q: "queue_ok s (runs T W)" using sch_invD [OF inv i] by auto
  have st: "w_idle (W i) \<in> {INIT, HOLD, TERMINATED}" using worker_okD(9) [OF ok] pc by simp
  define d where "d = (w_idle (W i) = TERMINATED)"
  let ?s = "if d then s else s\<lparr>m_idleThreadCount := m_idleThreadCount s + 1\<rparr>"
  let ?w = "if d then (W i)\<lparr>w_pc := Exited\<rparr> else (W i)\<lparr>w_pc := In_idle, w_idle := EXEC\<rparr>"
  have "dispatch_idle s (W i) = Inr (?s, ?w)" using st by (auto simp: dispatch_idle_def d_def)
  moreover have "sch_inv T ?s (W(i := ?w))"
  proof (rule sch_inv_move [OF inv i])
    show "worker_ok ?s ?w"
      by (rule worker_okI) (use worker_okD [OF ok] pc st in \<open>auto simp: w_spare_def d_def split: if_splits\<close>)
    show "queue_ok ?s (runs T (W(i := ?w)))"
      using queue_keep [OF q i, of ?w] pc by (cases d) simp_all
  qed (use pc in \<open>auto simp: own_def w_spare_def\<close>)
  ultimately show ?thesis by blast
qed

lemma step_dispatch:
  assumes inv: "sch_inv T s W" and i: "i \<in> T" and pc: "w_pc (W i) = Picked ft"
    and fresh: "fresh \<notin> dom (sc_heap s)"
  shows "\<exists>s' w. run_dispatch s (W i) ft fresh k sz = Inr (s', w) \<and> sch_inv T s' (W(i := w))"
proof (cases ft)
  case None
  then show ?thesis using step_dispatch_idle [OF inv i] pc by (simp add: run_dispatch_def)
next
  case (Some t)
  have ok: "worker_ok s (W i)" and q: "queue_ok s (runs T W)" using sch_invD [OF inv i] by auto
  note pct = pc [unfolded Some]
  have spare: "w_spare (W i) = w_cb_fiber (W i)" using pct by (simp add: w_spare_def)
  show ?thesis
  proof (cases "tk_fiber t")
    case (Some f)
    then obtain fb where fb: "sc_heap s f = Some fb" "f_stack fb" "f_state fb \<in> {INIT, HOLD, READY}"
      "f \<notin> set (qfibers (m_fibers s))" "w_cb_fiber (W i) \<noteq> Some f"
      using worker_okD(1) [OF ok, of f] pct spare by (auto simp: startable_def)
    let ?s = "s\<lparr>sc_heap := (sc_heap s)(f \<mapsto> fb\<lparr>f_state := EXEC\<rparr>)\<rparr>"
    have "run_dispatch s (W i) ft fresh k sz = Inr (?s, (W i)\<lparr>w_pc := In_fiber f\<rparr>)"
      using Some fb \<open>ft = Some t\<close>
      by (auto simp: run_dispatch_def live_fiber_def fstate_def ended_def swap_into_def swap_in_def
          resume_def)
    moreover have "sch_inv T ?s (W(i := (W i)\<lparr>w_pc := In_fiber f\<rparr>))"
      using step_enter [OF inv i pct fb(4)] fb Some pct by (simp add: own_def)
    ultimately show ?thesis by blast
  next
    case None
    then obtain c where c: "tk_cb t = Some c"
      using worker_okD(6) [OF ok pct] by (auto simp: real_task_def)
    have run: "run_dispatch s (W i) ft fresh k sz = dispatch_cb s (W i) c fresh k sz"
      using None c \<open>ft = Some t\<close> by (simp add: run_dispatch_def live_fiber_def)
    show ?thesis
    proof (cases "w_cb_fiber (W i)")
      case (Some f)
      then obtain fb where fb: "sc_heap s f = Some fb" "f_stack fb" "f_state fb = INIT"
        "f \<notin> set (qfibers (m_fibers s))" "f \<in> own (W i)"
        using worker_okD(4) [OF ok, of f] spare by (auto simp: own_def)
      let ?fb = "fb\<lparr>f_cb := Some c, f_state := EXEC\<rparr>"
      let ?s = "s\<lparr>sc_heap := (sc_heap s)(f \<mapsto> ?fb)\<rparr>"
      have same: "(W i)\<lparr>w_pc := In_cb f, w_cb_fiber := Some f\<rparr> = (W i)\<lparr>w_pc := In_cb f\<rparr>"
        using Some by (cases "W i") simp
      have "dispatch_cb s (W i) c fresh k sz = Inr (?s, (W i)\<lparr>w_pc := In_cb f\<rparr>)"
        using Some fb by (simp add: dispatch_cb_def reset_fiber_def swap_into_def swap_in_def resume_def)
      moreover have "sch_inv T ?s (W(i := (W i)\<lparr>w_pc := In_cb f\<rparr>))"
        using step_enter [OF inv i pct fb(4), of "(W i)\<lparr>w_pc := In_cb f\<rparr>" ?fb] fb same by auto
      ultimately show ?thesis using run by auto
    next
      case None
      let ?fb = "(new_fiber k sz (Some c))\<lparr>f_state := EXEC\<rparr>"
      let ?s = "s\<lparr>sc_heap := (sc_heap s)(fresh \<mapsto> ?fb)\<rparr>"
      let ?w = "(W i)\<lparr>w_pc := In_cb fresh, w_cb_fiber := Some fresh\<rparr>"
      have "fresh \<notin> set (qfibers (m_fibers s))" using q fresh by (auto simp: queue_ok_def)
      moreover have "fresh \<notin> own (W j)" if "j \<in> T" for j
        using worker_okD(1,3,4) [OF sch_invD(1) [OF inv that], of fresh] fresh
        by (auto simp: own_def startable_def)
      ultimately have "sch_inv T ?s (W(i := ?w))"
        using step_enter [OF inv i pct, of fresh ?w ?fb] by (simp add: new_fiber_def)
      moreover have "dispatch_cb s (W i) c fresh k sz = Inr (?s, ?w)"
        using None by (simp add: dispatch_cb_def swap_into_def swap_in_def resume_def new_fiber_def)
      ultimately show ?thesis using run by auto
    qed
  qed
qed

lemma sch_step_inv: "sch_step T (s, W) (s', W') \<Longrightarrow> sch_inv T s W \<Longrightarrow> sch_inv T s' W'"
proof (induction "(s, W)" "(s', W')" rule: sch_step.induct)
  case (st_pick i w)
  then show ?case using step_pick [of T s W i] by auto
next
  case (st_dispatch i ft fresh k sz w)
  then show ?case using step_dispatch [of T s W i ft fresh k sz] by auto
next
  case (st_leave_fiber i f fb r fb')
  then show ?case using step_leave [of T s W i f "Back_fiber f" fb r fb'] by auto
next
  case (st_leave_cb i f fb r fb')
  then show ?case using step_leave [of T s W i f "Back_cb f" fb r fb'] by auto
next
  case (st_back_cb i f w)
  then show ?case using step_back_cb [of T s W i f] by auto
qed (auto intro: step_back_fiber step_idle step_back_idle step_wake step_post step_create step_flags)

lemma sch_reach_inv:
  "(sch_step T)\<^sup>*\<^sup>* (s, W) (s', W') \<Longrightarrow> sch_inv T s W \<Longrightarrow> sch_inv T s' W'"
  by (induction "(s', W')" arbitrary: s' W' rule: rtranclp_induct)
    (auto intro: sch_step_inv)

text \<open>The workers at the start of their threads, with nothing scheduled.\<close>

definition new_worker :: "'f worker" where
  "new_worker = \<lparr>w_pc = At_top, w_cb_fiber = None, w_idle = INIT\<rparr>"

lemma sch_inv_start:
  assumes "finite T" "Scheduler n uc ts a tid = Inr s0" "Start s0 ids = Inr s"
  shows "sch_inv T s (\<lambda>_. new_worker)"
proof -
  have "m_fibers s = []" "m_activeThreadCount s = 0" "m_idleThreadCount s = 0"
    using assms by (auto simp: Scheduler_def Start_def split: if_splits)
  moreover have "worker_ok s new_worker"
    by (rule worker_okI) (auto simp: new_worker_def w_spare_def)
  ultimately show ?thesis
    using assms(1)
    by (auto simp: sch_inv_def queue_ok_def tally_def own_def new_worker_def w_spare_def)
qed

lemma started_inv:
  assumes "finite T" "Scheduler n uc ts a tid = Inr s0" "Start s0 ids = Inr s1"
    "(sch_step T)\<^sup>*\<^sup>* (s1, \<lambda>_. new_worker) (s, W)"
  shows "sch_inv T s W"
  using sch_reach_inv [OF assms(4)] sch_inv_start [OF assms(1-3)] by blast

lemma tally_card: "finite T \<Longrightarrow> tally P T W = card {i \<in> T. P (w_pc (W i))}"
  by (simp add: tally_def sum.If_cases Int_def)

section \<open>Properties\<close>

text \<open>
  C4: The scheduler's threads do not get in each other's way. Started with any number of workers,
  and however their steps, the running fibers and the clients' calls interleave (clients waking a
  sleeping fiber at most once per sleep), no assertion of the loop ever fails: the queue holds no
  empty task, every fiber switched to can be started, a spare fiber can be reset, and no fiber runs
  on two threads at once.
\<close>

theorem scheduler_no_assert:
  assumes "finite T" "Scheduler n uc ts a tid = Inr s0" "Start s0 ids = Inr s1"
    "(sch_step T)\<^sup>*\<^sup>* (s1, \<lambda>_. new_worker) (s, W)" "i \<in> T"
  shows "(w_pc (W i) = At_top \<longrightarrow> (\<exists>r. run_pick s (W i) i = Inr r)) \<and>
    (\<forall>ft fresh. w_pc (W i) = Picked ft \<and> fresh \<notin> dom (sc_heap s) \<longrightarrow>
       (\<exists>r. run_dispatch s (W i) ft fresh k sz = Inr r)) \<and>
    (\<forall>f. w_pc (W i) = Back_cb f \<longrightarrow> (\<exists>r. run_back_cb s (W i) f = Inr r)) \<and>
    (\<forall>j \<in> T. \<forall>f. pc_run (w_pc (W i)) = Some f \<and> pc_run (w_pc (W j)) = Some f \<longrightarrow> i = j)"
proof -
  have inv: "sch_inv T s W" using started_inv [OF assms(1-4)] .
  have "own (W i) \<inter> own (W j) = {}" if "j \<in> T" "i \<noteq> j" for j
    using inv that assms(5) by (auto simp: sch_inv_def)
  then show ?thesis
    using step_pick [OF inv assms(5)] step_dispatch [OF inv assms(5)] step_back_cb [OF inv assms(5)]
    by (fastforce simp: own_def)
qed

theorem scheduler_no_assert_witness:
  "\<exists>s0 s1. Scheduler 2 False False 0 7 = Inr s0 \<and> Start s0 [1, 2] = Inr (s1 :: string sched) \<and>
    (\<exists>r. run_pick (schedule s1 (cb_task ''job'' (-1))) new_worker 1 = Inr r)"
proof -
  obtain s0 s1 where s: "Scheduler 2 False False 0 7 = Inr s0" "Start s0 [1, 2] = Inr (s1 :: string sched)"
    by (simp add: Scheduler_def Start_def)
  have "(sch_step {1, 2})\<^sup>*\<^sup>* (s1, \<lambda>_. new_worker) (schedule s1 (cb_task ''job'' (-1)), \<lambda>_. new_worker)"
    using st_post by (rule r_into_rtranclp)
  from scheduler_no_assert [OF _ s this, of 1] s show ?thesis
    by (auto simp: new_worker_def)
qed





text \<open>
  Waking a sleeping fiber twice breaks the scheduler. The queue then has two tasks for it; two
  threads can both pick one, because a picked fiber is not marked as executing until its thread
  switches to it; and the second thread's switch fails the assertion that the fiber is not executing.
\<close>

theorem double_wake_asserts:
  assumes "sc_heap s f = Some fb" "f_state fb = HOLD"
    "m_fibers s = [fiber_task f (-1), fiber_task f (-1)]"
  shows "\<exists>s1 s2 s3 v1 w1 v2. run_pick s v t1 = Inr (s1, v1) \<and> run_pick s1 w t2 = Inr (s2, w1) \<and>
    run_dispatch s2 v1 (Some (fiber_task f (-1))) n k sz = Inr (s3, v2) \<and>
    run_dispatch s3 w1 (Some (fiber_task f (-1))) n' k' sz' = Inl (Assert_fail ''m_state != EXEC'')"
proof -
  let ?t = "fiber_task f (-1)" and ?n = "m_activeThreadCount s"
  let ?s1 = "trickle (s\<lparr>m_fibers := [?t], m_activeThreadCount := ?n + 1\<rparr>)"
  let ?s2 = "?s1\<lparr>m_fibers := [], m_activeThreadCount := ?n + 1 + 1\<rparr>"
  let ?s3 = "?s2\<lparr>sc_heap := (sc_heap s)(f \<mapsto> fb\<lparr>f_state := EXEC\<rparr>)\<rparr>"
  let ?v1 = "v\<lparr>w_pc := Picked (Some ?t)\<rparr>" and ?w1 = "w\<lparr>w_pc := Picked (Some ?t)\<rparr>"
  have "run_pick s v t1 = Inr (?s1, ?v1)" "run_pick ?s1 w t2 = Inr (?s2, ?w1)"
    using assms by (simp_all add: run_pick_def Let_def fiber_task_def fstate_def)
  moreover have "run_dispatch ?s2 ?v1 (Some ?t) n k sz = Inr (?s3, ?v1\<lparr>w_pc := In_fiber f\<rparr>)"
    "run_dispatch ?s3 ?w1 (Some ?t) n' k' sz' = Inl (Assert_fail ''m_state != EXEC'')"
    using assms
    by (simp_all add: run_dispatch_def live_fiber_def ended_def swap_into_def swap_in_def resume_def fstate_def)
  ultimately show ?thesis by blast
qed

theorem double_wake_asserts_witness:
  "\<exists>s0 s s1 v1. Scheduler 1 True False 5 7 = Inr s0 \<and>
    s = schedule (schedule (s0\<lparr>sc_heap := Map.empty(3 \<mapsto> (new_fiber 1 8 (Some ''cb''))\<lparr>f_state := HOLD\<rparr>)\<rparr>)
      (fiber_task 3 (-1))) (fiber_task 3 (-1)) \<and>
    run_pick s new_worker 1 = Inr (s1, v1)"
proof -
  obtain s0 :: "string sched" where s0: "Scheduler 1 True False 5 7 = Inr s0" "m_fibers s0 = []"
    by (simp add: Scheduler_def)
  let ?s = "schedule (schedule (s0\<lparr>sc_heap :=
      Map.empty(3 \<mapsto> (new_fiber 1 8 (Some ''cb''))\<lparr>f_state := HOLD\<rparr>)\<rparr>)
      (fiber_task 3 (-1))) (fiber_task 3 (-1))"
  have "\<exists>s1 s2 s3 v1 w1 v2. run_pick ?s new_worker 1 = Inr (s1, v1) \<and>
      run_pick s1 new_worker 2 = Inr (s2, w1) \<and>
      run_dispatch s2 v1 (Some (fiber_task 3 (-1))) 0 0 0 = Inr (s3, v2) \<and>
      run_dispatch s3 w1 (Some (fiber_task 3 (-1))) 0 0 0 = Inl (Assert_fail ''m_state != EXEC'')"
    by (rule double_wake_asserts [of _ _ "(new_fiber 1 8 (Some ''cb''))\<lparr>f_state := HOLD\<rparr>"])
      (simp_all add: s0)
  then show ?thesis using s0(1) by blast
qed

end
