(* ===== verification/Sylar_Ordered.thy ===== *)
theory Sylar_Ordered
  imports Sylar_Prelude
begin

text \<open>
  The ordered containers the sources use, \<^verbatim>\<open>std::set\<close> and \<^verbatim>\<open>std::map\<close>, as lists sorted by the
  container's comparator, in iteration order. Elements that the comparator does not separate count
  as the same element, as in the standard library. The laws hold for every strict weak order; the
  theories that use a container interpret the locale \<open>strict_weak\<close> on their comparator.
\<close>

section \<open>Sets\<close>

fun oset_insert :: "('a \<Rightarrow> 'a \<Rightarrow> bool) \<Rightarrow> 'a \<Rightarrow> 'a list \<Rightarrow> 'a list" where
  "oset_insert lt x [] = [x]"
| "oset_insert lt x (y # ys) =
     (if lt x y then x # y # ys else if lt y x then y # oset_insert lt x ys else y # ys)"

fun oset_find :: "('a \<Rightarrow> 'a \<Rightarrow> bool) \<Rightarrow> 'a \<Rightarrow> 'a list \<Rightarrow> 'a option" where
  "oset_find lt x [] = None"
| "oset_find lt x (y # ys) =
     (if lt x y then None else if lt y x then oset_find lt x ys else Some y)"

fun oset_erase :: "('a \<Rightarrow> 'a \<Rightarrow> bool) \<Rightarrow> 'a \<Rightarrow> 'a list \<Rightarrow> 'a list" where
  "oset_erase lt x [] = []"
| "oset_erase lt x (y # ys) =
     (if lt x y then y # ys else if lt y x then y # oset_erase lt x ys else ys)"

text \<open>\<open>lower_bound\<close> as the part of the container before the iterator and the part from it on.\<close>

definition oset_lower_bound :: "('a \<Rightarrow> 'a \<Rightarrow> bool) \<Rightarrow> 'a \<Rightarrow> 'a list \<Rightarrow> 'a list \<times> 'a list" where
  "oset_lower_bound lt x xs = (takeWhile (\<lambda>y. lt y x) xs, dropWhile (\<lambda>y. lt y x) xs)"

section \<open>Maps\<close>

fun omap_get :: "('k \<Rightarrow> 'k \<Rightarrow> bool) \<Rightarrow> 'k \<Rightarrow> ('k \<times> 'v) list \<Rightarrow> 'v option" where
  "omap_get lt k [] = None"
| "omap_get lt k ((k', v') # m) =
     (if lt k k' then None else if lt k' k then omap_get lt k m else Some v')"

text \<open>\<open>m[k] = v\<close>: an existing key object stays, only its value changes.\<close>

fun omap_put :: "('k \<Rightarrow> 'k \<Rightarrow> bool) \<Rightarrow> 'k \<Rightarrow> 'v \<Rightarrow> ('k \<times> 'v) list \<Rightarrow> ('k \<times> 'v) list" where
  "omap_put lt k v [] = [(k, v)]"
| "omap_put lt k v ((k', v') # m) =
     (if lt k k' then (k, v) # (k', v') # m
      else if lt k' k then (k', v') # omap_put lt k v m
      else (k', v) # m)"

fun omap_del :: "('k \<Rightarrow> 'k \<Rightarrow> bool) \<Rightarrow> 'k \<Rightarrow> ('k \<times> 'v) list \<Rightarrow> ('k \<times> 'v) list" where
  "omap_del lt k [] = []"
| "omap_del lt k ((k', v') # m) =
     (if lt k k' then (k', v') # m else if lt k' k then (k', v') # omap_del lt k m else m)"

section \<open>The laws\<close>

locale strict_weak =
  fixes lt :: "'a \<Rightarrow> 'a \<Rightarrow> bool"
  assumes lt_irrefl: "\<not> lt x x"
    and lt_trans: "lt x y \<Longrightarrow> lt y z \<Longrightarrow> lt x z"
    and lt_cotrans: "lt x z \<Longrightarrow> lt x y \<or> lt y z"
begin

definition eqv :: "'a \<Rightarrow> 'a \<Rightarrow> bool" where
  "eqv x y \<longleftrightarrow> \<not> lt x y \<and> \<not> lt y x"

definition osorted :: "'a list \<Rightarrow> bool" where
  "osorted xs \<longleftrightarrow> sorted_wrt lt xs"

definition okeys :: "('a \<times> 'v) list \<Rightarrow> bool" where
  "okeys m \<longleftrightarrow> sorted_wrt lt (map fst m)"

lemma lt_asym: "lt x y \<Longrightarrow> \<not> lt y x"
  using lt_irrefl lt_trans by blast

lemma eqv_lt: "eqv x y \<Longrightarrow> lt x z = lt y z" "eqv x y \<Longrightarrow> lt z x = lt z y"
  using lt_cotrans by (auto simp: eqv_def)

lemma set_oset_insert: "set (oset_insert lt x xs) \<subseteq> insert x (set xs)"
  and oset_insert_keeps: "set xs \<subseteq> set (oset_insert lt x xs)"
  by (induction xs) auto

lemma osorted_insert: "osorted xs \<Longrightarrow> osorted (oset_insert lt x xs)"
  unfolding osorted_def
proof (induction xs)
  case (Cons y ys)
  then show ?case
    using set_oset_insert [of x ys] by (auto intro: lt_trans)
qed simp

lemma oset_insert_new:
  "\<forall>y \<in> set xs. \<not> eqv x y \<Longrightarrow> set (oset_insert lt x xs) = insert x (set xs)"
  by (induction xs) (auto simp: eqv_def)

text \<open>How an element compares to the head of a sorted container, and then to the rest of it.\<close>

lemma lt_cases:
  obtains "lt x y" "\<not> eqv x y" | "lt y x" "\<not> lt x y" "\<not> eqv x y"
    | "eqv x y" "\<not> lt x y" "\<not> lt y x"
  using lt_asym by (auto simp: eqv_def)

lemma before_all: "osorted (y # ys) \<Longrightarrow> lt x y \<Longrightarrow> z \<in> set (y # ys) \<Longrightarrow> lt x z \<and> \<not> eqv x z"
  using lt_trans by (auto simp: eqv_def osorted_def)

lemma eqv_hd: "osorted (y # ys) \<Longrightarrow> eqv x y \<Longrightarrow> z \<in> set ys \<Longrightarrow> lt x z \<and> \<not> eqv x z"
  using eqv_lt(1) [of x y z] by (auto simp: eqv_def osorted_def)

lemma osorted_tl: "osorted (y # ys) \<Longrightarrow> osorted ys"
  by (simp add: osorted_def)

lemma set_oset_erase: "osorted xs \<Longrightarrow> set (oset_erase lt x xs) = {y \<in> set xs. \<not> eqv x y}"
proof (induction xs)
  case (Cons y ys)
  show ?case
  proof (cases rule: lt_cases [of x y])
    case 1
    then show ?thesis using before_all [OF Cons.prems 1(1)] by auto
  next
    case 2
    then show ?thesis using Cons osorted_tl by auto
  next
    case 3
    then show ?thesis using eqv_hd [OF Cons.prems 3(1)] by auto
  qed
qed simp

lemma osorted_erase: "osorted xs \<Longrightarrow> osorted (oset_erase lt x xs)"
  unfolding osorted_def
proof (induction xs)
  case (Cons y ys)
  then show ?case
    using set_oset_erase [of ys x] by (auto simp: osorted_def)
qed simp

lemma oset_find_iff: "osorted xs \<Longrightarrow> oset_find lt x xs = Some y \<longleftrightarrow> y \<in> set xs \<and> eqv x y"
proof (induction xs)
  case (Cons z zs)
  show ?case
  proof (cases rule: lt_cases [of x z])
    case 1
    then show ?thesis using before_all [OF Cons.prems 1(1)] by auto
  next
    case 2
    then show ?thesis using Cons osorted_tl by auto
  next
    case 3
    then show ?thesis using eqv_hd [OF Cons.prems 3(1)] by auto
  qed
qed simp

lemma oset_find_None: "osorted xs \<Longrightarrow> oset_find lt x xs = None \<longleftrightarrow> (\<forall>y \<in> set xs. \<not> eqv x y)"
  using oset_find_iff [of xs x] by (cases "oset_find lt x xs") auto

text \<open>The first element of a sorted container is a least one.\<close>

lemma osorted_hd: "osorted (x # xs) \<Longrightarrow> y \<in> set xs \<Longrightarrow> lt x y"
  by (simp add: osorted_def)

text \<open>The part before \<open>lower_bound\<close> are the smaller elements, the part behind it the others.\<close>

lemma set_takeWhile_lt:
  "osorted xs \<Longrightarrow> set (takeWhile (\<lambda>y. lt y x) xs) = {y \<in> set xs. lt y x} \<and>
   set (dropWhile (\<lambda>y. lt y x) xs) = {y \<in> set xs. \<not> lt y x}"
proof (induction xs)
  case (Cons y ys)
  show ?case
  proof (cases "lt y x")
    case True
    then show ?thesis using Cons.IH [OF osorted_tl [OF Cons.prems]] by auto
  next
    case False
    then have "\<not> lt z x" if "z \<in> set ys" for z
      using osorted_hd [OF Cons.prems that] lt_trans by blast
    then show ?thesis using False by auto
  qed
qed simp

lemma oset_lower_bound_split:
  assumes "osorted xs" "oset_lower_bound lt x xs = (as, bs)"
  shows "xs = as @ bs" "set as = {y \<in> set xs. lt y x}" "set bs = {y \<in> set xs. \<not> lt y x}"
  using assms set_takeWhile_lt [of xs x] by (auto simp: oset_lower_bound_def)

lemma okeys_simps [simp]:
  "okeys []" "okeys ((k, v) # m) \<longleftrightarrow> (\<forall>(k', v') \<in> set m. lt k k') \<and> okeys m"
  by (auto simp: okeys_def)

lemma omap_get_iff:
  "okeys m \<Longrightarrow> omap_get lt k m = Some v \<longleftrightarrow> (\<exists>k'. (k', v) \<in> set m \<and> eqv k k')"
proof (induction m)
  case (Cons p m)
  obtain j w where p: "p = (j, w)" by force
  consider "lt k j" | "lt j k" "\<not> lt k j" | "eqv k j" "\<not> lt k j" "\<not> lt j k"
    by (auto simp: eqv_def)
  then show ?case
  proof cases
    case 1
    then have "\<not> eqv k k'" if "(k', v') \<in> set (p # m)" for k' v'
      using Cons.prems that p lt_trans by (auto simp: eqv_def)
    then show ?thesis using 1 p by auto
  next
    case 2
    then show ?thesis using Cons p by (auto simp: eqv_def)
  next
    case 3
    then have "\<not> eqv k k'" if "(k', v') \<in> set m" for k' v'
      using Cons.prems that p eqv_lt(1) [OF 3(1)] by (auto simp: eqv_def)
    then show ?thesis using 3 p by auto
  qed
qed simp

lemma omap_get_eqv: "eqv k j \<Longrightarrow> omap_get lt k m = omap_get lt j m"
  by (induction m) (auto simp: eqv_lt)

lemma set_omap_put: "(k', v') \<in> set (omap_put lt k v m) \<Longrightarrow>
    (k' = k \<and> v' = v) \<or> (k', v') \<in> set m \<or> (eqv k k' \<and> v' = v \<and> k' \<in> fst ` set m)"
  by (induction m) (auto simp: eqv_def split: if_splits intro: rev_image_eqI)

lemma okeys_put: "okeys m \<Longrightarrow> okeys (omap_put lt k v m)"
proof (induction m)
  case (Cons p m)
  obtain j w where p: "p = (j, w)" by force
  have "lt j k'" if "lt j k" "(k', v') \<in> set (omap_put lt k v m)" for k' v'
    using set_omap_put [OF that(2)] that(1) Cons.prems p by auto
  then show ?case using Cons p by (auto intro: lt_trans)
qed simp

lemma omap_get_put_same: "omap_get lt k (omap_put lt k v m) = Some v"
  by (induction m) (auto simp: lt_irrefl)

lemma omap_get_put_other: "\<not> eqv k j \<Longrightarrow> okeys m \<Longrightarrow> omap_get lt k (omap_put lt j v m) = omap_get lt k m"
proof (induction m)
  case (Cons p m)
  obtain i w where p: "p = (i, w)" by force
  consider "lt j i" | "lt i j" "\<not> lt j i" | "eqv j i" "\<not> lt j i" "\<not> lt i j"
    by (auto simp: eqv_def)
  then show ?case
  proof cases
    case 1
    then show ?thesis using Cons.prems(1) p lt_trans [of k j i] by (auto simp add: eqv_def)
  next
    case 2
    then show ?thesis using Cons p by simp
  next
    case 3
    then show ?thesis
      using Cons.prems(1) p eqv_lt(1) [OF 3(1), of k] eqv_lt(2) [OF 3(1), of k] by (auto simp add: eqv_def)
  qed
qed (auto simp: eqv_def)

text \<open>Reading a map after writing to it.\<close>

lemma omap_get_put: "okeys m \<Longrightarrow> omap_get lt k (omap_put lt j v m) =
    (if eqv k j then Some v else omap_get lt k m)"
  using omap_get_eqv [of k j "omap_put lt j v m"] omap_get_put_same omap_get_put_other by auto

lemma set_omap_del: "x \<in> set (omap_del lt k m) \<Longrightarrow> x \<in> set m"
  by (induction m) (auto split: if_splits)

lemma okeys_del: "okeys m \<Longrightarrow> okeys (omap_del lt k m)"
  by (induction m) (fastforce dest: set_omap_del)+

lemma omap_get_None: "\<forall>(k', v') \<in> set m. lt k k' \<Longrightarrow> omap_get lt k m = None"
  by (cases m) auto

lemma omap_get_del: "okeys m \<Longrightarrow> omap_get lt k (omap_del lt j m) =
    (if eqv k j then None else omap_get lt k m)"
proof (induction m)
  case (Cons p m)
  obtain i w where p: "p = (i, w)" by force
  have i_none: "omap_get lt i m = None"
    using Cons.prems p by (intro omap_get_None) auto
  have k_none: "omap_get lt k m = None" if "lt k i"
    using Cons.prems p that lt_trans by (intro omap_get_None) auto
  consider "lt j i" | "lt i j" "\<not> lt j i" | "eqv j i" "\<not> lt j i" "\<not> lt i j"
    by (auto simp: eqv_def)
  then show ?case
  proof cases
    case 1
    then show ?thesis using p eqv_lt(1) [of k j i] by simp
  next
    case 2
    then show ?thesis using Cons p eqv_lt [of k j i] by simp
  next
    case 3
    note ji = eqv_lt(1) [OF 3(1), of k] eqv_lt(2) [OF 3(1), of k]
    show ?thesis
    proof (cases rule: lt_cases [of k i])
      case 1
      then show ?thesis using p 3 ji k_none by (simp add: eqv_def)
    next
      case 2
      then show ?thesis using p 3 ji by (simp add: eqv_def)
    next
      case k: 3
      then show ?thesis using p 3 ji i_none omap_get_eqv [OF k(1), of m] by (simp add: eqv_def)
    qed
  qed
qed simp

end

end
