(* ===== verification/Sylar_Timer.thy ===== *)
theory Sylar_Timer
  imports Sylar_Ordered
begin

text \<open>
  Timers (\<^verbatim>\<open>sylar/timer.cpp\<close>). A manager keeps the armed timers in a \<^verbatim>\<open>std::set\<close> of pointers ordered
  by expiry time and then by address. The timers themselves live on the heap, because clients hold
  pointers to them and change their keys: \<open>tm_heap\<close> maps addresses to timers, and the set is the
  sorted list of addresses. Times are the 64-bit words of the code and wrap around. The clock
  (\<^verbatim>\<open>GetCurrentMS\<close>) and the addresses the allocator chooses are arguments. Every public operation
  runs under the manager's lock, so one operation is one step.

  \<^verbatim>\<open>onTimerInsertedAtFront\<close>, which the manager's subclass implements, is a flag in the results.
\<close>

section \<open>State\<close>

text \<open>A callback is a function of the client, or one bound to a weak pointer by \<open>addConditionTimer\<close>.\<close>

datatype 'f callback = Direct 'f | OnTimer nat 'f

record 'f timer =
  m_recurring :: bool
  m_ms :: u64
  m_next :: u64
  m_cb :: "'f callback option"

record 'f timer_manager =
  tm_heap :: "nat \<Rightarrow> 'f timer option"
  m_timers :: "nat list"
  m_trickled :: bool
  m_previouseTime :: u64

definition TimerManager :: "u64 \<Rightarrow> 'f timer_manager" where
  "TimerManager now =
    \<lparr>tm_heap = (\<lambda>_. None), m_timers = [], m_trickled = False, m_previouseTime = now\<rparr>"

text \<open>What running a callback calls, when the weak pointers in \<open>alive\<close> can still be locked.\<close>

definition run_callback :: "(nat \<Rightarrow> bool) \<Rightarrow> 'f callback \<Rightarrow> 'f option" where
  "run_callback alive cb =
    (case cb of Direct f \<Rightarrow> Some f | OnTimer w f \<Rightarrow> (if alive w then Some f else None))"

section \<open>The order of the set\<close>

definition next_of :: "(nat \<Rightarrow> 'f timer option) \<Rightarrow> nat \<Rightarrow> u64" where
  "next_of h a = (case h a of None \<Rightarrow> 0 | Some t \<Rightarrow> m_next t)"

definition Comparator :: "(nat \<Rightarrow> 'f timer option) \<Rightarrow> nat option \<Rightarrow> nat option \<Rightarrow> bool" where
  "Comparator h lhs rhs =
    (case (lhs, rhs) of
       (None, None) \<Rightarrow> False
     | (None, Some _) \<Rightarrow> True
     | (Some _, None) \<Rightarrow> False
     | (Some a, Some b) \<Rightarrow>
         if next_of h a < next_of h b then True
         else if next_of h a > next_of h b then False
         else a < b)"

definition tlt :: "(nat \<Rightarrow> 'f timer option) \<Rightarrow> nat \<Rightarrow> nat \<Rightarrow> bool" where
  "tlt h a b = Comparator h (Some a) (Some b)"

section \<open>Operations of a timer\<close>

definition cancel :: "'f timer_manager \<Rightarrow> nat \<Rightarrow> (bool \<times> 'f timer_manager) res" where
  "cancel tm a =
    (case tm_heap tm a of
       None \<Rightarrow> Inl Null_deref
     | Some t \<Rightarrow>
        (if m_cb t \<noteq> None then
           let h = (tm_heap tm)(a \<mapsto> t\<lparr>m_cb := None\<rparr>) in
           case oset_find (tlt h) a (m_timers tm) of
             None \<Rightarrow> Inl (Undefined ''erase(end())'')
           | Some _ \<Rightarrow>
               Inr (True, tm\<lparr>tm_heap := h, m_timers := oset_erase (tlt h) a (m_timers tm)\<rparr>)
         else Inr (False, tm)))"

definition refresh :: "'f timer_manager \<Rightarrow> u64 \<Rightarrow> nat \<Rightarrow> (bool \<times> 'f timer_manager) res" where
  "refresh tm now a =
    (case tm_heap tm a of
       None \<Rightarrow> Inl Null_deref
     | Some t \<Rightarrow>
        (if m_cb t = None then Inr (False, tm)
         else case oset_find (tlt (tm_heap tm)) a (m_timers tm) of
           None \<Rightarrow> Inr (False, tm)
         | Some _ \<Rightarrow>
             let ts = oset_erase (tlt (tm_heap tm)) a (m_timers tm);
                 h = (tm_heap tm)(a \<mapsto> t\<lparr>m_next := now + m_ms t\<rparr>)
             in Inr (True, tm\<lparr>tm_heap := h, m_timers := oset_insert (tlt h) a ts\<rparr>)))"

text \<open>The protected \<open>addTimer(val, lock)\<close>: whether the front changed and the waiter is to be woken.\<close>

definition addTimer_locked :: "'f timer_manager \<Rightarrow> nat \<Rightarrow> bool \<times> 'f timer_manager" where
  "addTimer_locked tm val =
    (let ts = oset_insert (tlt (tm_heap tm)) val (m_timers tm);
         at_front = (hd ts = val \<and> \<not> m_trickled tm)
     in (at_front,
         tm\<lparr>m_timers := ts, m_trickled := (if at_front then True else m_trickled tm)\<rparr>))"

definition reset ::
  "'f timer_manager \<Rightarrow> u64 \<Rightarrow> nat \<Rightarrow> u64 \<Rightarrow> bool \<Rightarrow> (bool \<times> bool \<times> 'f timer_manager) res"
where
  "reset tm now a ms from_now =
    (case tm_heap tm a of
       None \<Rightarrow> Inl Null_deref
     | Some t \<Rightarrow>
        (if ms = m_ms t \<and> \<not> from_now then Inr (True, False, tm)
         else if m_cb t = None then Inr (False, False, tm)
         else case oset_find (tlt (tm_heap tm)) a (m_timers tm) of
           None \<Rightarrow> Inr (False, False, tm)
         | Some _ \<Rightarrow>
             let ts = oset_erase (tlt (tm_heap tm)) a (m_timers tm);
                 start = (if from_now then now else m_next t - m_ms t);
                 h = (tm_heap tm)(a \<mapsto> t\<lparr>m_ms := ms, m_next := start + ms\<rparr>);
                 (notify, tm') = addTimer_locked (tm\<lparr>tm_heap := h, m_timers := ts\<rparr>) a
             in Inr (True, notify, tm')))"

section \<open>Operations of the manager\<close>

definition Timer :: "u64 \<Rightarrow> u64 \<Rightarrow> 'f callback option \<Rightarrow> bool \<Rightarrow> 'f timer" where
  "Timer now ms cb recurring =
    \<lparr>m_recurring = recurring, m_ms = ms, m_next = now + ms, m_cb = cb\<rparr>"

definition addTimer ::
  "'f timer_manager \<Rightarrow> u64 \<Rightarrow> nat \<Rightarrow> u64 \<Rightarrow> 'f callback option \<Rightarrow> bool \<Rightarrow>
   nat \<times> bool \<times> 'f timer_manager"
where
  "addTimer tm now a ms cb recurring =
    (let (notify, tm') =
       addTimer_locked (tm\<lparr>tm_heap := (tm_heap tm)(a \<mapsto> Timer now ms cb recurring)\<rparr>) a
     in (a, notify, tm'))"

definition addConditionTimer ::
  "'f timer_manager \<Rightarrow> u64 \<Rightarrow> nat \<Rightarrow> u64 \<Rightarrow> 'f \<Rightarrow> nat \<Rightarrow> bool \<Rightarrow> nat \<times> bool \<times> 'f timer_manager"
where
  "addConditionTimer tm now a ms cb weak_cond recurring =
    addTimer tm now a ms (Some (OnTimer weak_cond cb)) recurring"

definition getNextTimer :: "'f timer_manager \<Rightarrow> u64 \<Rightarrow> u64 \<times> 'f timer_manager" where
  "getNextTimer tm now_ms =
    (let tm' = tm\<lparr>m_trickled := False\<rparr> in
     case m_timers tm of
       [] \<Rightarrow> (NOT 0, tm')
     | a # _ \<Rightarrow>
        (if now_ms \<ge> next_of (tm_heap tm) a then (0, tm')
         else (next_of (tm_heap tm) a - now_ms, tm')))"

definition detectClockRollover :: "'f timer_manager \<Rightarrow> u64 \<Rightarrow> bool \<times> 'f timer_manager" where
  "detectClockRollover tm now_ms =
    (let rollover =
       (now_ms < m_previouseTime tm \<and> now_ms < m_previouseTime tm - 60 * 60 * 1000)
     in (rollover, tm\<lparr>m_previouseTime := now_ms\<rparr>))"

text \<open>The final loop of \<open>listExpiredCb\<close> over the expired timers.\<close>

fun expire_all ::
  "u64 \<Rightarrow> nat list \<Rightarrow> 'f timer_manager \<Rightarrow> ('f callback option list \<times> 'f timer_manager) res"
where
  "expire_all now_ms [] tm = Inr ([], tm)"
| "expire_all now_ms (a # as) tm =
     (case tm_heap tm a of
        None \<Rightarrow> Inl Null_deref
      | Some t \<Rightarrow>
          let tm1 =
            (if m_recurring t then
               let h = (tm_heap tm)(a \<mapsto> t\<lparr>m_next := now_ms + m_ms t\<rparr>) in
               tm\<lparr>tm_heap := h, m_timers := oset_insert (tlt h) a (m_timers tm)\<rparr>
             else tm\<lparr>tm_heap := (tm_heap tm)(a \<mapsto> t\<lparr>m_cb := None\<rparr>)\<rparr>)
          in bindE (expire_all now_ms as tm1) (\<lambda>(cbs, tm2). Inr (m_cb t # cbs, tm2)))"

text \<open>
  \<open>p\<close> is the address of \<open>now_timer\<close>, which is on the heap only while \<open>lower_bound\<close> compares with it.
\<close>

definition listExpiredCb ::
  "'f timer_manager \<Rightarrow> u64 \<Rightarrow> nat \<Rightarrow> 'f callback option list \<Rightarrow>
   ('f callback option list \<times> 'f timer_manager) res"
where
  "listExpiredCb tm now_ms p cbs =
    (if m_timers tm = [] then Inr (cbs, tm)
     else
       let (rollover, tm1) = detectClockRollover tm now_ms; ts = m_timers tm1 in
       if \<not> rollover \<and> next_of (tm_heap tm1) (hd ts) > now_ms then Inr (cbs, tm1)
       else
         let now_timer = \<lparr>m_recurring = False, m_ms = 0, m_next = now_ms, m_cb = None\<rparr>;
             (before, it) =
               (if rollover then (ts, [])
                else oset_lower_bound (tlt ((tm_heap tm1)(p \<mapsto> now_timer))) p ts);
             expired = before @ takeWhile (\<lambda>a. next_of (tm_heap tm1) a = now_ms) it;
             rest = dropWhile (\<lambda>a. next_of (tm_heap tm1) a = now_ms) it
         in bindE (expire_all now_ms expired (tm1\<lparr>m_timers := rest\<rparr>))
              (\<lambda>(new, tm2). Inr (cbs @ new, tm2)))"

definition hasTimer :: "'f timer_manager \<Rightarrow> bool" where
  "hasTimer tm \<longleftrightarrow> m_timers tm \<noteq> []"

section \<open>The comparator is a strict total order\<close>

lemma tlt_iff:
  "tlt h a b \<longleftrightarrow> next_of h a < next_of h b \<or> (next_of h a = next_of h b \<and> a < b)"
  by (auto simp: tlt_def Comparator_def)

interpretation timers: strict_weak "tlt h" for h
  by unfold_locales (auto simp: tlt_iff)

abbreviation tsorted :: "(nat \<Rightarrow> 'f timer option) \<Rightarrow> nat list \<Rightarrow> bool" where
  "tsorted h \<equiv> strict_weak.osorted (tlt h)"

lemma timers_eqv [simp]: "strict_weak.eqv (tlt h) a b \<longleftrightarrow> a = b"
  by (auto simp: timers.eqv_def tlt_iff)

text \<open>The order looks only at the expiry times of the timers compared.\<close>

lemma osorted_cong:
  "(\<And>a. a \<in> set ts \<Longrightarrow> next_of h a = next_of h' a) \<Longrightarrow> tsorted h ts = tsorted h' ts"
  unfolding timers.osorted_def
  by (rule iffI; erule sorted_wrt_mono_rel [rotated]) (simp_all add: tlt_iff)

lemma next_of_upd [simp]: "next_of (h(a \<mapsto> t)) b = (if b = a then m_next t else next_of h b)"
  by (simp add: next_of_def)

lemma osorted_upd [simp]:
  "a \<notin> set ts \<Longrightarrow> tsorted (h(a \<mapsto> t)) ts = tsorted h ts"
  by (rule osorted_cong) auto

section \<open>The invariant\<close>

text \<open>
  The set is sorted without duplicates and holds live timers only, and every timer that still has
  a callback is in it.
\<close>

definition tm_inv :: "'f timer_manager \<Rightarrow> bool" where
  "tm_inv tm \<longleftrightarrow>
    tsorted (tm_heap tm) (m_timers tm) \<and> set (m_timers tm) \<subseteq> dom (tm_heap tm) \<and>
    (\<forall>a t. tm_heap tm a = Some t \<and> m_cb t \<noteq> None \<longrightarrow> a \<in> set (m_timers tm))"

lemma tm_inv_new: "tm_inv (TimerManager now)"
  by (simp add: tm_inv_def TimerManager_def timers.osorted_def)

lemma tsorted_distinct: "tsorted h ts \<Longrightarrow> distinct ts"
  unfolding timers.osorted_def by (induction ts) (auto simp: tlt_iff)

lemma set_erase [simp]: "tsorted h ts \<Longrightarrow> set (oset_erase (tlt h) a ts) = set ts - {a}"
  by (auto simp: timers.set_oset_erase)

lemma set_insert [simp]: "a \<notin> set ts \<Longrightarrow> set (oset_insert (tlt h) a ts) = insert a (set ts)"
  by (rule timers.oset_insert_new) auto

lemma find_some: "tsorted h ts \<Longrightarrow> oset_find (tlt h) a ts = Some b \<longleftrightarrow> b = a \<and> a \<in> set ts"
  by (auto simp: timers.oset_find_iff)

lemma find_member: "tsorted h ts \<Longrightarrow> a \<in> set ts \<Longrightarrow> oset_find (tlt h) a ts = Some a"
  by (simp add: find_some)

lemma find_none: "tsorted h ts \<Longrightarrow> oset_find (tlt h) a ts = None \<longleftrightarrow> a \<notin> set ts"
  by (auto simp: timers.oset_find_None)

text \<open>Changing a timer and putting it (back) into the set it is not in keeps the invariant.\<close>

lemma tm_inv_insert:
  assumes "tsorted (tm_heap tm) (m_timers tm)" "a \<notin> set (m_timers tm)"
    "set (m_timers tm) \<subseteq> dom (tm_heap tm)"
    "\<forall>b t. tm_heap tm b = Some t \<and> m_cb t \<noteq> None \<and> b \<noteq> a \<longrightarrow> b \<in> set (m_timers tm)"
  shows "tm_inv (tm\<lparr>tm_heap := (tm_heap tm)(a \<mapsto> t),
    m_timers := oset_insert (tlt ((tm_heap tm)(a \<mapsto> t))) a (m_timers tm), m_trickled := x\<rparr>)"
  using assms timers.osorted_insert [of "(tm_heap tm)(a \<mapsto> t)" "m_timers tm" a]
  by (auto simp: tm_inv_def)

lemma tm_inv_trickled [simp]: "tm_inv (tm\<lparr>m_trickled := x\<rparr>) = tm_inv tm"
  "tm_inv (tm\<lparr>m_previouseTime := n\<rparr>) = tm_inv tm"
  by (simp_all add: tm_inv_def)

lemma addTimer_eq:
  "addTimer tm now a ms cb r =
    (let h = (tm_heap tm)(a \<mapsto> Timer now ms cb r);
         ts = oset_insert (tlt h) a (m_timers tm); n = (hd ts = a \<and> \<not> m_trickled tm)
     in (a, n, tm\<lparr>tm_heap := h, m_timers := ts, m_trickled := n \<or> m_trickled tm\<rparr>))"
  by (cases tm) (auto simp: addTimer_def addTimer_locked_def Let_def)

lemma addTimer_inv:
  assumes "tm_inv tm" "a \<notin> dom (tm_heap tm)" "addTimer tm now a ms cb r = (a', notify, tm')"
  shows "tm_inv tm'" "set (m_timers tm') = insert a (set (m_timers tm))"
    "tm_heap tm' = (tm_heap tm)(a \<mapsto> Timer now ms cb r)"
proof -
  have a: "a \<notin> set (m_timers tm)" using assms(1,2) by (auto simp: tm_inv_def)
  then have "tm_inv (tm\<lparr>tm_heap := (tm_heap tm)(a \<mapsto> Timer now ms cb r),
      m_timers := oset_insert (tlt ((tm_heap tm)(a \<mapsto> Timer now ms cb r))) a (m_timers tm),
      m_trickled := x\<rparr>)" for x
    using assms(1) by (intro tm_inv_insert) (auto simp: tm_inv_def)
  then show "tm_inv tm'" "set (m_timers tm') = insert a (set (m_timers tm))"
    "tm_heap tm' = (tm_heap tm)(a \<mapsto> Timer now ms cb r)"
    using assms(3) a by (auto simp: addTimer_eq Let_def)
qed

lemma cancel_ok:
  assumes "tm_inv tm" "tm_heap tm a = Some t"
  shows "\<exists>tm'. cancel tm a = Inr (m_cb t \<noteq> None, tm') \<and> tm_inv tm' \<and>
    set (m_timers tm') = set (m_timers tm) - (if m_cb t \<noteq> None then {a} else {}) \<and>
    tm_heap tm' = (tm_heap tm)(a \<mapsto> t\<lparr>m_cb := None\<rparr>)"
proof (cases "m_cb t")
  case None
  then have "t\<lparr>m_cb := None\<rparr> = t" by simp
  then show ?thesis using assms None by (auto simp: cancel_def)
next
  case (Some f)
  let ?h = "(tm_heap tm)(a \<mapsto> t\<lparr>m_cb := None\<rparr>)"
  have nx: "next_of ?h b = next_of (tm_heap tm) b" for b using assms(2) by (simp add: next_of_def)
  have srt: "tsorted ?h (m_timers tm)"
    using assms(1) osorted_cong [of "m_timers tm" ?h "tm_heap tm"] nx by (simp add: tm_inv_def)
  moreover have "a \<in> set (m_timers tm)" using assms Some by (auto simp: tm_inv_def)
  ultimately show ?thesis
    using assms Some timers.osorted_erase [OF srt, of a] find_some [OF srt, of a a]
    by (auto simp: cancel_def tm_inv_def Let_def split: if_splits)
qed

text \<open>Taking a timer out of the set, changing it and inserting it again.\<close>

lemma rearm_inv:
  fixes tm a t x
  defines "h \<equiv> (tm_heap tm)(a \<mapsto> t)"
  defines "ts \<equiv> oset_insert (tlt h) a (oset_erase (tlt (tm_heap tm)) a (m_timers tm))"
  assumes inv: "tm_inv tm" and mem: "a \<in> set (m_timers tm)"
  shows "tm_inv (tm\<lparr>tm_heap := h, m_timers := ts, m_trickled := x\<rparr>)"
    and "set ts = set (m_timers tm)"
    and "oset_find (tlt (tm_heap tm)) a (m_timers tm) = Some a"
proof -
  let ?e = "oset_erase (tlt (tm_heap tm)) a (m_timers tm)"
  have srt: "tsorted (tm_heap tm) (m_timers tm)" using inv by (simp add: tm_inv_def)
  have e: "tsorted (tm_heap tm) ?e" "set ?e = set (m_timers tm) - {a}"
    using timers.osorted_erase [OF srt] srt by simp_all
  then show "set ts = set (m_timers tm)" using mem by (auto simp: ts_def)
  have "set ?e \<subseteq> dom (tm_heap tm)"
    "\<forall>b t. tm_heap tm b = Some t \<and> m_cb t \<noteq> None \<and> b \<noteq> a \<longrightarrow> b \<in> set ?e"
    using inv unfolding e(2) by (auto simp: tm_inv_def)
  then show "tm_inv (tm\<lparr>tm_heap := h, m_timers := ts, m_trickled := x\<rparr>)"
    using tm_inv_insert [of "tm\<lparr>m_timers := ?e\<rparr>" a x t] e by (simp add: h_def ts_def)
  show "oset_find (tlt (tm_heap tm)) a (m_timers tm) = Some a"
    using srt mem by (rule find_member)
qed

lemma refresh_ok:
  assumes inv: "tm_inv tm" and a: "tm_heap tm a = Some t"
  shows "\<exists>tm'. refresh tm now a = Inr (m_cb t \<noteq> None, tm') \<and> tm_inv tm' \<and>
    set (m_timers tm') = set (m_timers tm) \<and>
    tm_heap tm' = (if m_cb t = None then tm_heap tm
                   else (tm_heap tm)(a \<mapsto> t\<lparr>m_next := now + m_ms t\<rparr>))"
proof (cases "m_cb t = None")
  case True
  then show ?thesis using inv a by (simp add: refresh_def)
next
  case False
  then have mem: "a \<in> set (m_timers tm)" using inv a by (auto simp: tm_inv_def)
  have same: "tm\<lparr>tm_heap := h, m_timers := ts, m_trickled := m_trickled tm\<rparr> =
      tm\<lparr>tm_heap := h, m_timers := ts\<rparr>" for h ts
    by (cases tm) simp
  note rearm = rearm_inv(1) [OF inv mem, where x = "m_trickled tm", unfolded same]
    rearm_inv(2,3) [OF inv mem]
  show ?thesis using False a rearm by (auto simp: refresh_def Let_def)
qed

lemma reset_ok:
  assumes inv: "tm_inv tm" and a: "tm_heap tm a = Some t" "m_cb t \<noteq> None"
    and ch: "ms \<noteq> m_ms t \<or> from_now"
  shows "\<exists>tm' n. reset tm now a ms from_now = Inr (True, n, tm') \<and> tm_inv tm' \<and>
    set (m_timers tm') = set (m_timers tm) \<and>
    tm_heap tm' = (tm_heap tm)(a \<mapsto> t\<lparr>m_ms := ms,
      m_next := (if from_now then now else m_next t - m_ms t) + ms\<rparr>)"
proof -
  have mem: "a \<in> set (m_timers tm)" using inv a by (auto simp: tm_inv_def)
  let ?t = "t\<lparr>m_ms := ms, m_next := (if from_now then now else m_next t - m_ms t) + ms\<rparr>"
  note rearm = rearm_inv(1) [OF inv mem, where t = ?t] rearm_inv(2,3) [OF inv mem]
  show ?thesis using a ch rearm by (auto simp: reset_def Let_def addTimer_locked_def)
qed

section \<open>Expiry\<close>

text \<open>What firing does to a timer: a recurring one is armed again, another one loses its callback.\<close>

definition fired :: "u64 \<Rightarrow> 'f timer \<Rightarrow> 'f timer" where
  "fired now t = (if m_recurring t then t\<lparr>m_next := now + m_ms t\<rparr> else t\<lparr>m_cb := None\<rparr>)"

definition recurs :: "(nat \<Rightarrow> 'f timer option) \<Rightarrow> nat \<Rightarrow> bool" where
  "recurs h a \<longleftrightarrow> (case h a of None \<Rightarrow> False | Some t \<Rightarrow> m_recurring t)"

definition cb_of :: "(nat \<Rightarrow> 'f timer option) \<Rightarrow> nat \<Rightarrow> 'f callback option" where
  "cb_of h a = (case h a of None \<Rightarrow> None | Some t \<Rightarrow> m_cb t)"

text \<open>The state inside the loop: the timers \<open>es\<close> are out of the set and still to be fired.\<close>

definition firing :: "'f timer_manager \<Rightarrow> nat list \<Rightarrow> bool" where
  "firing tm es \<longleftrightarrow>
    tsorted (tm_heap tm) (m_timers tm) \<and> distinct es \<and> set es \<inter> set (m_timers tm) = {} \<and>
    set es \<union> set (m_timers tm) \<subseteq> dom (tm_heap tm) \<and>
    (\<forall>a t. tm_heap tm a = Some t \<and> m_cb t \<noteq> None \<longrightarrow> a \<in> set es \<union> set (m_timers tm))"

lemma firing_Nil: "firing tm [] = tm_inv tm"
  by (auto simp: firing_def tm_inv_def)

lemma expire_all_ok:
  assumes "firing tm es"
  shows "\<exists>tm'. expire_all now es tm = Inr (map (cb_of (tm_heap tm)) es, tm') \<and> tm_inv tm' \<and>
    set (m_timers tm') = set (m_timers tm) \<union> {a \<in> set es. recurs (tm_heap tm) a} \<and>
    (\<forall>a. tm_heap tm' a =
       (if a \<in> set es then map_option (fired now) (tm_heap tm a) else tm_heap tm a))"
  using assms
proof (induction es arbitrary: tm)
  case Nil
  then show ?case by (simp add: firing_Nil)
next
  case (Cons a es)
  obtain t where t: "tm_heap tm a = Some t" using Cons.prems by (auto simp: firing_def)
  have new: "a \<notin> set es" "a \<notin> set (m_timers tm)" using Cons.prems by (auto simp: firing_def)
  define h where "h = (tm_heap tm)(a \<mapsto> fired now t)"
  define ts where "ts = (if m_recurring t then oset_insert (tlt h) a (m_timers tm) else m_timers tm)"
  define tm1 where "tm1 = tm\<lparr>tm_heap := h, m_timers := ts\<rparr>"
  have sel: "tm_heap tm1 = h" "m_timers tm1 = ts" by (simp_all add: tm1_def)
  have step: "expire_all now (a # es) tm =
      bindE (expire_all now es tm1) (\<lambda>(cbs, tm2). Inr (m_cb t # cbs, tm2))"
    using t by (simp add: tm1_def h_def ts_def fired_def Let_def)
  have set_ts: "set ts = set (m_timers tm) \<union> (if m_recurring t then {a} else {})"
    using new(2) by (simp add: ts_def)
  have "tsorted h ts"
    using Cons.prems new(2) timers.osorted_insert [of h "m_timers tm" a]
    by (simp add: firing_def h_def ts_def)
  moreover have "set es \<union> set ts \<subseteq> dom h" "set es \<inter> set ts = {}" "distinct es"
    using Cons.prems new unfolding set_ts h_def by (auto simp: firing_def split: if_splits)
  moreover have "b \<in> set es \<union> set ts" if "h b = Some u" "m_cb u \<noteq> None" for b u
    using Cons.prems that unfolding set_ts h_def
    by (cases "b = a") (fastforce simp: firing_def fired_def split: if_splits)+
  ultimately have "firing tm1 es" unfolding firing_def sel by blast
  then obtain tm' where tm': "expire_all now es tm1 = Inr (map (cb_of h) es, tm')" "tm_inv tm'"
    "set (m_timers tm') = set ts \<union> {b \<in> set es. recurs h b}"
    "\<forall>b. tm_heap tm' b = (if b \<in> set es then map_option (fired now) (h b) else h b)"
    using Cons.IH [of tm1] unfolding sel by blast
  have agree: "b \<in> set es \<Longrightarrow> cb_of h b = cb_of (tm_heap tm) b"
    "b \<in> set es \<Longrightarrow> recurs h b = recurs (tm_heap tm) b" for b
    using new(1) by (auto simp: cb_of_def recurs_def h_def)
  have "expire_all now (a # es) tm = Inr (map (cb_of (tm_heap tm)) (a # es), tm')"
    using step tm'(1) agree(1) t by (simp add: cb_of_def [of _ a])
  moreover have "set (m_timers tm') =
      set (m_timers tm) \<union> {b \<in> set (a # es). recurs (tm_heap tm) b}"
    using tm'(3) agree(2) t unfolding set_ts by (auto simp: recurs_def [of _ a] split: if_splits)
  moreover have "tm_heap tm' b =
      (if b \<in> set (a # es) then map_option (fired now) (tm_heap tm b) else tm_heap tm b)" for b
    using tm'(4) t new(1) by (auto simp: h_def)
  ultimately show ?case using tm'(2) by blast
qed

text \<open>
  The expired part of the set, found with \<open>lower_bound\<close> and the loop over equal times, is the
  longest prefix of timers that are due, whatever the address of the timer compared with.
\<close>

lemma expired_prefix:
  assumes "tsorted h ts" "p \<notin> set ts" "m_next t = now"
    "oset_lower_bound (tlt (h(p \<mapsto> t))) p ts = (before, it)"
  shows "before @ takeWhile (\<lambda>a. next_of h a = now) it = takeWhile (\<lambda>a. next_of h a \<le> now) ts \<and>
    dropWhile (\<lambda>a. next_of h a = now) it = dropWhile (\<lambda>a. next_of h a \<le> now) ts"
  using assms
proof (induction ts arbitrary: before)
  case Nil
  then show ?case by (simp add: oset_lower_bound_def)
next
  case (Cons y ys)
  have later: "next_of h y \<le> next_of h z" if "z \<in> set ys" for z
    using timers.osorted_hd [OF Cons.prems(1) that] by (auto simp: tlt_iff)
  let ?lt = "tlt (h(p \<mapsto> t))"
  have lt: "?lt z p \<longleftrightarrow> next_of h z < now \<or> next_of h z = now \<and> z < p" if "z \<noteq> p" for z
    using that Cons.prems(3) by (simp add: tlt_iff)
  have yp: "y \<noteq> p" using Cons.prems(2) by auto
  show ?case
  proof (cases "?lt y p")
    case True
    then have le: "next_of h y \<le> now" using lt [OF yp] by auto
    have b: "oset_lower_bound ?lt p ys = (tl before, it)" "before = y # tl before"
      using Cons.prems(4) True by (simp_all only: oset_lower_bound_def takeWhile.simps
          dropWhile.simps if_True) auto
    have "p \<notin> set ys" using Cons.prems(2) by simp
    then show ?thesis
      using le Cons.IH [OF timers.osorted_tl [OF Cons.prems(1)] _ Cons.prems(3) b(1)]
      by (subst (1) b(2)) simp
  next
    case False
    then have y: "now \<le> next_of h y" using lt [OF yp] by auto
    have eq: "next_of h z = now \<longleftrightarrow> next_of h z \<le> now" if "z \<in> set (y # ys)" for z
      using that y later [of z] by auto
    have w: "takeWhile (\<lambda>a. next_of h a = now) (y # ys) = takeWhile (\<lambda>a. next_of h a \<le> now) (y # ys)"
      "dropWhile (\<lambda>a. next_of h a = now) (y # ys) = dropWhile (\<lambda>a. next_of h a \<le> now) (y # ys)"
      using eq by (intro takeWhile_cong dropWhile_cong refl; simp)+
    have "before = []" "it = y # ys"
      using Cons.prems(4) False by (simp_all only: oset_lower_bound_def takeWhile.simps
          dropWhile.simps if_False) auto
    then show ?thesis using w by (simp only: append_Nil)
  qed
qed

lemma due_prefix:
  assumes "tsorted h ts"
  shows "takeWhile (\<lambda>a. next_of h a \<le> now) ts = filter (\<lambda>a. next_of h a \<le> now) ts"
    and "dropWhile (\<lambda>a. next_of h a \<le> now) ts = filter (\<lambda>a. \<not> next_of h a \<le> now) ts"
proof -
  have "takeWhile (\<lambda>a. next_of h a \<le> now) ts = filter (\<lambda>a. next_of h a \<le> now) ts \<and>
      dropWhile (\<lambda>a. next_of h a \<le> now) ts = filter (\<lambda>a. \<not> next_of h a \<le> now) ts"
    using assms
  proof (induction ts)
    case (Cons y ys)
    have "next_of h y \<le> next_of h z" if "z \<in> set ys" for z
      using timers.osorted_hd [OF Cons.prems that] by (auto simp: tlt_iff)
    then have "\<not> next_of h z \<le> now" if "\<not> next_of h y \<le> now" "z \<in> set ys" for z
      using that by force
    then have "\<not> next_of h y \<le> now \<Longrightarrow> filter (\<lambda>a. next_of h a \<le> now) ys = [] \<and>
        filter (\<lambda>a. \<not> next_of h a \<le> now) ys = ys"
      by (auto simp: filter_empty_conv filter_id_conv)
    then show ?case using Cons.IH timers.osorted_tl [OF Cons.prems] by simp
  qed simp
  then show "takeWhile (\<lambda>a. next_of h a \<le> now) ts = filter (\<lambda>a. next_of h a \<le> now) ts"
    "dropWhile (\<lambda>a. next_of h a \<le> now) ts = filter (\<lambda>a. \<not> next_of h a \<le> now) ts"
    by simp_all
qed

text \<open>A timer is due when its time has come, or at once when the clock was set back.\<close>

definition due :: "'f timer_manager \<Rightarrow> u64 \<Rightarrow> nat \<Rightarrow> bool" where
  "due tm now a \<longleftrightarrow> fst (detectClockRollover tm now) \<or> next_of (tm_heap tm) a \<le> now"

lemma tsorted_filter: "tsorted h ts \<Longrightarrow> tsorted h (filter P ts)"
  by (simp add: timers.osorted_def sorted_wrt_filter)

lemma firing_filter:
  assumes "tm_inv tm" "m_timers tm1 = filter (\<lambda>a. \<not> P a) (m_timers tm)" "tm_heap tm1 = tm_heap tm"
  shows "firing tm1 (filter P (m_timers tm))"
  using assms tsorted_filter [of "tm_heap tm" "m_timers tm"] tsorted_distinct [of "tm_heap tm" "m_timers tm"]
  by (auto simp: firing_def tm_inv_def)

lemma listExpiredCb_run:
  assumes inv: "tm_inv tm" and p: "p \<notin> dom (tm_heap tm)" and ne: "m_timers tm \<noteq> []"
    and some: "filter (due tm now) (m_timers tm) \<noteq> []"
  shows "listExpiredCb tm now p cbs =
    bindE (expire_all now (filter (due tm now) (m_timers tm))
        (tm\<lparr>m_previouseTime := now, m_timers := filter (\<lambda>a. \<not> due tm now a) (m_timers tm)\<rparr>))
      (\<lambda>(new, tm2). Inr (cbs @ new, tm2))"
proof -
  let ?h = "tm_heap tm" and ?ts = "m_timers tm"
  let ?nt = "\<lparr>m_recurring = False, m_ms = 0, m_next = now, m_cb = None\<rparr> :: 'a timer"
  have srt: "tsorted ?h ?ts" and pn: "p \<notin> set ?ts" using inv p by (auto simp: tm_inv_def)
  show ?thesis
  proof (cases "fst (detectClockRollover tm now)")
    case True
    then have "due tm now = (\<lambda>_. True)" by (auto simp: due_def)
    then show ?thesis
      using True ne by (simp add: listExpiredCb_def detectClockRollover_def Let_def)
  next
    case False
    then have d: "due tm now = (\<lambda>a. next_of ?h a \<le> now)" by (auto simp: due_def)
    obtain before it where bi: "oset_lower_bound (tlt (?h(p \<mapsto> ?nt))) p ?ts = (before, it)" by force
    note ex = expired_prefix [OF srt pn _ bi, of now, unfolded due_prefix [OF srt]]
    have "\<not> next_of ?h (hd ?ts) > now"
      using some unfolding d due_prefix(1) [OF srt, symmetric] by (cases ?ts) (auto split: if_splits)
    then show ?thesis
      using False ne bi ex unfolding d
      by (auto simp: listExpiredCb_def detectClockRollover_def Let_def)
  qed
qed

lemma listExpiredCb_ok:
  assumes inv: "tm_inv tm" and p: "p \<notin> dom (tm_heap tm)"
  shows "\<exists>tm'. listExpiredCb tm now p cbs =
      Inr (cbs @ map (cb_of (tm_heap tm)) (filter (due tm now) (m_timers tm)), tm') \<and> tm_inv tm' \<and>
    set (m_timers tm') = {a \<in> set (m_timers tm). \<not> due tm now a \<or> recurs (tm_heap tm) a} \<and>
    (\<forall>a. tm_heap tm' a = (if a \<in> set (m_timers tm) \<and> due tm now a
       then map_option (fired now) (tm_heap tm a) else tm_heap tm a))"
proof (cases "filter (due tm now) (m_timers tm) = []")
  case True
  then have nd: "\<not> due tm now a" if "a \<in> set (m_timers tm)" for a
    using that by (auto simp: filter_empty_conv)
  then have set_eq: "{a \<in> set (m_timers tm). \<not> due tm now a \<or> recurs (tm_heap tm) a} =
      set (m_timers tm)" by auto
  have "listExpiredCb tm now p cbs =
      Inr (cbs, if m_timers tm = [] then tm else tm\<lparr>m_previouseTime := now\<rparr>)"
    using nd [of "hd (m_timers tm)"]
    by (auto simp: listExpiredCb_def detectClockRollover_def due_def Let_def)
  then show ?thesis using True inv set_eq nd by auto
next
  case False
  then have ne: "m_timers tm \<noteq> []" by auto
  define tm1 where
    "tm1 = tm\<lparr>m_previouseTime := now, m_timers := filter (\<lambda>a. \<not> due tm now a) (m_timers tm)\<rparr>"
  have sel: "tm_heap tm1 = tm_heap tm" "m_timers tm1 = filter (\<lambda>a. \<not> due tm now a) (m_timers tm)"
    by (simp_all add: tm1_def)
  note fire = expire_all_ok [OF firing_filter [OF inv sel(2,1)], of now, unfolded sel]
  show ?thesis
    using fire unfolding listExpiredCb_run [OF inv p ne False] tm1_def [symmetric] by fastforce
qed

lemma detectClockRollover_iff:
  "fst (detectClockRollover tm now) \<longleftrightarrow>
    unat now < unat (m_previouseTime tm) \<and>
    (unat (m_previouseTime tm) < 3600000 \<or> unat now + 3600000 < unat (m_previouseTime tm))"
proof -
  let ?p = "m_previouseTime tm"
  have n: "unat (3600000 :: u64) = 3600000" by simp
  have b: "unat ?p < 2 ^ 64" using unsigned_less [of ?p, where 'a = nat] by simp
  have s: "unat (?p - 3600000) = (if 3600000 \<le> unat ?p then unat ?p - 3600000
      else unat ?p + 2 ^ 64 - 3600000)"
    by (auto simp: unat_sub_if' n)
  show ?thesis
    using s b unfolding detectClockRollover_def Let_def
    by (auto simp: word_less_nat_alt n split: if_splits)
qed

section \<open>Runs of a manager\<close>

text \<open>
  One step is one public operation with whatever clock value, arguments and allocator choice;
  operations on a timer need a timer that exists.
\<close>

inductive tm_step :: "'f timer_manager \<Rightarrow> 'f timer_manager \<Rightarrow> bool" where
  step_add: "a \<notin> dom (tm_heap tm) \<Longrightarrow> addTimer tm now a ms cb r = (a', n, tm') \<Longrightarrow> tm_step tm tm'"
| step_cancel: "a \<in> dom (tm_heap tm) \<Longrightarrow> cancel tm a = Inr (b, tm') \<Longrightarrow> tm_step tm tm'"
| step_refresh: "a \<in> dom (tm_heap tm) \<Longrightarrow> refresh tm now a = Inr (b, tm') \<Longrightarrow> tm_step tm tm'"
| step_reset: "a \<in> dom (tm_heap tm) \<Longrightarrow> reset tm now a ms fn = Inr (b, n, tm') \<Longrightarrow> tm_step tm tm'"
| step_next: "getNextTimer tm now = (d, tm') \<Longrightarrow> tm_step tm tm'"
| step_expire: "p \<notin> dom (tm_heap tm) \<Longrightarrow> listExpiredCb tm now p cbs = Inr (cbs', tm') \<Longrightarrow>
    tm_step tm tm'"

lemma reset_total:
  assumes "tm_inv tm" "tm_heap tm a = Some t"
  shows "\<exists>b n tm'. reset tm now a ms fn = Inr (b, n, tm') \<and> tm_inv tm'"
proof (cases "m_cb t \<noteq> None \<and> (ms \<noteq> m_ms t \<or> fn)")
  case True
  then show ?thesis using reset_ok [OF assms, of ms fn now] by blast
next
  case False
  then show ?thesis using assms by (auto simp: reset_def)
qed

lemma getNextTimer_inv: "tm_inv tm \<Longrightarrow> getNextTimer tm now = (d, tm') \<Longrightarrow> tm_inv tm'"
  by (auto simp: getNextTimer_def Let_def split: list.splits if_splits)

lemma tm_step_inv: "tm_step tm tm' \<Longrightarrow> tm_inv tm \<Longrightarrow> tm_inv tm'"
proof (induction rule: tm_step.induct)
  case (step_add a tm now ms cb r a' n tm')
  then show ?case using addTimer_inv(1) by blast
next
  case (step_cancel a tm b tm')
  then show ?case using cancel_ok [of tm a] by fastforce
next
  case (step_refresh a tm now b tm')
  then show ?case using refresh_ok [of tm a _ now] by fastforce
next
  case (step_reset a tm now ms fn b n tm')
  then show ?case using reset_total [of tm a _ now ms fn] by fastforce
next
  case (step_next tm now d tm')
  then show ?case using getNextTimer_inv by blast
next
  case (step_expire p tm now cbs cbs' tm')
  then show ?case using listExpiredCb_ok [of tm p now cbs] by fastforce
qed

lemma tm_reach_inv: "tm_step\<^sup>*\<^sup>* tm tm' \<Longrightarrow> tm_inv tm \<Longrightarrow> tm_inv tm'"
  by (induction rule: rtranclp_induct) (auto intro: tm_step_inv)

text \<open>A run of additions, with whether one of them asked to wake the sleeping thread.\<close>

inductive added :: "'f timer_manager \<Rightarrow> bool \<Rightarrow> 'f timer_manager \<Rightarrow> bool" where
  added_none: "added tm False tm"
| added_one: "added tm w tm1 \<Longrightarrow> a \<notin> dom (tm_heap tm1) \<Longrightarrow>
    addTimer tm1 now a ms cb r = (a', n, tm2) \<Longrightarrow> added tm (w \<or> n) tm2"

lemma hd_oset_insert: "hd (oset_insert lt a ts) = a \<or> (ts \<noteq> [] \<and> hd (oset_insert lt a ts) = hd ts)"
  by (cases ts) auto

lemma added_front:
  "added tm w tm' \<Longrightarrow> tm_inv tm \<Longrightarrow> \<not> m_trickled tm \<Longrightarrow>
   tm_inv tm' \<and> m_trickled tm' = w \<and> (\<not> w \<longrightarrow> tm' = tm \<or> (m_timers tm \<noteq> [] \<and> m_timers tm' \<noteq> [] \<and>
     hd (m_timers tm') = hd (m_timers tm) \<and>
     next_of (tm_heap tm') (hd (m_timers tm)) = next_of (tm_heap tm) (hd (m_timers tm))))"
proof (induction rule: added.induct)
  case (added_none tm)
  then show ?case by simp
next
  case (added_one tm w tm1 a now ms cb r a' n tm2)
  then have ih: "tm_inv tm1" "m_trickled tm1 = w" by auto
  note f = addTimer_inv [OF ih(1) added_one.hyps(2,3)]
  let ?ts = "oset_insert (tlt (tm_heap tm2)) a (m_timers tm1)"
  have tm2: "n \<longleftrightarrow> hd ?ts = a \<and> \<not> w" "m_timers tm2 = ?ts" "m_trickled tm2 \<longleftrightarrow> n \<or> w"
    using added_one.hyps(3) f(3) ih(2) by (auto simp: addTimer_eq Let_def)
  have ne: "m_timers tm2 \<noteq> []" using f(2) by auto
  have "next_of (tm_heap tm2) (hd (m_timers tm1)) = next_of (tm_heap tm1) (hd (m_timers tm1))"
    if "m_timers tm1 \<noteq> []"
  proof -
    have "hd (m_timers tm1) \<in> dom (tm_heap tm1)"
      using ih(1) hd_in_set [OF that] by (auto simp: tm_inv_def)
    then show ?thesis using f(3) added_one.hyps(2) by auto
  qed
  then show ?case
    using added_one.IH added_one.prems tm2 f(1) hd_oset_insert [of "tlt (tm_heap tm2)" a "m_timers tm1"]
    by (auto simp: ne)
qed

section \<open>Properties\<close>

text \<open>
  C33: The timer set cannot be corrupted. After any sequence of \<open>addTimer\<close>, \<open>cancel\<close>, \<open>refresh\<close>, \<open>reset\<close>,
  \<open>getNextTimer\<close> and \<open>listExpiredCb\<close> calls, with any clock values (set back or wrapped), the set is
  sorted by expiry and address and holds every timer that has a callback. So \<open>cancel\<close> never erases
  the end iterator, every operation on a live timer returns, and cancelling tells whether the timer
  was still armed and disarms it.
\<close>

theorem timer_set_safe:
  assumes "tm_step\<^sup>*\<^sup>* (TimerManager t0) tm" "tm_heap tm a = Some t" "p \<notin> dom (tm_heap tm)"
  shows "tm_inv tm \<and> (\<exists>r. refresh tm now a = Inr r) \<and> (\<exists>r. reset tm now a ms fn = Inr r) \<and>
    (\<exists>r. listExpiredCb tm now p cbs = Inr r) \<and>
    (\<exists>tm'. cancel tm a = Inr (m_cb t \<noteq> None, tm') \<and> cb_of (tm_heap tm') a = None \<and>
       (m_cb t \<noteq> None \<longrightarrow> a \<notin> set (m_timers tm')))"
proof -
  have inv: "tm_inv tm" using tm_reach_inv [OF assms(1) tm_inv_new] .
  then show ?thesis
    using cancel_ok [OF inv assms(2)] refresh_ok [OF inv assms(2), of now]
      reset_total [OF inv assms(2), of now ms fn] listExpiredCb_ok [OF inv assms(3), of now cbs]
    by (fastforce simp: cb_of_def)
qed

theorem timer_set_safe_witness:
  "\<exists>tm n tm'. addTimer (TimerManager 5) 7 3 100 (Some (Direct ''f'')) False = (3, n, tm) \<and>
    cancel tm 3 = Inr (True, tm') \<and> 3 \<notin> set (m_timers tm')"
proof -
  obtain n tm where tm: "addTimer (TimerManager 5) 7 3 100 (Some (Direct ''f'')) False = (3, n, tm)"
    by (simp add: addTimer_eq Let_def)
  have fresh: "3 \<notin> dom (tm_heap (TimerManager 5 :: string timer_manager))"
    by (simp add: TimerManager_def)
  have "tm_step\<^sup>*\<^sup>* (TimerManager 5) tm"
    using tm_step.step_add [OF fresh tm] by blast
  moreover have "tm_heap tm = Map.empty(3 \<mapsto> Timer 7 100 (Some (Direct ''f'')) False)"
    using addTimer_inv(3) [OF tm_inv_new fresh tm] by (simp add: TimerManager_def)
  ultimately show ?thesis
    using timer_set_safe [of 5 tm 3 "Timer 7 100 (Some (Direct ''f'')) False" 4 0 0 False "[]"] tm
    by (auto simp: Timer_def)
qed

text \<open>
  C34: \<open>listExpiredCb\<close> delivers exactly the due timers. In any valid state it returns, in order of
  expiry, the callbacks of the timers whose time is not after now (of all timers when the clock was
  set back); afterwards the set holds the timers that were not due and the recurring ones, a fired
  recurring timer is due again one period from now, a fired one-shot timer has lost its callback,
  and no other timer has changed.
\<close>

theorem listExpiredCb_exact:
  assumes "tm_inv tm" "p \<notin> dom (tm_heap tm)"
  shows "\<exists>tm'. listExpiredCb tm now p [] =
      Inr (map (cb_of (tm_heap tm)) (filter (due tm now) (m_timers tm)), tm') \<and>
    sorted (map (next_of (tm_heap tm)) (filter (due tm now) (m_timers tm))) \<and> tm_inv tm' \<and>
    set (m_timers tm') = {a \<in> set (m_timers tm). \<not> due tm now a \<or> recurs (tm_heap tm) a} \<and>
    (\<forall>a t. tm_heap tm a = Some t \<longrightarrow> tm_heap tm' a =
       Some (if a \<in> set (m_timers tm) \<and> due tm now a
             then if m_recurring t then t\<lparr>m_next := now + m_ms t\<rparr> else t\<lparr>m_cb := None\<rparr>
             else t))"
proof -
  have "tsorted (tm_heap tm) (filter (due tm now) (m_timers tm))"
    using assms(1) by (simp add: tm_inv_def tsorted_filter)
  then have "sorted (map (next_of (tm_heap tm)) (filter (due tm now) (m_timers tm)))"
    unfolding timers.osorted_def sorted_map
    by (rule sorted_wrt_mono_rel [rotated]) (auto simp: tlt_iff)
  then show ?thesis
    using listExpiredCb_ok [OF assms, of now "[]"] by (fastforce simp: fired_def)
qed

theorem listExpiredCb_exact_witness:
  "\<exists>n tm tm'. addTimer (TimerManager 5) 7 3 100 (Some (Direct ''f'')) True = (3, n, tm) \<and>
    listExpiredCb tm 200 9 [] = Inr ([Some (Direct ''f'')], tm') \<and> 3 \<in> set (m_timers tm')"
proof -
  obtain n tm where tm: "addTimer (TimerManager 5) 7 3 100 (Some (Direct ''f'')) True = (3, n, tm)"
    by (simp add: addTimer_eq Let_def)
  have fresh: "3 \<notin> dom (tm_heap (TimerManager 5 :: string timer_manager))"
    by (simp add: TimerManager_def)
  note f = addTimer_inv [OF tm_inv_new fresh tm]
  have h: "tm_heap tm = Map.empty(3 \<mapsto> Timer 7 100 (Some (Direct ''f'')) True)"
    and ts: "m_timers tm = [3]" and "m_previouseTime tm = 5"
    using f tm by (auto simp: TimerManager_def addTimer_eq Let_def)
  then have "due tm 200 3" by (simp add: due_def Timer_def)
  then show ?thesis
    using tm listExpiredCb_exact [OF f(1), of 9 200] h ts
    by (auto simp: cb_of_def Timer_def recurs_def)
qed

text \<open>
  C38: \<open>getNextTimer\<close> returns how long to sleep: all ones when there is no timer, 0 when some timer is
  due, and otherwise the time that is left until the earliest timer, at which that timer is due and
  before which none is.
\<close>

theorem getNextTimer_deadline:
  assumes "tm_inv tm" "getNextTimer tm now = (d, tm')"
  shows "(m_timers tm = [] \<longrightarrow> d = NOT 0) \<and>
    (m_timers tm \<noteq> [] \<longrightarrow>
      (if \<exists>a \<in> set (m_timers tm). next_of (tm_heap tm) a \<le> now then d = 0
       else now < now + d \<and> now + d = Min (next_of (tm_heap tm) ` set (m_timers tm)))) \<and>
    \<not> m_trickled tm'"
proof (cases "m_timers tm")
  case Nil
  then show ?thesis using assms(2) by (auto simp: getNextTimer_def)
next
  case (Cons a as)
  have le: "next_of (tm_heap tm) a \<le> next_of (tm_heap tm) b" if "b \<in> set (m_timers tm)" for b
    using assms(1) that timers.osorted_hd [of "tm_heap tm" a as b] Cons
    by (auto simp: tm_inv_def tlt_iff)
  then have "Min (next_of (tm_heap tm) ` set (m_timers tm)) = next_of (tm_heap tm) a"
    using Cons by (intro Min_eqI) auto
  moreover have "(\<exists>b \<in> set (m_timers tm). next_of (tm_heap tm) b \<le> now) \<longleftrightarrow> next_of (tm_heap tm) a \<le> now"
    using le Cons by fastforce
  ultimately show ?thesis
    using assms(2) Cons by (auto simp: getNextTimer_def Let_def split: if_splits)
qed

theorem getNextTimer_deadline_witness:
  "\<exists>n tm tm'. addTimer (TimerManager 5) 7 3 100 (Some (Direct ''f'')) True = (3, n, tm) \<and>
    getNextTimer tm 10 = (97, tm') \<and> \<not> m_trickled tm'"
proof -
  obtain n tm where tm: "addTimer (TimerManager 5) 7 3 100 (Some (Direct ''f'')) True = (3, n, tm)"
    by (simp add: addTimer_eq Let_def)
  have fresh: "3 \<notin> dom (tm_heap (TimerManager 5 :: string timer_manager))"
    by (simp add: TimerManager_def)
  note f = addTimer_inv [OF tm_inv_new fresh tm]
  have "m_timers tm = [3]" "next_of (tm_heap tm) 3 = 107"
    using f tm by (auto simp: TimerManager_def addTimer_eq Let_def Timer_def)
  moreover from this have "getNextTimer tm 10 = (97, tm\<lparr>m_trickled := False\<rparr>)"
    by (simp add: getNextTimer_def)
  ultimately show ?thesis
    using tm getNextTimer_deadline [OF f(1)] by blast
qed



text \<open>
  When the clock counts as set back. \<open>detectClockRollover\<close> reports it exactly when the time is
  before the previous one and either more than an hour before it or the previous time is itself
  within an hour of zero, where the subtraction of an hour wraps around and any step back counts.
\<close>

theorem detectClockRollover_exact:
  "fst (detectClockRollover tm now) \<longleftrightarrow>
    unat now < unat (m_previouseTime tm) \<and>
    (unat (m_previouseTime tm) < 60 * 60 * 1000 \<or>
     unat now + 60 * 60 * 1000 < unat (m_previouseTime tm))"
  unfolding detectClockRollover_iff by simp

end
