(* ===== verification/Sylar_IOManager.thy ===== *)
theory Sylar_IOManager
  imports Sylar_Scheduler Sylar_Timer
begin

text \<open>
  The I/O manager (\<^verbatim>\<open>sylar/iomanager.cpp\<close>): a scheduler and a timer manager whose idle threads sleep
  in \<^verbatim>\<open>epoll_wait\<close> and turn ready descriptors and due timers into tasks.

  The \<^verbatim>\<open>FdContext\<close> objects are never freed while the manager lives, so they are a list that only
  grows (\<open>io_ctxs\<close>) and a pointer to one is its index; \<^verbatim>\<open>m_fdContexts\<close> is the vector of pointers,
  indexed by descriptor. The kernel is outside the model: what \<^verbatim>\<open>epoll_ctl\<close> and \<^verbatim>\<open>epoll_wait\<close> return is
  an argument of the operations. \<open>io_interest\<close> records what the successful \<^verbatim>\<open>epoll_ctl\<close> calls ask of the
  kernel, \<open>io_pipe\<close> the bytes in the wake-up pipe, whose write end blocks, so that \<^verbatim>\<open>write\<close> returns 1.
  A context remembers the scheduler that waits for it by its address; \<open>io_self\<close> is the address of this
  manager, and calls of \<^verbatim>\<open>schedule\<close> on other schedulers are kept in order in \<open>io_posts\<close>.
\<close>

section \<open>State\<close>

abbreviation NONE :: u32 where "NONE \<equiv> 0x0"
abbreviation READ :: u32 where "READ \<equiv> 0x1"
abbreviation WRITE :: u32 where "WRITE \<equiv> 0x4"

abbreviation EPOLLIN :: u32 where "EPOLLIN \<equiv> 0x001"
abbreviation EPOLLOUT :: u32 where "EPOLLOUT \<equiv> 0x004"
abbreviation EPOLLERR :: u32 where "EPOLLERR \<equiv> 0x008"
abbreviation EPOLLHUP :: u32 where "EPOLLHUP \<equiv> 0x010"
abbreviation EPOLLET :: u32 where "EPOLLET \<equiv> 0x80000000"

datatype epoll_op = EPOLL_CTL_ADD | EPOLL_CTL_MOD | EPOLL_CTL_DEL

text \<open>The union \<^verbatim>\<open>epoll_data_t\<close>, by what was stored in it.\<close>

datatype epoll_data = Data_fd int | Data_ptr nat

record 'f event_ctx =
  ec_scheduler :: "nat option"
  ec_fiber :: "nat option"
  ec_cb :: "'f option"

record 'f fd_ctx =
  fc_fd :: int
  fc_read :: "'f event_ctx"
  fc_write :: "'f event_ctx"
  fc_events :: u32

record 'f iom =
  io_self :: nat
  io_sched :: "'f callback sched"
  io_timers :: "'f timer_manager"
  m_trickleFds :: "int \<times> int"
  m_fdContexts :: "nat option list"
  io_ctxs :: "'f callback fd_ctx list"
  m_pendingEventCount :: nat
  io_pipe :: nat
  io_interest :: "int \<Rightarrow> (nat \<times> u32) option"
  io_posts :: "(nat \<times> 'f callback task) list"

definition no_event :: "'f event_ctx" where
  "no_event = \<lparr>ec_scheduler = None, ec_fiber = None, ec_cb = None\<rparr>"

definition FdContext :: "nat \<Rightarrow> 'f fd_ctx" where
  "FdContext i = \<lparr>fc_fd = int i, fc_read = no_event, fc_write = no_event, fc_events = NONE\<rparr>"

section \<open>Waking and scheduling\<close>

definition io_trickle :: "'f iom \<Rightarrow> 'f iom" where
  "io_trickle s =
    (if m_idleThreadCount (io_sched s) = 0 then s else s\<lparr>io_pipe := io_pipe s + 1\<rparr>)"

text \<open>\<open>schedule\<close> on the scheduler at \<open>p\<close>; for this manager the wake-up is the one above.\<close>

definition io_schedule :: "'f iom \<Rightarrow> nat \<Rightarrow> 'f callback task \<Rightarrow> 'f iom" where
  "io_schedule s p ft =
    (if p = io_self s then
       let (need_trickle, sc) = scheduleNoLock (io_sched s) ft; s' = s\<lparr>io_sched := sc\<rparr>
       in if need_trickle then io_trickle s' else s'
     else s\<lparr>io_posts := io_posts s @ [(p, ft)]\<rparr>)"

definition io_schedule_range :: "'f iom \<Rightarrow> 'f callback option list \<Rightarrow> 'f iom" where
  "io_schedule_range s cbs =
    (let (need_trickle, sc) = schedule_range_loop (io_sched s) False
           (map (\<lambda>c. \<lparr>tk_fiber = None, tk_cb = c, tk_thread = -1\<rparr>) cbs);
         s' = s\<lparr>io_sched := sc\<rparr>
     in if need_trickle then io_trickle s' else s')"

definition onTimerInsertedAtFront :: "'f iom \<Rightarrow> 'f iom" where
  "onTimerInsertedAtFront s = io_trickle s"

text \<open>\<^verbatim>\<open>TimerManager::addTimer\<close> on this object, with the virtual call at its end.\<close>

definition io_addTimer ::
  "'f iom \<Rightarrow> u64 \<Rightarrow> nat \<Rightarrow> u64 \<Rightarrow> 'f callback option \<Rightarrow> bool \<Rightarrow> nat \<times> 'f iom"
where
  "io_addTimer s now a ms cb recurring =
    (let (r, at_front, tm) = addTimer (io_timers s) now a ms cb recurring;
         s' = s\<lparr>io_timers := tm\<rparr>
     in (r, if at_front then onTimerInsertedAtFront s' else s'))"

section \<open>Contexts\<close>

definition getContext :: "'f fd_ctx \<Rightarrow> u32 \<Rightarrow> 'f event_ctx res" where
  "getContext c event =
    (if event = READ then Inr (fc_read c)
     else if event = WRITE then Inr (fc_write c)
     else Inl (Assert_fail ''getContext''))"

text \<open>Assignment through the reference \<open>getContext\<close> returns.\<close>

definition putContext :: "'f fd_ctx \<Rightarrow> u32 \<Rightarrow> 'f event_ctx \<Rightarrow> 'f fd_ctx" where
  "putContext c event ctx =
    (if event = READ then c\<lparr>fc_read := ctx\<rparr> else c\<lparr>fc_write := ctx\<rparr>)"

definition resetContext :: "'f event_ctx \<Rightarrow> 'f event_ctx" where
  "resetContext ctx = ctx\<lparr>ec_scheduler := None, ec_fiber := None, ec_cb := None\<rparr>"

definition put_ctx :: "'f iom \<Rightarrow> nat \<Rightarrow> 'f callback fd_ctx \<Rightarrow> 'f iom" where
  "put_ctx s p c = s\<lparr>io_ctxs := (io_ctxs s)[p := c]\<rparr>"

text \<open>Scheduling through a pointer swaps the function or fiber out of the context.\<close>

definition triggerEvent :: "'f iom \<Rightarrow> nat \<Rightarrow> u32 \<Rightarrow> 'f iom res" where
  "triggerEvent s p event =
    (let c = io_ctxs s ! p in
     if fc_events c AND event = 0 then Inl (Assert_fail ''events & event'')
     else
       let c1 = c\<lparr>fc_events := fc_events c AND NOT event\<rparr> in
       bindE (getContext c1 event) (\<lambda>ctx.
         case ec_scheduler ctx of
           None \<Rightarrow> Inl Null_deref
         | Some q \<Rightarrow>
             let (ft, ctx1) =
               (if ec_cb ctx \<noteq> None
                then (\<lparr>tk_fiber = None, tk_cb = ec_cb ctx, tk_thread = -1\<rparr>, ctx\<lparr>ec_cb := None\<rparr>)
                else (\<lparr>tk_fiber = ec_fiber ctx, tk_cb = None, tk_thread = -1\<rparr>, ctx\<lparr>ec_fiber := None\<rparr>))
             in Inr (io_schedule (put_ctx s p (putContext c1 event (ctx1\<lparr>ec_scheduler := None\<rparr>))) q ft)))"

fun fill_contexts ::
  "nat \<Rightarrow> nat option list \<Rightarrow> 'f fd_ctx list \<Rightarrow> nat option list \<times> 'f fd_ctx list"
where
  "fill_contexts i [] cs = ([], cs)"
| "fill_contexts i (Some p # v) cs =
     (let (v', cs') = fill_contexts (Suc i) v cs in (Some p # v', cs'))"
| "fill_contexts i (None # v) cs =
     (let (v', cs') = fill_contexts (Suc i) v (cs @ [FdContext i]) in (Some (length cs) # v', cs'))"

definition contextResize :: "'f iom \<Rightarrow> nat \<Rightarrow> 'f iom" where
  "contextResize s n =
    (let v = take n (m_fdContexts s) @ replicate (n - length (m_fdContexts s)) None;
         (v', cs) = fill_contexts 0 v (io_ctxs s)
     in s\<lparr>m_fdContexts := v', io_ctxs := cs\<rparr>)"

text \<open>\<open>m_fdContexts[fd]\<close>\<close>

definition fd_context :: "'f iom \<Rightarrow> int \<Rightarrow> nat res" where
  "fd_context s fd =
    (if 0 \<le> fd \<and> nat fd < length (m_fdContexts s) then
       (case m_fdContexts s ! nat fd of None \<Rightarrow> Inl Null_deref | Some p \<Rightarrow> Inr p)
     else Inl Out_of_bounds)"

text \<open>A call of \<^verbatim>\<open>epoll_ctl\<close> that returns \<open>rt\<close>; only a successful one changes the interest list.\<close>

definition epoll_ctl :: "'f iom \<Rightarrow> epoll_op \<Rightarrow> int \<Rightarrow> nat \<Rightarrow> u32 \<Rightarrow> int \<Rightarrow> 'f iom" where
  "epoll_ctl s op fd p events rt =
    (if rt \<noteq> 0 then s
     else s\<lparr>io_interest := (io_interest s)(fd := (if op = EPOLL_CTL_DEL then None else Some (p, events)))\<rparr>)"

section \<open>The operations\<close>

text \<open>
  \<open>addEvent\<close> looks the context up under the read lock, or under the write lock after growing the
  vector, and then works under the lock of the context. \<open>this\<close> is the caller's scheduler and \<open>cur\<close> its
  fiber with state \<open>st\<close>.
\<close>

definition addEvent_lookup :: "'f iom \<Rightarrow> int \<Rightarrow> nat option res" where
  "addEvent_lookup s fd =
    (if int (length (m_fdContexts s)) > fd then bindE (fd_context s fd) (\<lambda>p. Inr (Some p))
     else Inr None)"

definition addEvent_grow :: "'f iom \<Rightarrow> int \<Rightarrow> (nat \<times> 'f iom) res" where
  "addEvent_grow s fd =
    (let s' = contextResize s (nat (fd * 3 div 2)) in bindE (fd_context s' fd) (\<lambda>p. Inr (p, s')))"

definition addEvent_locked ::
  "'f iom \<Rightarrow> nat \<Rightarrow> int \<Rightarrow> u32 \<Rightarrow> 'f callback option \<Rightarrow> nat option \<Rightarrow> nat \<Rightarrow> Status \<Rightarrow> int \<Rightarrow>
   (int \<times> 'f iom) res"
where
  "addEvent_locked s p fd event cb this cur st rt =
    (let c = io_ctxs s ! p in
     if fc_events c AND event \<noteq> 0 then Inl (Assert_fail ''!(fd_ctx->events & event)'')
     else
       let op = (if fc_events c \<noteq> 0 then EPOLL_CTL_MOD else EPOLL_CTL_ADD);
           s1 = epoll_ctl s op fd p (EPOLLET OR fc_events c OR event) rt
       in if rt \<noteq> 0 then Inr (-1, s1)
          else
            let s2 = s1\<lparr>m_pendingEventCount := m_pendingEventCount s1 + 1\<rparr>;
                c1 = c\<lparr>fc_events := fc_events c OR event\<rparr>
            in bindE (getContext c1 event) (\<lambda>ctx.
              if \<not> (ec_scheduler ctx = None \<and> ec_fiber ctx = None \<and> ec_cb ctx = None)
              then Inl (Assert_fail ''!event_ctx.scheduler && !event_ctx.fiber && !event_ctx.cb'')
              else if cb \<noteq> None then
                Inr (0, put_ctx s2 p (putContext c1 event (ctx\<lparr>ec_scheduler := this, ec_cb := cb\<rparr>)))
              else if st \<noteq> EXEC then Inl (Assert_fail ''event_ctx.fiber->getState() == Fiber::EXEC'')
              else Inr (0, put_ctx s2 p
                (putContext c1 event (ctx\<lparr>ec_scheduler := this, ec_fiber := Some cur\<rparr>)))))"

definition addEvent ::
  "'f iom \<Rightarrow> int \<Rightarrow> u32 \<Rightarrow> 'f callback option \<Rightarrow> nat option \<Rightarrow> nat \<Rightarrow> Status \<Rightarrow> int \<Rightarrow> (int \<times> 'f iom) res"
where
  "addEvent s fd event cb this cur st rt =
    bindE (addEvent_lookup s fd) (\<lambda>r.
    bindE (case r of Some p \<Rightarrow> Inr (p, s) | None \<Rightarrow> addEvent_grow s fd) (\<lambda>(p, s1).
      addEvent_locked s1 p fd event cb this cur st rt))"

definition delEvent :: "'f iom \<Rightarrow> int \<Rightarrow> u32 \<Rightarrow> int \<Rightarrow> (bool \<times> 'f iom) res" where
  "delEvent s fd event rt =
    (if int (length (m_fdContexts s)) \<le> fd then Inr (False, s)
     else bindE (fd_context s fd) (\<lambda>p.
       let c = io_ctxs s ! p in
       if fc_events c AND event = 0 then Inr (False, s)
       else
         let new_events = fc_events c AND NOT event;
             op = (if new_events \<noteq> 0 then EPOLL_CTL_MOD else EPOLL_CTL_DEL);
             s1 = epoll_ctl s op fd p (EPOLLET OR new_events) rt
         in if rt \<noteq> 0 then Inr (False, s1)
            else
              let c1 = c\<lparr>fc_events := new_events\<rparr> in
              bindE (getContext c1 event) (\<lambda>ctx.
                Inr (True, put_ctx (s1\<lparr>m_pendingEventCount := m_pendingEventCount s1 - 1\<rparr>) p
                  (putContext c1 event (resetContext ctx))))))"

text \<open>\<open>triggerEvent\<close> and then \<open>--m_pendingEventCount\<close>, as three callers do.\<close>

definition trigger_counted :: "'f iom \<Rightarrow> nat \<Rightarrow> u32 \<Rightarrow> 'f iom res" where
  "trigger_counted s p event =
    bindE (triggerEvent s p event) (\<lambda>s1. Inr (s1\<lparr>m_pendingEventCount := m_pendingEventCount s1 - 1\<rparr>))"

definition cancelEvent :: "'f iom \<Rightarrow> int \<Rightarrow> u32 \<Rightarrow> int \<Rightarrow> (bool \<times> 'f iom) res" where
  "cancelEvent s fd event rt =
    (if int (length (m_fdContexts s)) \<le> fd then Inr (False, s)
     else bindE (fd_context s fd) (\<lambda>p.
       let c = io_ctxs s ! p in
       if fc_events c AND event = 0 then Inr (False, s)
       else
         let new_events = fc_events c AND NOT event;
             op = (if new_events \<noteq> 0 then EPOLL_CTL_MOD else EPOLL_CTL_DEL);
             s1 = epoll_ctl s op fd p (EPOLLET OR new_events) rt
         in if rt \<noteq> 0 then Inr (False, s1)
            else bindE (trigger_counted s1 p event) (\<lambda>s2. Inr (True, s2))))"

definition cancelAll :: "'f iom \<Rightarrow> int \<Rightarrow> int \<Rightarrow> (bool \<times> 'f iom) res" where
  "cancelAll s fd rt =
    (if int (length (m_fdContexts s)) \<le> fd then Inr (False, s)
     else bindE (fd_context s fd) (\<lambda>p.
       if fc_events (io_ctxs s ! p) \<noteq> 0 then Inr (False, s)
       else
         let s1 = epoll_ctl s EPOLL_CTL_DEL fd p 0 rt in
         if rt \<noteq> 0 then Inr (False, s1)
         else
           bindE (if fc_events (io_ctxs s1 ! p) AND READ \<noteq> 0 then trigger_counted s1 p READ else Inr s1) (\<lambda>s2.
           bindE (if fc_events (io_ctxs s2 ! p) AND WRITE \<noteq> 0 then trigger_counted s2 p WRITE else Inr s2) (\<lambda>s3.
             if fc_events (io_ctxs s3 ! p) \<noteq> 0 then Inl (Assert_fail ''fd_ctx->events == 0'')
             else Inr (True, s3)))))"

section \<open>Idle threads\<close>

definition io_stopping :: "'f iom \<Rightarrow> u64 \<Rightarrow> bool \<times> u64 \<times> 'f iom" where
  "io_stopping s now =
    (let (timeout, tm) = getNextTimer (io_timers s) now in
     (timeout = NOT 0 \<and> m_pendingEventCount s = 0 \<and> stopping (io_sched s), timeout,
      s\<lparr>io_timers := tm\<rparr>))"

text \<open>The wait before a call of \<^verbatim>\<open>epoll_wait\<close>, with the cast \<^verbatim>\<open>(int)next_timeout\<close>.\<close>

definition clip_timeout :: "u64 \<Rightarrow> u64" where
  "clip_timeout t =
    (if t \<noteq> NOT 0 then if sint (ucast t :: u32) > 3000 then 3000 else t else 3000)"

text \<open>
  What \<^verbatim>\<open>epoll_wait\<close> answers: \<^verbatim>\<open>EINTR\<close>, another error, or ready events, each with what \<^verbatim>\<open>epoll_ctl\<close> will
  return when the event is handled. The loop ends at the first answer that is not \<^verbatim>\<open>EINTR\<close>; the
  timeouts it passes are collected, and the loop still waits when the answers run out.
\<close>

datatype wait_answer = Interrupted | Failed | Ready "(epoll_data \<times> u32 \<times> int) list"

fun wait_loop :: "u64 \<Rightarrow> wait_answer list \<Rightarrow> (u32 list \<times> (epoll_data \<times> u32 \<times> int) list) option" where
  "wait_loop next_timeout [] = None"
| "wait_loop next_timeout (w # ws) =
     (let t = clip_timeout next_timeout in
      case w of
        Interrupted \<Rightarrow> (case wait_loop t ws of None \<Rightarrow> None | Some (ts, evs) \<Rightarrow> Some (ucast t # ts, evs))
      | Failed \<Rightarrow> Some ([ucast t], [])
      | Ready evs \<Rightarrow> Some ([ucast t], evs))"

definition io_event :: "'f iom \<Rightarrow> epoll_data \<Rightarrow> u32 \<Rightarrow> int \<Rightarrow> 'f iom res" where
  "io_event s d ev rt2 =
    (case d of
       Data_fd fd \<Rightarrow> if fd = fst (m_trickleFds s) then Inr (s\<lparr>io_pipe := 0\<rparr>) else Inl (Undefined ''data.ptr'')
     | Data_ptr p \<Rightarrow>
        (let c = io_ctxs s ! p;
             ev1 = (if ev AND (EPOLLERR OR EPOLLHUP) \<noteq> 0
                    then ev OR ((EPOLLIN OR EPOLLOUT) AND fc_events c) else ev);
             real_events = (if ev1 AND EPOLLIN \<noteq> 0 then READ else NONE) OR
                           (if ev1 AND EPOLLOUT \<noteq> 0 then WRITE else NONE)
         in if fc_events c AND real_events = NONE then Inr s
            else
              let left_events = fc_events c AND NOT real_events;
                  op = (if left_events \<noteq> 0 then EPOLL_CTL_MOD else EPOLL_CTL_DEL);
                  s1 = epoll_ctl s op (fc_fd c) p (EPOLLET OR left_events) rt2
              in if rt2 \<noteq> 0 then Inr s1
                 else
                   bindE (if real_events AND READ \<noteq> 0 then trigger_counted s1 p READ else Inr s1) (\<lambda>s2.
                     if real_events AND WRITE \<noteq> 0 then trigger_counted s2 p WRITE else Inr s2)))"

fun io_events :: "'f iom \<Rightarrow> (epoll_data \<times> u32 \<times> int) list \<Rightarrow> 'f iom res" where
  "io_events s [] = Inr s"
| "io_events s ((d, ev, rt2) # evs) = bindE (io_event s d ev rt2) (\<lambda>s1. io_events s1 evs)"

text \<open>
  One round of \<open>idle\<close>: \<open>None\<close> while it still waits, \<open>Some (True, _)\<close> when the idle fiber ends and
  \<open>Some (False, _)\<close> when it swaps out. \<open>now\<close> and \<open>now2\<close> are the clock before and after the wait and
  \<open>a\<close> is the address of the timer that \<open>listExpiredCb\<close> compares with.
\<close>

definition idle_io ::
  "'f iom \<Rightarrow> u64 \<Rightarrow> wait_answer list \<Rightarrow> u64 \<Rightarrow> nat \<Rightarrow> (bool \<times> 'f iom) res option"
where
  "idle_io s now ws now2 a =
    (let (stop, next_timeout, s1) = io_stopping s now in
     if stop then Some (Inr (True, s1))
     else
       case wait_loop next_timeout ws of
         None \<Rightarrow> None
       | Some (_, evs) \<Rightarrow> Some (
          bindE (listExpiredCb (io_timers s1) now2 a []) (\<lambda>(cbs, tm).
          let s2 = s1\<lparr>io_timers := tm\<rparr>;
              s3 = (if cbs \<noteq> [] then io_schedule_range s2 cbs else s2)
          in bindE (io_events s3 evs) (\<lambda>s4. Inr (False, s4)))))"

section \<open>Construction\<close>

text \<open>
  The arguments of \<open>Scheduler\<close> and \<open>Start\<close>, the clock, the address of the manager, the pipe's
  descriptors, and what \<^verbatim>\<open>epoll_create\<close>, \<^verbatim>\<open>pipe\<close>, \<^verbatim>\<open>fcntl\<close> and \<^verbatim>\<open>epoll_ctl\<close> return.
\<close>

definition IOManager ::
  "nat \<Rightarrow> bool \<Rightarrow> bool \<Rightarrow> nat \<Rightarrow> int \<Rightarrow> int list \<Rightarrow> u64 \<Rightarrow> nat \<Rightarrow> int \<times> int \<Rightarrow> int \<Rightarrow> int \<Rightarrow> int \<Rightarrow> int \<Rightarrow>
   'f iom res"
where
  "IOManager threads use_caller this_sched a tid ids now self fds epfd rt1 rt2 rt3 =
    bindE (Scheduler threads use_caller this_sched a tid) (\<lambda>sc.
      if epfd \<le> 0 then Inl (Assert_fail ''m_epfd > 0'')
      else if rt1 \<noteq> 0 \<or> rt2 \<noteq> 0 \<or> rt3 \<noteq> 0 then Inl (Assert_fail ''!rt'')
      else
        let s = \<lparr>io_self = self, io_sched = sc, io_timers = TimerManager now, m_trickleFds = fds,
                 m_fdContexts = [], io_ctxs = [], m_pendingEventCount = 0, io_pipe = 0,
                 io_interest = Map.empty, io_posts = []\<rparr>;
            s1 = contextResize s 32
        in bindE (Start (io_sched s1) ids) (\<lambda>sc'. Inr (s1\<lparr>io_sched := sc'\<rparr>)))"

section \<open>The invariant\<close>

text \<open>
  A context is armed for an event exactly when its event bit is set, and then it names a scheduler
  and either a fiber or a function.
\<close>

definition slot_ok :: "bool \<Rightarrow> 'f event_ctx \<Rightarrow> bool" where
  "slot_ok b ctx =
    (if b then ec_scheduler ctx \<noteq> None \<and> (ec_fiber ctx = None) \<noteq> (ec_cb ctx = None) else ctx = no_event)"

definition has :: "'f fd_ctx \<Rightarrow> u32 \<Rightarrow> bool" where
  "has c event \<longleftrightarrow> fc_events c AND event \<noteq> 0"

definition ctx_ok :: "'f fd_ctx \<Rightarrow> bool" where
  "ctx_ok c \<longleftrightarrow> fc_events c \<in> {0, READ, WRITE, READ OR WRITE} \<and>
    slot_ok (has c READ) (fc_read c) \<and> slot_ok (has c WRITE) (fc_write c)"

definition npending :: "'f fd_ctx \<Rightarrow> nat" where
  "npending c = (if has c READ then 1 else 0) + (if has c WRITE then 1 else 0)"

definition interest :: "nat \<Rightarrow> 'f fd_ctx \<Rightarrow> (nat \<times> u32) option" where
  "interest p c = (if fc_events c = 0 then None else Some (p, EPOLLET OR fc_events c))"

definition io_inv :: "'f iom \<Rightarrow> bool" where
  "io_inv s \<longleftrightarrow> 32 \<le> length (io_ctxs s) \<and> m_fdContexts s = map Some [0..<length (io_ctxs s)] \<and>
    (\<forall>p < length (io_ctxs s). fc_fd (io_ctxs s ! p) = int p \<and> ctx_ok (io_ctxs s ! p) \<and>
       io_interest s (int p) = interest p (io_ctxs s ! p)) \<and>
    (\<forall>fd. fd < 0 \<or> int (length (io_ctxs s)) \<le> fd \<longrightarrow> io_interest s fd = None) \<and>
    m_pendingEventCount s = sum_list (map npending (io_ctxs s))"

lemma sum_list_put:
  fixes f :: "'a \<Rightarrow> nat"
  shows "p < length xs \<Longrightarrow> sum_list (map f (xs[p := c])) + f (xs ! p) = sum_list (map f xs) + f c"
proof (induction xs arbitrary: p)
  case (Cons x xs)
  then show ?case by (cases p) auto
qed simp

lemma io_inv_put:
  assumes inv: "io_inv s" and p: "p < length (io_ctxs s)" and c: "ctx_ok c" "fc_fd c = int p"
    and s': "io_ctxs s' = (io_ctxs s)[p := c]" "m_fdContexts s' = m_fdContexts s"
      "io_interest s' = (io_interest s)(int p := interest p c)"
      "m_pendingEventCount s' + npending (io_ctxs s ! p) = m_pendingEventCount s + npending c"
  shows "io_inv s'"
proof -
  have "m_pendingEventCount s' = sum_list (map npending (io_ctxs s'))"
    using inv s' sum_list_put [OF p, of npending c] by (simp add: io_inv_def)
  then show ?thesis
    using inv p c s' by (auto simp: io_inv_def nth_list_update)
qed

text \<open>Other parts of the state do not matter for the invariant.\<close>

lemma io_inv_cong:
  assumes "io_inv s" "io_ctxs s' = io_ctxs s" "m_fdContexts s' = m_fdContexts s"
    "io_interest s' = io_interest s" "m_pendingEventCount s' = m_pendingEventCount s"
  shows "io_inv s'"
  using assms by (simp add: io_inv_def)

lemma io_trickle_simps [simp]:
  "io_ctxs (io_trickle s) = io_ctxs s" "m_fdContexts (io_trickle s) = m_fdContexts s"
  "io_interest (io_trickle s) = io_interest s" "io_self (io_trickle s) = io_self s"
  "m_pendingEventCount (io_trickle s) = m_pendingEventCount s" "io_posts (io_trickle s) = io_posts s"
  "io_sched (io_trickle s) = io_sched s" "io_timers (io_trickle s) = io_timers s"
  "m_trickleFds (io_trickle s) = m_trickleFds s"
  by (simp_all add: io_trickle_def)

lemma io_schedule_simps [simp]:
  "io_ctxs (io_schedule s q t) = io_ctxs s" "m_fdContexts (io_schedule s q t) = m_fdContexts s"
  "io_interest (io_schedule s q t) = io_interest s" "io_timers (io_schedule s q t) = io_timers s"
  "m_pendingEventCount (io_schedule s q t) = m_pendingEventCount s"
  "m_trickleFds (io_schedule s q t) = m_trickleFds s" "io_self (io_schedule s q t) = io_self s"
  by (simp_all add: io_schedule_def Let_def split: prod.split)

lemma io_schedule_range_simps [simp]:
  "io_ctxs (io_schedule_range s cs) = io_ctxs s" "m_fdContexts (io_schedule_range s cs) = m_fdContexts s"
  "io_interest (io_schedule_range s cs) = io_interest s"
  "m_pendingEventCount (io_schedule_range s cs) = m_pendingEventCount s"
  "m_trickleFds (io_schedule_range s cs) = m_trickleFds s"
  by (simp_all add: io_schedule_range_def Let_def split: prod.split)

lemma put_ctx_simps [simp]:
  "io_ctxs (put_ctx s p c) = (io_ctxs s)[p := c]" "m_fdContexts (put_ctx s p c) = m_fdContexts s"
  "io_interest (put_ctx s p c) = io_interest s" "io_self (put_ctx s p c) = io_self s"
  "m_pendingEventCount (put_ctx s p c) = m_pendingEventCount s"
  "m_trickleFds (put_ctx s p c) = m_trickleFds s" "io_sched (put_ctx s p c) = io_sched s"
  "io_posts (put_ctx s p c) = io_posts s" "io_pipe (put_ctx s p c) = io_pipe s"
  by (simp_all add: put_ctx_def)

section \<open>Growing the vector\<close>

lemma fill_some: "fill_contexts i (map Some ps @ v) cs =
    (let (v', cs') = fill_contexts (i + length ps) v cs in (map Some ps @ v', cs'))"
  by (induction ps arbitrary: i) (auto simp: Let_def split: prod.splits)

lemma fill_none: "fill_contexts i (replicate n None) cs =
    (map Some [length cs..<length cs + n], cs @ map FdContext [i..<i + n])"
proof (induction n arbitrary: i cs)
  case (Suc n)
  have "[length cs..<length cs + Suc n] = length cs # [Suc (length cs)..<length cs + Suc n]"
    "[i..<i + Suc n] = i # [Suc i..<i + Suc n]"
    by (simp_all add: upt_conv_Cons)
  then show ?case using Suc by simp
qed simp

lemma contextResize_grow:
  assumes "io_inv s" "length (io_ctxs s) \<le> n"
  shows "contextResize s n =
    s\<lparr>m_fdContexts := map Some [0..<n],
      io_ctxs := io_ctxs s @ map FdContext [length (io_ctxs s)..<n]\<rparr>"
proof -
  let ?l = "length (io_ctxs s)"
  have v: "m_fdContexts s = map Some [0..<?l]" using assms(1) by (simp add: io_inv_def)
  have "map Some [0..<?l] @ map Some [?l..<n] = map Some [0..<n]"
    using assms(2) by (metis le_add_diff_inverse map_append upt_add_eq_append zero_le)
  then show ?thesis
    using assms(2) by (simp add: contextResize_def v fill_some fill_none)
qed

lemma npending_new [simp]: "npending (FdContext i) = 0"
  by (simp add: npending_def FdContext_def has_def)

lemma ctx_ok_new [simp]: "ctx_ok (FdContext i)"
  by (simp add: ctx_ok_def FdContext_def slot_ok_def has_def)

lemma interest_new [simp]: "fc_fd (FdContext i) = int i" "interest p (FdContext i) = None"
  by (simp_all add: FdContext_def interest_def)

lemma io_inv_grow:
  assumes "io_inv s" "length (io_ctxs s) \<le> n"
  shows "io_inv (contextResize s n)" "length (io_ctxs (contextResize s n)) = n"
    "io_ctxs (contextResize s n) = io_ctxs s @ map FdContext [length (io_ctxs s)..<n]"
proof -
  have "map npending (map FdContext [k..<m]) = replicate (m - k) 0" for k m
    by (rule nth_equalityI) simp_all
  then show "io_inv (contextResize s n)"
    using assms unfolding contextResize_grow [OF assms]
    by (auto simp: io_inv_def nth_append sum_list_replicate)
qed (use assms in \<open>simp_all add: contextResize_grow [OF assms]\<close>)

section \<open>Arming and disarming a context\<close>

definition slot :: "'f fd_ctx \<Rightarrow> u32 \<Rightarrow> 'f event_ctx" where
  "slot c event = (if event = READ then fc_read c else fc_write c)"

definition waiter :: "'f event_ctx \<Rightarrow> 'f task" where
  "waiter ctx =
    (if ec_cb ctx \<noteq> None then \<lparr>tk_fiber = None, tk_cb = ec_cb ctx, tk_thread = -1\<rparr>
     else \<lparr>tk_fiber = ec_fiber ctx, tk_cb = None, tk_thread = -1\<rparr>)"

definition disarm :: "'f fd_ctx \<Rightarrow> u32 \<Rightarrow> 'f fd_ctx" where
  "disarm c event = putContext (c\<lparr>fc_events := fc_events c AND NOT event\<rparr>) event no_event"

definition arm :: "'f fd_ctx \<Rightarrow> u32 \<Rightarrow> nat \<Rightarrow> 'f option \<Rightarrow> nat \<Rightarrow> 'f fd_ctx" where
  "arm c event q cb cur = putContext (c\<lparr>fc_events := fc_events c OR event\<rparr>) event
    \<lparr>ec_scheduler = Some q, ec_fiber = (if cb = None then Some cur else None), ec_cb = cb\<rparr>"

lemmas ctx_defs = has_def slot_def disarm_def arm_def putContext_def npending_def slot_ok_def

lemma ctx_cases:
  assumes "ctx_ok c"
  obtains "fc_events c = 0" "fc_read c = no_event" "fc_write c = no_event"
  | "fc_events c = 1" "slot_ok True (fc_read c)" "fc_write c = no_event"
  | "fc_events c = 4" "fc_read c = no_event" "slot_ok True (fc_write c)"
  | "fc_events c = 5" "slot_ok True (fc_read c)" "slot_ok True (fc_write c)"
  using assms by (auto simp: ctx_ok_def has_def slot_ok_def)

lemma disarm_ok:
  assumes "ctx_ok c" "has c ev" "ev \<in> {READ, WRITE}"
  shows "ctx_ok (disarm c ev)" "npending c = npending (disarm c ev) + 1"
    "fc_fd (disarm c ev) = fc_fd c" "fc_events (disarm c ev) = fc_events c AND NOT ev"
  using assms(2,3) by (cases rule: ctx_cases [OF assms(1)]; auto simp: ctx_ok_def ctx_defs)+

lemma arm_ok:
  assumes "ctx_ok c" "\<not> has c ev" "ev \<in> {READ, WRITE}"
  shows "ctx_ok (arm c ev q cb cur)" "npending (arm c ev q cb cur) = npending c + 1"
    "fc_fd (arm c ev q cb cur) = fc_fd c" "fc_events (arm c ev q cb cur) = fc_events c OR ev"
    "slot (arm c ev q cb cur) ev =
      \<lparr>ec_scheduler = Some q, ec_fiber = (if cb = None then Some cur else None), ec_cb = cb\<rparr>"
    "has (arm c ev q cb cur) ev" "disarm (arm c ev q cb cur) ev = c"
  using assms(2,3) by (cases rule: ctx_cases [OF assms(1)]; auto simp: ctx_ok_def ctx_defs)+

lemma armed_slot: "ctx_ok c \<Longrightarrow> has c ev \<Longrightarrow> ev \<in> {READ, WRITE} \<Longrightarrow> slot_ok True (slot c ev)"
  by (auto simp: ctx_ok_def slot_def)

lemma free_slot: "ctx_ok c \<Longrightarrow> \<not> has c ev \<Longrightarrow> ev \<in> {READ, WRITE} \<Longrightarrow> slot c ev = no_event"
  by (auto simp: ctx_ok_def slot_def slot_ok_def)

lemma trigger_eq:
  assumes "ctx_ok (io_ctxs s ! p)" "has (io_ctxs s ! p) ev" "ev \<in> {READ, WRITE}"
  shows "triggerEvent s p ev = Inr (io_schedule (put_ctx s p (disarm (io_ctxs s ! p) ev))
    (the (ec_scheduler (slot (io_ctxs s ! p) ev))) (waiter (slot (io_ctxs s ! p) ev)))"
proof -
  let ?ctx = "slot (io_ctxs s ! p) ev"
  obtain q where q: "ec_scheduler ?ctx = Some q" "(ec_fiber ?ctx = None) \<noteq> (ec_cb ?ctx = None)"
    using armed_slot [OF assms] by (auto simp: slot_ok_def)
  have get: "getContext ((io_ctxs s ! p)\<lparr>fc_events := x\<rparr>) ev = Inr ?ctx" for x
    using assms(3) by (auto simp: getContext_def slot_def)
  have "?ctx\<lparr>ec_cb := None, ec_scheduler := None\<rparr> = no_event" if "ec_cb ?ctx \<noteq> None"
    using q(2) that by (cases ?ctx) (simp add: no_event_def)
  moreover have "?ctx\<lparr>ec_fiber := None, ec_scheduler := None\<rparr> = no_event" if "ec_cb ?ctx = None"
    using that by (cases ?ctx) (simp add: no_event_def)
  ultimately show ?thesis
    using assms(2) q
    by (auto simp: triggerEvent_def Let_def get has_def waiter_def disarm_def)
qed

section \<open>What the operations do in a state that satisfies the invariant\<close>

lemma io_ctxD:
  assumes "io_inv s" "p < length (io_ctxs s)"
  shows "ctx_ok (io_ctxs s ! p)" "fc_fd (io_ctxs s ! p) = int p"
    "io_interest s (int p) = interest p (io_ctxs s ! p)" "m_fdContexts s ! p = Some p"
    "length (m_fdContexts s) = length (io_ctxs s)"
  using assms by (simp_all add: io_inv_def)

lemma fd_context_eq:
  "io_inv s \<Longrightarrow> 0 \<le> fd \<Longrightarrow> nat fd < length (io_ctxs s) \<Longrightarrow> fd_context s fd = Inr (nat fd)"
  by (simp add: fd_context_def io_inv_def)

text \<open>The state in which the context of \<open>fd\<close> exists.\<close>

definition grown :: "'f iom \<Rightarrow> int \<Rightarrow> 'f iom" where
  "grown s fd =
    (if int (length (io_ctxs s)) > fd then s else contextResize s (nat (fd * 3 div 2)))"

lemma grown_inv:
  assumes "io_inv s" "0 \<le> fd"
  shows "io_inv (grown s fd)" "nat fd < length (io_ctxs (grown s fd))"
proof -
  have "io_inv (grown s fd) \<and> nat fd < length (io_ctxs (grown s fd))"
  proof (cases "int (length (io_ctxs s)) > fd")
    case True
    then show ?thesis using assms by (auto simp: grown_def)
  next
    case False
    have "32 \<le> length (io_ctxs s)" using assms by (simp add: io_inv_def)
    then have n: "length (io_ctxs s) \<le> nat (fd * 3 div 2)" "nat fd < nat (fd * 3 div 2)"
      using False by linarith+
    then show ?thesis
      using False io_inv_grow [OF assms(1) n(1)] by (simp add: grown_def)
  qed
  then show "io_inv (grown s fd)" "nat fd < length (io_ctxs (grown s fd))" by auto
qed

lemma addEvent_eq:
  assumes "io_inv s" "0 \<le> fd"
  shows "addEvent s fd ev cb this cur st rt =
    addEvent_locked (grown s fd) (nat fd) fd ev cb this cur st rt"
proof -
  have "length (m_fdContexts s) = length (io_ctxs s)" using assms by (simp add: io_inv_def)
  then show ?thesis
    using assms fd_context_eq [OF grown_inv(1) [OF assms] assms(2) grown_inv(2) [OF assms]]
    by (auto simp: addEvent_def addEvent_lookup_def addEvent_grow_def grown_def Let_def fd_context_eq)
qed

text \<open>The registered state: one more pending event, the kernel asked for it.\<close>

definition armed :: "'f iom \<Rightarrow> nat \<Rightarrow> u32 \<Rightarrow> nat \<Rightarrow> 'f callback option \<Rightarrow> nat \<Rightarrow> 'f iom" where
  "armed s p ev q cb cur =
    (let c = arm (io_ctxs s ! p) ev q cb cur in
     s\<lparr>io_ctxs := (io_ctxs s)[p := c], m_pendingEventCount := m_pendingEventCount s + 1,
       io_interest := (io_interest s)(int p := interest p c)\<rparr>)"

definition disarmed :: "'f iom \<Rightarrow> nat \<Rightarrow> u32 \<Rightarrow> 'f iom" where
  "disarmed s p ev =
    (let c = disarm (io_ctxs s ! p) ev in
     s\<lparr>io_ctxs := (io_ctxs s)[p := c], m_pendingEventCount := m_pendingEventCount s - 1,
       io_interest := (io_interest s)(int p := interest p c)\<rparr>)"

lemma or_event: "ev \<in> {READ, WRITE} \<Longrightarrow> x OR ev \<noteq> (0 :: u32)"
  by (auto simp: or_eq_0_iff)

lemma addEvent_locked_eq:
  assumes "io_inv s" "p < length (io_ctxs s)" "ev \<in> {READ, WRITE}"
  shows "addEvent_locked s p (int p) ev cb (Some q) cur st rt =
    (if has (io_ctxs s ! p) ev then Inl (Assert_fail ''!(fd_ctx->events & event)'')
     else if rt \<noteq> 0 then Inr (-1, s)
     else if cb = None \<and> st \<noteq> EXEC
     then Inl (Assert_fail ''event_ctx.fiber->getState() == Fiber::EXEC'')
     else Inr (0, armed s p ev q cb cur))"
proof -
  let ?c = "io_ctxs s ! p"
  have get: "getContext (?c\<lparr>fc_events := x\<rparr>) ev = Inr (slot ?c ev)" for x
    using assms(3) by (auto simp: getContext_def slot_def)
  have "slot ?c ev = no_event" if "\<not> has ?c ev"
    using free_slot io_ctxD(1) assms that by blast
  moreover have "fc_events ?c OR ev \<noteq> 0" using or_event [OF assms(3)] .
  ultimately show ?thesis
    using arm_ok(4) [OF io_ctxD(1) [OF assms(1,2)] _ assms(3)]
    by (auto simp: addEvent_locked_def Let_def get has_def epoll_ctl_def no_event_def armed_def arm_def
        put_ctx_def interest_def putContext_def or.assoc)
qed

lemma delEvent_eq:
  assumes "io_inv s" "0 \<le> fd" "ev \<in> {READ, WRITE}"
  shows "delEvent s fd ev rt =
    (if int (length (io_ctxs s)) \<le> fd \<or> \<not> has (io_ctxs s ! nat fd) ev \<or> rt \<noteq> 0 then Inr (False, s)
     else Inr (True, disarmed s (nat fd) ev))"
proof (cases "nat fd < length (io_ctxs s)")
  case True
  let ?c = "io_ctxs s ! nat fd"
  have get: "getContext (?c\<lparr>fc_events := x\<rparr>) ev = Inr (slot ?c ev)" for x
    using assms(3) by (auto simp: getContext_def slot_def)
  have reset: "resetContext ctx = no_event" for ctx :: "'a callback event_ctx"
    by (cases ctx) (simp add: resetContext_def no_event_def)
  have "int (length (io_ctxs s)) > fd" using True by linarith
  then show ?thesis
    using assms(2) io_ctxD(5) [OF assms(1) True] fd_context_eq [OF assms(1,2) True]
      disarm_ok(4) [OF io_ctxD(1) [OF assms(1) True] _ assms(3)]
    by (auto simp: delEvent_def Let_def get has_def epoll_ctl_def disarmed_def put_ctx_def interest_def
        reset disarm_def)
next
  case False
  then show ?thesis using assms(1,2) by (auto simp: delEvent_def io_inv_def)
qed

text \<open>The task that waits for an event, and where it is to run.\<close>

definition wakes :: "'f iom \<Rightarrow> nat \<Rightarrow> u32 \<Rightarrow> 'f iom" where
  "wakes s p ev = io_schedule (disarmed s p ev)
    (the (ec_scheduler (slot (io_ctxs s ! p) ev))) (waiter (slot (io_ctxs s ! p) ev))"

lemma io_schedule_upd:
  "io_schedule (s\<lparr>m_pendingEventCount := n\<rparr>) q t = (io_schedule s q t)\<lparr>m_pendingEventCount := n\<rparr>"
  by (auto simp: io_schedule_def Let_def io_trickle_def split: prod.splits)

lemma trigger_counted_eq:
  assumes "ctx_ok (io_ctxs s ! p)" "has (io_ctxs s ! p) ev" "ev \<in> {READ, WRITE}"
    "s' = s\<lparr>io_interest := (io_interest s)(int p := interest p (disarm (io_ctxs s ! p) ev))\<rparr>"
  shows "trigger_counted s' p ev = Inr (wakes s p ev)"
  using assms trigger_eq [of s' p ev]
  by (cases s) (simp add: trigger_counted_def wakes_def disarmed_def put_ctx_def Let_def
      io_schedule_upd [symmetric])

lemma cancelEvent_eq:
  assumes "io_inv s" "0 \<le> fd" "ev \<in> {READ, WRITE}"
  shows "cancelEvent s fd ev rt =
    (if int (length (io_ctxs s)) \<le> fd \<or> \<not> has (io_ctxs s ! nat fd) ev \<or> rt \<noteq> 0 then Inr (False, s)
     else Inr (True, wakes s (nat fd) ev))"
proof (cases "nat fd < length (io_ctxs s)")
  case True
  let ?c = "io_ctxs s ! nat fd"
  have "interest (nat fd) (disarm ?c ev) = (if fc_events ?c AND NOT ev \<noteq> 0
      then Some (nat fd, EPOLLET OR (fc_events ?c AND NOT ev)) else None)" if "has ?c ev"
    using disarm_ok(4) [OF io_ctxD(1) [OF assms(1) True] that assms(3)] by (simp add: interest_def)
  moreover have "int (length (io_ctxs s)) > fd" using True by linarith
  ultimately show ?thesis
    using assms(2) io_ctxD(5) [OF assms(1) True] fd_context_eq [OF assms(1,2) True]
      trigger_counted_eq [OF io_ctxD(1) [OF assms(1) True] _ assms(3) refl]
    by (auto simp: cancelEvent_def Let_def has_def epoll_ctl_def)
next
  case False
  then show ?thesis using assms(1,2) by (auto simp: cancelEvent_def io_inv_def)
qed

lemma cancelAll_eq:
  assumes "io_inv s" "0 \<le> fd"
  shows "cancelAll s fd rt =
    Inr (fd < int (length (io_ctxs s)) \<and> fc_events (io_ctxs s ! nat fd) = 0 \<and> rt = 0, s)"
proof (cases "nat fd < length (io_ctxs s)")
  case True
  have "io_interest s fd = None" if "fc_events (io_ctxs s ! nat fd) = 0"
    using io_ctxD(3) [OF assms(1) True] assms(2) that by (simp add: interest_def)
  then have "s\<lparr>io_interest := (io_interest s)(fd := None)\<rparr> = s" if "fc_events (io_ctxs s ! nat fd) = 0"
    using that by (simp add: fun_upd_idem)
  moreover have "int (length (io_ctxs s)) > fd" using True by linarith
  ultimately show ?thesis
    using assms(2) io_ctxD(5) [OF assms(1) True] fd_context_eq [OF assms(1,2) True]
    by (auto simp: cancelAll_def Let_def epoll_ctl_def)
next
  case False
  then show ?thesis using assms by (auto simp: cancelAll_def io_inv_def)
qed

lemma armed_inv:
  assumes "io_inv s" "p < length (io_ctxs s)" "\<not> has (io_ctxs s ! p) ev" "ev \<in> {READ, WRITE}"
  shows "io_inv (armed s p ev q cb cur)"
proof -
  have "npending (arm (io_ctxs s ! p) ev q cb cur) = npending (io_ctxs s ! p) + 1"
    "ctx_ok (arm (io_ctxs s ! p) ev q cb cur)" "fc_fd (arm (io_ctxs s ! p) ev q cb cur) = int p"
    using arm_ok(1-3) [OF _ assms(3,4)] io_ctxD [OF assms(1,2)] by auto
  then show ?thesis
    by (intro io_inv_put [OF assms(1,2), of "arm (io_ctxs s ! p) ev q cb cur"])
      (simp_all add: armed_def Let_def)
qed

lemma pending_pos:
  assumes "io_inv s" "p < length (io_ctxs s)" "has (io_ctxs s ! p) ev" "ev \<in> {READ, WRITE}"
  shows "0 < m_pendingEventCount s"
proof -
  have "0 < npending (io_ctxs s ! p)" using assms(3,4) by (auto simp: npending_def)
  then have "0 < sum_list (map npending (io_ctxs s))"
    using member_le_sum_list [of "npending (io_ctxs s ! p)" "map npending (io_ctxs s)"] assms(2) by auto
  then show ?thesis using assms(1) by (simp add: io_inv_def)
qed

lemma disarmed_inv:
  assumes "io_inv s" "p < length (io_ctxs s)" "has (io_ctxs s ! p) ev" "ev \<in> {READ, WRITE}"
  shows "io_inv (disarmed s p ev)" "io_inv (wakes s p ev)"
proof -
  show inv: "io_inv (disarmed s p ev)"
    using disarm_ok(1-3) [OF _ assms(3,4)] io_ctxD [OF assms(1,2)] pending_pos [OF assms]
    by (intro io_inv_put [OF assms(1,2), of "disarm (io_ctxs s ! p) ev"])
      (simp_all add: disarmed_def Let_def)
  show "io_inv (wakes s p ev)"
    by (rule io_inv_cong [OF inv]) (simp_all add: wakes_def)
qed

section \<open>Ready events\<close>

text \<open>The events of a context that a report of the kernel stands for.\<close>

definition real_of :: "u32 \<Rightarrow> 'f fd_ctx \<Rightarrow> u32" where
  "real_of ev c =
    (let ev1 = (if ev AND (EPOLLERR OR EPOLLHUP) \<noteq> 0
                then ev OR ((EPOLLIN OR EPOLLOUT) AND fc_events c) else ev)
     in (if ev1 AND EPOLLIN \<noteq> 0 then READ else NONE) OR (if ev1 AND EPOLLOUT \<noteq> 0 then WRITE else NONE))"

definition wakes_all :: "'f iom \<Rightarrow> nat \<Rightarrow> u32 \<Rightarrow> 'f iom" where
  "wakes_all s p r =
    (let s1 = (if r AND READ \<noteq> 0 then wakes s p READ else s)
     in if r AND WRITE \<noteq> 0 then wakes s1 p WRITE else s1)"

lemma real_of_cases: "real_of ev c \<in> {0, READ, WRITE, READ OR WRITE}"
  by (simp add: real_of_def Let_def)

lemma trigger_counted_plain:
  assumes "ctx_ok (io_ctxs s ! p)" "has (io_ctxs s ! p) ev" "ev \<in> {READ, WRITE}"
  shows "trigger_counted s p ev = Inr ((wakes s p ev)\<lparr>io_interest := io_interest s\<rparr>)"
proof -
  have io_int: "io_schedule (s\<lparr>io_interest := n\<rparr>) q t = (io_schedule s q t)\<lparr>io_interest := n\<rparr>"
    for s :: "'a iom" and n q t
    by (auto simp: io_schedule_def Let_def io_trickle_def split: prod.splits)
  show ?thesis
    using trigger_eq [OF assms]
    by (cases s) (simp add: trigger_counted_def wakes_def disarmed_def put_ctx_def Let_def
      io_schedule_upd [symmetric] io_int [symmetric])
qed

lemma wakes_simps [simp]:
  "io_ctxs (wakes s p ev) = (io_ctxs s)[p := disarm (io_ctxs s ! p) ev]"
  "io_interest (wakes s p ev) = (io_interest s)(int p := interest p (disarm (io_ctxs s ! p) ev))"
  by (simp_all add: wakes_def disarmed_def Let_def)

lemma disarm_other:
  assumes "ctx_ok c" "has c READ" "has c WRITE"
  shows "has (disarm c READ) WRITE" "interest p (disarm (disarm c READ) WRITE) = None"
    "ctx_ok (disarm c READ)" "interest p (disarm c READ) \<noteq> None"
  using assms(2,3) by (cases rule: ctx_cases [OF assms(1)]; simp add: ctx_defs interest_def ctx_ok_def)+

lemma wakes_interest:
  "wakes (s\<lparr>io_interest := f\<rparr>) p ev =
    (wakes s p ev)\<lparr>io_interest := f(int p := interest p (disarm (io_ctxs s ! p) ev))\<rparr>"
proof -
  have io_int: "io_schedule (s\<lparr>io_interest := n\<rparr>) q t = (io_schedule s q t)\<lparr>io_interest := n\<rparr>"
    for s :: "'a iom" and n q t
    by (auto simp: io_schedule_def Let_def io_trickle_def split: prod.splits)
  show ?thesis
    by (cases s) (simp add: wakes_def disarmed_def Let_def io_int [symmetric])
qed

lemma and_real:
  assumes "ctx_ok c" "fc_events c AND r \<noteq> 0" "r AND NOT (fc_events c) = 0" "r \<in> {0, READ, WRITE, READ OR WRITE}"
  obtains "r = READ" "has c READ" | "r = WRITE" "has c WRITE" | "r = READ OR WRITE" "has c READ" "has c WRITE"
  using assms(2-4) by (cases rule: ctx_cases [OF assms(1)]) (auto simp: has_def)

lemma io_event_eq:
  assumes inv: "io_inv s" and p: "p < length (io_ctxs s)"
    and r: "r = real_of ev (io_ctxs s ! p)" "r AND NOT (fc_events (io_ctxs s ! p)) = 0"
  shows "io_event s (Data_ptr p) ev rt2 = Inr (if rt2 = 0 then wakes_all s p r else s)"
proof (cases "fc_events (io_ctxs s ! p) AND r = 0")
  case True
  then have "r = 0" using r real_of_cases [of ev "io_ctxs s ! p"] io_ctxD(1) [OF inv p]
    by (auto elim!: ctx_cases)
  then show ?thesis
    using r(1) by (simp add: io_event_def Let_def real_of_def wakes_all_def)
next
  case False
  let ?c = "io_ctxs s ! p"
  define s1 where "s1 = epoll_ctl s (if fc_events ?c AND NOT r \<noteq> 0 then EPOLL_CTL_MOD else EPOLL_CTL_DEL)
    (int p) p (EPOLLET OR (fc_events ?c AND NOT r)) 0"
  note c = io_ctxD(1,2) [OF inv p]
  have ev: "io_event s (Data_ptr p) ev rt2 = (if rt2 \<noteq> 0 then Inr s
      else bindE (if r AND READ \<noteq> 0 then trigger_counted s1 p READ else Inr s1) (\<lambda>s2.
        if r AND WRITE \<noteq> 0 then trigger_counted s2 p WRITE else Inr s2))"
    using False r(1) c(2) by (simp add: s1_def io_event_def Let_def real_of_def epoll_ctl_def)
  have s1: "s1 = s\<lparr>io_interest := (io_interest s)(int p := (if fc_events ?c AND NOT r \<noteq> 0
      then Some (p, EPOLLET OR (fc_events ?c AND NOT r)) else None))\<rparr>"
    by (simp add: s1_def epoll_ctl_def)
  show ?thesis
  proof (cases rule: and_real [OF c(1) False r(2), unfolded r(1), OF real_of_cases, folded r(1)])
    case 1
    then show ?thesis
      using trigger_counted_eq [OF c(1) 1(2), of s1] disarm_ok(4) [OF c(1) 1(2)] s1
      by (simp add: ev wakes_all_def interest_def)
  next
    case 2
    then show ?thesis
      using trigger_counted_eq [OF c(1) 2(2), of s1] disarm_ok(4) [OF c(1) 2(2)] s1
      by (simp add: ev wakes_all_def interest_def)
  next
    case 3
    have left: "fc_events ?c AND NOT r = 0"
      using 3 by (cases rule: ctx_cases [OF c(1)]) (auto simp: has_def)
    have t1: "trigger_counted s1 p READ =
        Inr ((wakes s p READ)\<lparr>io_interest := (io_interest s)(int p := None)\<rparr>)"
      using trigger_counted_plain [of s1 p READ] c 3(2)
      unfolding s1 left by (simp add: wakes_interest)
    let ?s2 = "(wakes s p READ)\<lparr>io_interest := (io_interest s)(int p := None)\<rparr>"
    have "trigger_counted ?s2 p WRITE = Inr (wakes (wakes s p READ) p WRITE)"
      using trigger_counted_eq [of "wakes s p READ" p WRITE ?s2] disarm_other [OF c(1) 3(2,3)] p
      by simp
    then show ?thesis
      using 3(1) t1 by (simp add: ev wakes_all_def)
  qed
qed

lemma wakes_all_inv:
  assumes "io_inv s" "p < length (io_ctxs s)" "r AND NOT (fc_events (io_ctxs s ! p)) = 0"
    "r \<in> {0, READ, WRITE, READ OR WRITE}"
  shows "io_inv (wakes_all s p r)"
proof (cases "fc_events (io_ctxs s ! p) AND r = 0")
  case True
  then have "r = 0" using assms(3,4) io_ctxD(1) [OF assms(1,2)] by (auto elim!: ctx_cases)
  then show ?thesis using assms(1) by (simp add: wakes_all_def)
next
  case False
  show ?thesis
    using disarmed_inv(2) [OF assms(1,2)] disarm_other(1) [OF io_ctxD(1) [OF assms(1,2)]] assms(2)
      disarmed_inv(2) [of "wakes s p READ" p WRITE]
    by (cases rule: and_real [OF io_ctxD(1) [OF assms(1,2)] False assms(3,4)])
      (simp_all add: wakes_all_def)
qed

section \<open>Runs\<close>

definition registered :: "'f iom \<Rightarrow> int \<Rightarrow> u32 \<Rightarrow> bool" where
  "registered s fd ev \<longleftrightarrow> 0 \<le> fd \<and> nat fd < length (io_ctxs s) \<and> has (io_ctxs s ! nat fd) ev"

text \<open>
  The steps: client calls, and in the idle fibers the end of a wait, the due timers and the handling
  of one report of the kernel. A report of the kernel is about events that are still registered when
  it is handled; \<open>stale_report_asserts\<close> below is about reports that are not.
\<close>

inductive io_step :: "'f iom \<Rightarrow> 'f iom \<Rightarrow> bool" where
  io_add: "0 \<le> fd \<Longrightarrow> ev \<in> {READ, WRITE} \<Longrightarrow> addEvent s fd ev cb (Some q) cur st rt = Inr (r, s') \<Longrightarrow>
    io_step s s'"
| io_del: "0 \<le> fd \<Longrightarrow> ev \<in> {READ, WRITE} \<Longrightarrow> delEvent s fd ev rt = Inr (r, s') \<Longrightarrow> io_step s s'"
| io_cancel: "0 \<le> fd \<Longrightarrow> ev \<in> {READ, WRITE} \<Longrightarrow> cancelEvent s fd ev rt = Inr (r, s') \<Longrightarrow> io_step s s'"
| io_cancel_all: "0 \<le> fd \<Longrightarrow> cancelAll s fd rt = Inr (r, s') \<Longrightarrow> io_step s s'"
| io_report: "p < length (io_ctxs s) \<Longrightarrow>
    real_of ev (io_ctxs s ! p) AND NOT (fc_events (io_ctxs s ! p)) = 0 \<Longrightarrow>
    io_event s (Data_ptr p) ev rt = Inr s' \<Longrightarrow> io_step s s'"
| io_drain: "io_event s (Data_fd (fst (m_trickleFds s))) ev rt = Inr s' \<Longrightarrow> io_step s s'"
| io_post: "io_step s (io_schedule s q t)"
| io_post_range: "io_step s (io_schedule_range s cs)"
| io_timer: "io_addTimer s now a ms cb recurring = (r, s') \<Longrightarrow> io_step s s'"
| io_work: "io_step s (s\<lparr>io_timers := tm, io_sched := sc\<rparr>)"

lemma io_step_inv: "io_step s s' \<Longrightarrow> io_inv s \<Longrightarrow> io_inv s'"
proof (induction rule: io_step.induct)
  case (io_add fd ev s cb q cur st rt r s')
  note g = grown_inv [OF io_add(4,1)]
  have "addEvent s fd ev cb (Some q) cur st rt =
      addEvent_locked (grown s fd) (nat fd) (int (nat fd)) ev cb (Some q) cur st rt"
    using addEvent_eq [OF io_add(4,1)] io_add(1) by simp
  then show ?case
    using io_add(3) armed_inv [OF g _ io_add(2)] g(1)
    unfolding addEvent_locked_eq [OF g io_add(2)] by (auto split: if_splits)
next
  case (io_del fd ev s rt r s')
  then show ?case
    using delEvent_eq [of s fd ev rt] disarmed_inv(1) [of s "nat fd" ev] by (auto split: if_splits)
next
  case (io_cancel fd ev s rt r s')
  then show ?case
    using cancelEvent_eq [of s fd ev rt] disarmed_inv(2) [of s "nat fd" ev] by (auto split: if_splits)
next
  case (io_cancel_all fd s rt r s')
  then show ?case using cancelAll_eq [of s fd rt] by auto
next
  case (io_report p s ev rt s')
  then show ?case
    using io_event_eq [OF io_report(4,1) refl io_report(2), of rt]
      wakes_all_inv [OF io_report(4,1,2) real_of_cases] by (auto split: if_splits)
next
  case (io_drain s ev rt s')
  then show ?case by (auto simp: io_event_def intro: io_inv_cong)
qed (auto simp: io_addTimer_def onTimerInsertedAtFront_def Let_def split: prod.splits if_splits
    intro: io_inv_cong)

lemma io_inv_first:
  assumes "m_fdContexts s = []" "io_ctxs s = []" "io_interest s = Map.empty" "m_pendingEventCount s = 0"
    "32 \<le> n"
  shows "io_inv (contextResize s n)"
proof -
  have "map npending (map FdContext [0..<n]) = replicate n 0"
    by (rule nth_equalityI) simp_all
  then show ?thesis
    using assms by (simp add: contextResize_def fill_none io_inv_def sum_list_replicate)
qed

lemma io_inv_init:
  assumes "IOManager threads uc ts a tid ids now self fds epfd rt1 rt2 rt3 = Inr s"
  shows "io_inv s"
proof -
  obtain s1 :: "'a iom" and sc where "s = (contextResize s1 32)\<lparr>io_sched := sc\<rparr>"
    "m_fdContexts s1 = []" "io_ctxs s1 = []" "io_interest s1 = Map.empty" "m_pendingEventCount s1 = 0"
    using assms by (auto simp: IOManager_def Let_def split: if_splits)
  then show ?thesis
    using io_inv_first [of s1 32] by (auto intro: io_inv_cong)
qed

lemma io_reach_inv: "io_step\<^sup>*\<^sup>* s s' \<Longrightarrow> io_inv s \<Longrightarrow> io_inv s'"
  by (induction rule: rtranclp_induct) (auto intro: io_step_inv)

lemma registered_grown:
  assumes "io_inv s" "0 \<le> fd"
  shows "has (io_ctxs (grown s fd) ! nat fd) ev \<longleftrightarrow> registered s fd ev"
proof (cases "int (length (io_ctxs s)) > fd")
  case True
  then show ?thesis using assms(2) by (auto simp: grown_def registered_def)
next
  case False
  define m where "m = nat (fd * 3 div 2)"
  have n: "length (io_ctxs s) \<le> m" "nat fd < m" "length (io_ctxs s) \<le> nat fd"
    using False assms unfolding m_def io_inv_def by linarith+
  then have "io_ctxs (grown s fd) ! nat fd = FdContext (nat fd)"
    using False io_inv_grow(3) [OF assms(1) n(1)] by (simp add: grown_def nth_append m_def [symmetric])
  then show ?thesis using n(3) by (simp add: registered_def has_def FdContext_def)
qed

lemma addEvent_armed:
  assumes "io_inv s" "0 \<le> fd" "ev \<in> {READ, WRITE}"
  shows "addEvent s fd ev cb (Some q) cur st rt =
    (if registered s fd ev then Inl (Assert_fail ''!(fd_ctx->events & event)'')
     else if rt \<noteq> 0 then Inr (-1, grown s fd)
     else if cb = None \<and> st \<noteq> EXEC
     then Inl (Assert_fail ''event_ctx.fiber->getState() == Fiber::EXEC'')
     else Inr (0, armed (grown s fd) (nat fd) ev q cb cur))"
  using addEvent_eq [OF assms(1,2), of ev cb "Some q" cur st rt] registered_grown [OF assms(1,2), of ev]
    addEvent_locked_eq [OF grown_inv [OF assms(1,2)] assms(3), of cb q cur st rt] assms(2) by simp

lemma disarmed_armed:
  assumes "io_inv s" "p < length (io_ctxs s)" "\<not> has (io_ctxs s ! p) ev" "ev \<in> {READ, WRITE}"
  shows "disarmed (armed s p ev q cb cur) p ev = s"
    "wakes (armed s p ev q cb cur) p ev = io_schedule s q
      (if cb \<noteq> None then \<lparr>tk_fiber = None, tk_cb = cb, tk_thread = -1\<rparr>
       else \<lparr>tk_fiber = Some cur, tk_cb = None, tk_thread = -1\<rparr>)"
proof -
  note a = arm_ok [OF io_ctxD(1) [OF assms(1,2)] assms(3,4), of q cb cur]
  have "(io_interest s)(int p := interest p (io_ctxs s ! p)) = io_interest s"
    using io_ctxD(3) [OF assms(1,2)] by (simp add: fun_upd_idem)
  then show d: "disarmed (armed s p ev q cb cur) p ev = s"
    using assms(2) a(7) by (simp add: disarmed_def armed_def Let_def)
  have "io_ctxs (armed s p ev q cb cur) ! p = arm (io_ctxs s ! p) ev q cb cur"
    using assms(2) by (simp add: armed_def Let_def)
  then show "wakes (armed s p ev q cb cur) p ev = io_schedule s q
      (if cb \<noteq> None then \<lparr>tk_fiber = None, tk_cb = cb, tk_thread = -1\<rparr>
       else \<lparr>tk_fiber = Some cur, tk_cb = None, tk_thread = -1\<rparr>)"
    using a(5) by (simp add: wakes_def d waiter_def)
qed

lemma contextResize_shrink:
  assumes "io_inv s" "n \<le> length (io_ctxs s)"
  shows "contextResize s n = s\<lparr>m_fdContexts := map Some [0..<n]\<rparr>"
proof -
  have "take n (m_fdContexts s) = map Some [0..<n] @ []" "length (m_fdContexts s) = length (io_ctxs s)"
    using assms by (simp_all add: io_inv_def take_map)
  then show ?thesis
    using assms(2) fill_some [of 0 "[0..<n]" "[]" "io_ctxs s"] by (simp add: contextResize_def)
qed

lemma cast_int:
  fixes t :: u64
  assumes "uint t < 2 ^ 31"
  shows "sint (ucast t :: u32) = uint t"
proof -
  have "uint (ucast t :: u32) = uint t"
    using assms by (simp add: unsigned_ucast_eq take_bit_int_eq_self)
  then show ?thesis
    using assms order_trans [of "- (2 ^ 31)" 0 "uint t"]
    by (simp add: sint_uint signed_take_bit_int_eq_self)
qed

lemma clip_timeout_bounds:
  assumes "t = NOT 0 \<or> t < 0x80000000"
  shows "clip_timeout t \<le> 3000"
proof (cases "t = NOT 0")
  case False
  then have t: "uint t < 2 ^ 31" using assms by (simp add: word_less_def)
  then show ?thesis using cast_int [OF t] by (simp add: clip_timeout_def word_le_def)
qed (simp add: clip_timeout_def)

lemma wait_loop_bounds:
  "wait_loop t ws = Some (ts, evs) \<Longrightarrow> t = NOT 0 \<or> t < 0x80000000 \<Longrightarrow> x \<in> set ts \<Longrightarrow>
    0 \<le> sint x \<and> sint x \<le> 3000"
proof (induction ws arbitrary: t ts)
  case (Cons w ws)
  have c: "clip_timeout t \<le> 3000" using clip_timeout_bounds [OF Cons.prems(2)] .
  then have "uint (clip_timeout t) \<le> 3000" by (simp add: word_le_def)
  then have b: "0 \<le> sint (ucast (clip_timeout t) :: u32) \<and> sint (ucast (clip_timeout t) :: u32) \<le> 3000"
    using cast_int [of "clip_timeout t"] by simp
  have "clip_timeout t < 0x80000000" using c by (simp add: word_le_def word_less_def)
  then show ?case
    using Cons.prems b Cons.IH [of "clip_timeout t"]
    by (auto simp: Let_def split: wait_answer.splits option.splits)
qed simp

lemma io_sched_resize [simp]: "io_sched (contextResize s n) = io_sched s"
  by (simp add: contextResize_def Let_def split: prod.splits)

lemma schedule_range_queue:
  "m_fibers (snd (schedule_range_loop sc n fts)) = m_fibers sc @ filter real_task fts"
  by (induction fts arbitrary: sc n) (auto simp: scheduleNoLock_def Let_def real_task_def)

lemma io_timers_range [simp]: "io_timers (io_schedule_range s cs) = io_timers s"
  by (simp add: io_schedule_range_def Let_def split: prod.split)

lemma io_schedule_range_queue:
  "m_fibers (io_sched (io_schedule_range s cbs)) = m_fibers (io_sched s) @
    filter real_task (map (\<lambda>c. \<lparr>tk_fiber = None, tk_cb = c, tk_thread = -1\<rparr>) cbs)"
  using schedule_range_queue [of "io_sched s" False
      "map (\<lambda>c. \<lparr>tk_fiber = None, tk_cb = c, tk_thread = -1\<rparr>) cbs"]
  by (auto simp: io_schedule_range_def Let_def split: prod.splits)

lemma manager_example:
  "\<exists>s :: 'f iom. IOManager 1 True False 5 7 [] 0 99 (3, 4) 6 0 0 0 = Inr s \<and> io_self s = 99 \<and>
    io_timers s = TimerManager 0 \<and> io_ctxs s = map FdContext [0..<32]"
proof -
  have "io_ctxs (contextResize s n) = map FdContext [0..<n]" "io_self (contextResize s n) = io_self s"
    "io_timers (contextResize s n) = io_timers s"
    if "m_fdContexts s = []" "io_ctxs s = []" for s :: "'f iom" and n
    using that by (simp_all add: contextResize_def fill_none)
  then show ?thesis
    by (simp add: IOManager_def Scheduler_def Start_def Let_def del: upt_rec_numeral)
qed

section \<open>Properties\<close>



text \<open>
  C9: A registered event is delivered once. Registering a function or the current fiber for an
  event that is not registered succeeds; a report of the kernel for the event, or \<open>cancelEvent\<close>,
  then schedules exactly that function or fiber on the caller's scheduler and leaves the manager
  otherwise as it was before the registration; \<open>delEvent\<close> leaves it as it was and schedules nothing.
  (\<open>grown s fd\<close> is \<open>s\<close> with the contexts up to \<open>fd\<close> allocated.)
\<close>

theorem io_delivery:
  assumes "IOManager threads uc ts a tid ids now self fds epfd rt1 rt2 rt3 = Inr s0" "io_step\<^sup>*\<^sup>* s0 s"
    "0 \<le> fd" "ev \<in> {READ, WRITE}" "\<not> registered s fd ev"
    "t = (if cb \<noteq> None then \<lparr>tk_fiber = None, tk_cb = cb, tk_thread = -1\<rparr>
          else \<lparr>tk_fiber = Some cur, tk_cb = None, tk_thread = -1\<rparr>)"
  shows "\<exists>s1. addEvent s fd ev cb (Some q) cur EXEC 0 = Inr (0, s1) \<and> registered s1 fd ev \<and>
    m_pendingEventCount s1 = m_pendingEventCount s + 1 \<and>
    delEvent s1 fd ev 0 = Inr (True, grown s fd) \<and>
    cancelEvent s1 fd ev 0 = Inr (True, io_schedule (grown s fd) q t) \<and>
    (\<forall>x. real_of x (io_ctxs s1 ! nat fd) = ev \<longrightarrow>
       io_event s1 (Data_ptr (nat fd)) x 0 = Inr (io_schedule (grown s fd) q t))"
proof -
  have inv: "io_inv s" using io_reach_inv [OF assms(2) io_inv_init [OF assms(1)]] .
  let ?g = "grown s fd" and ?p = "nat fd"
  let ?s1 = "armed ?g ?p ev q cb cur"
  note g = grown_inv [OF inv assms(3)]
  have free: "\<not> has (io_ctxs ?g ! ?p) ev" using registered_grown [OF inv assms(3)] assms(5) by simp
  note a = arm_ok [OF io_ctxD(1) [OF g] free assms(4), of q cb cur]
  have inv1: "io_inv ?s1" using armed_inv [OF g free assms(4)] .
  have c1: "io_ctxs ?s1 ! ?p = arm (io_ctxs ?g ! ?p) ev q cb cur" and l1: "?p < length (io_ctxs ?s1)"
    using g(2) by (simp_all add: armed_def Let_def)
  have "m_pendingEventCount ?s1 = m_pendingEventCount s + 1"
    by (simp add: armed_def grown_def contextResize_def Let_def split: prod.splits)
  moreover have "io_event ?s1 (Data_ptr ?p) x 0 = Inr (wakes ?s1 ?p ev)"
    if "real_of x (io_ctxs ?s1 ! ?p) = ev" for x
  proof -
    have "ev AND NOT (fc_events (io_ctxs ?s1 ! ?p)) = 0"
      unfolding c1 a(4) by (rule bit_eqI) (auto simp: bit_simps)
    then show ?thesis
      using io_event_eq [OF inv1 l1 that [symmetric], of 0] assms(4) by (auto simp: wakes_all_def)
  qed
  ultimately show ?thesis
    using addEvent_armed [OF inv assms(3,4), of cb q cur EXEC 0] assms(3,5,6) a(6) c1 l1
      disarmed_armed [OF g free assms(4), of q cb cur]
      delEvent_eq [OF inv1 assms(3,4), of 0] cancelEvent_eq [OF inv1 assms(3,4), of 0]
    by (auto simp: registered_def)
qed

theorem io_delivery_witness:
  "\<exists>(s :: string iom) s1. IOManager 1 True False 5 7 [] 0 99 (3, 4) 6 0 0 0 = Inr s \<and>
    addEvent s 40 READ None (Some 99) 2 EXEC 0 = Inr (0, s1) \<and>
    cancelEvent s1 40 READ 0 =
      Inr (True, io_schedule (grown s 40) 99 \<lparr>tk_fiber = Some 2, tk_cb = None, tk_thread = -1\<rparr>)"
proof -
  obtain s :: "string iom" where s: "IOManager 1 True False 5 7 [] 0 99 (3, 4) 6 0 0 0 = Inr s"
    "io_ctxs s = map FdContext [0..<32]"
    using manager_example by blast
  show ?thesis
    using io_delivery [OF s(1) rtranclp.rtrancl_refl, of 40 READ _ None 2 99] s
    by (auto simp: registered_def)
qed



text \<open>
  The wait of an idle thread is at most three seconds, interrupted or not, unless the earliest
  timer is more than 2147483647 milliseconds away: then the cast of the timeout to \<open>int\<close> can be
  negative, which \<^verbatim>\<open>epoll_wait\<close> takes as no timeout at all.
\<close>

theorem idle_wait_bounded:
  assumes "wait_loop t ws = Some (timeouts, evs)" "t = NOT 0 \<or> t < 0x80000000" "x \<in> set timeouts"
  shows "0 \<le> sint x \<and> sint x \<le> 3000 \<and> sint (ucast (clip_timeout 0x80000000) :: u32) < 0"
proof -
  have "clip_timeout 0x80000000 = 0x80000000" by (simp add: clip_timeout_def)
  then show ?thesis using wait_loop_bounds [OF assms] by simp
qed

theorem idle_wait_bounded_witness:
  "wait_loop 5000 [Interrupted, Ready []] = Some ([3000, 3000], []) \<and> sint (3000 :: u32) \<le> 3000"
  using idle_wait_bounded [of 5000 "[Interrupted, Ready []]" "[3000, 3000]" "[]" 3000]
  by (simp add: clip_timeout_def)

text \<open>
  \<open>cancelAll\<close> never cancels anything: with events registered it returns false at once, and
  without it finds nothing to trigger. Its effect in every reachable state is none.
\<close>

theorem cancelAll_noop:
  assumes "IOManager threads uc ts a tid ids now self fds epfd rt1 rt2 rt3 = Inr s0" "io_step\<^sup>*\<^sup>* s0 s"
    "0 \<le> fd"
  shows "\<exists>b. cancelAll s fd rt = Inr (b, s) \<and> (b \<longrightarrow> \<not> registered s fd READ \<and> \<not> registered s fd WRITE)"
proof -
  have inv: "io_inv s" using io_reach_inv [OF assms(2) io_inv_init [OF assms(1)]] .
  show ?thesis
    using cancelAll_eq [OF inv assms(3), of rt] by (auto simp: registered_def has_def)
qed

theorem cancelAll_noop_witness:
  "\<exists>(s :: string iom) b. IOManager 1 True False 5 7 [] 0 99 (3, 4) 6 0 0 0 = Inr s \<and>
    cancelAll s 8 0 = Inr (b, s)"
proof -
  obtain s :: "string iom" where s: "IOManager 1 True False 5 7 [] 0 99 (3, 4) 6 0 0 0 = Inr s"
    using manager_example by blast
  then show ?thesis using cancelAll_noop [OF s rtranclp.rtrancl_refl, of 8 0] by auto
qed

text \<open>
  A stale report asserts. If the kernel reported both events of a descriptor and only one is
  still registered when the idle thread handles the report (the other was deleted in between), the
  thread triggers the deleted event as well, and the assertion of \<open>triggerEvent\<close> fails.
\<close>

theorem stale_report_asserts:
  assumes "io_inv s" "p < length (io_ctxs s)" "has (io_ctxs s ! p) READ" "\<not> has (io_ctxs s ! p) WRITE"
  shows "io_event s (Data_ptr p) (EPOLLIN OR EPOLLOUT) 0 = Inl (Assert_fail ''events & event'')"
proof -
  let ?c = "io_ctxs s ! p"
  let ?s1 = "s\<lparr>io_interest := (io_interest s)(int p := None)\<rparr>"
  have c: "fc_events ?c = READ" "fc_fd ?c = int p"
    using assms(3,4) io_ctxD(2) [OF assms(1,2)]
    by (cases rule: ctx_cases [OF io_ctxD(1) [OF assms(1,2)]]; simp add: has_def)+
  have "trigger_counted ?s1 p READ = Inr ((wakes ?s1 p READ)\<lparr>io_interest := io_interest ?s1\<rparr>)"
    using trigger_counted_plain [of ?s1 p READ] io_ctxD(1) [OF assms(1,2)] assms(3) by simp
  moreover have "fc_events (disarm ?c READ) = 0"
    using disarm_ok(4) [OF io_ctxD(1) [OF assms(1,2)] assms(3)] c by simp
  ultimately show ?thesis
    using c assms(2)
    by (simp add: io_event_def Let_def epoll_ctl_def trigger_counted_def [of "_\<lparr>io_interest := _\<rparr>" _ WRITE]
        triggerEvent_def)
qed

theorem stale_report_asserts_witness:
  "\<exists>s :: string iom. io_inv s \<and> registered s 8 READ \<and>
    io_event s (Data_ptr 8) (EPOLLIN OR EPOLLOUT) 0 = Inl (Assert_fail ''events & event'')"
proof -
  obtain s :: "string iom" where s: "IOManager 1 True False 5 7 [] 0 99 (3, 4) 6 0 0 0 = Inr s"
    "io_ctxs s = map FdContext [0..<32]"
    using manager_example by blast
  have inv: "io_inv s" using io_inv_init [OF s(1)] .
  have c: "io_ctxs s ! 8 = FdContext 8" "length (io_ctxs s) = 32"
    using s(2) by (simp_all del: upt_rec_numeral)
  then have free: "\<not> has (io_ctxs s ! 8) READ" by (simp add: has_def FdContext_def)
  let ?s = "armed s 8 READ 99 None 2"
  have "io_inv ?s" "8 < length (io_ctxs ?s)" "io_ctxs ?s ! 8 = arm (FdContext 8) READ 99 None 2"
    using armed_inv [OF inv _ free] c by (simp_all add: armed_def Let_def)
  then show ?thesis
    using stale_report_asserts [of ?s 8]
    by (auto simp: registered_def ctx_defs FdContext_def intro!: exI [of _ ?s])
qed

text \<open>
  Two threads that grow the context vector at once can lose an event. Both find their
  descriptors beyond the vector; one grows it and registers its event; then the other one, for a
  smaller descriptor, resizes the vector to a smaller size, and the first descriptor's context is
  gone. Its event stays pending but can no longer be deleted or cancelled, so the manager never stops.
\<close>

theorem resize_race:
  assumes "io_inv s" "int (length (io_ctxs s)) \<le> fd2" "fd2 * 3 div 2 \<le> fd1"
  shows "\<exists>p1 s1 s2 p2 s3. addEvent_lookup s fd1 = Inr None \<and> addEvent_lookup s fd2 = Inr None \<and>
    addEvent_grow s fd1 = Inr (p1, s1) \<and>
    addEvent_locked s1 p1 fd1 READ (Some cb) (Some q) cur st 0 = Inr (0, s2) \<and>
    addEvent_grow s2 fd2 = Inr (p2, s3) \<and>
    m_pendingEventCount s3 = m_pendingEventCount s + 1 \<and>
    delEvent s3 fd1 READ rt = Inr (False, s3) \<and> cancelEvent s3 fd1 READ rt = Inr (False, s3) \<and>
    \<not> fst (io_stopping s3 now)"
proof -
  have pos: "0 \<le> fd2" "0 \<le> fd1" "fd2 < fd1" "fd2 < fd2 * 3 div 2" "int (length (io_ctxs s)) \<le> fd1"
    and len: "length (m_fdContexts s) = length (io_ctxs s)"
    using assms by (auto simp: io_inv_def)
  let ?g = "grown s fd1" and ?p = "nat fd1"
  let ?s2 = "armed ?g ?p READ q (Some cb) cur"
  let ?n = "nat (fd2 * 3 div 2)"
  let ?s3 = "?s2\<lparr>m_fdContexts := map Some [0..<?n]\<rparr>"
  note g = grown_inv [OF assms(1) pos(2)]
  have "addEvent_lookup s fd1 = Inr None" "addEvent_lookup s fd2 = Inr None"
    using pos assms len by (simp_all add: addEvent_lookup_def)
  moreover have "addEvent_grow s fd1 = Inr (?p, ?g)"
    using fd_context_eq [OF g(1) pos(2) g(2)] pos by (simp add: addEvent_grow_def grown_def Let_def)
  moreover have free: "\<not> has (io_ctxs ?g ! ?p) READ"
    using registered_grown [OF assms(1) pos(2)] pos(5) by (auto simp: registered_def)
  then have "addEvent_locked ?g ?p fd1 READ (Some cb) (Some q) cur st 0 = Inr (0, ?s2)"
    using addEvent_locked_eq [OF g, of READ "Some cb" q cur st 0] pos(2) by simp
  moreover have inv2: "io_inv ?s2" and l2: "?p < length (io_ctxs ?s2)"
    using armed_inv [OF g free] g(2) by (simp_all add: armed_def Let_def)
  then have "contextResize ?s2 ?n = ?s3"
    using contextResize_shrink [of ?s2 ?n] assms(3) by linarith
  then have "addEvent_grow ?s2 fd2 = Inr (nat fd2, ?s3)"
    using pos by (simp add: addEvent_grow_def Let_def fd_context_def nat_less_iff)
  moreover have "m_pendingEventCount ?s3 = m_pendingEventCount s + 1"
    by (simp add: armed_def grown_def contextResize_def Let_def split: prod.splits)
  moreover have "delEvent ?s3 fd1 READ rt = Inr (False, ?s3)" "cancelEvent ?s3 fd1 READ rt = Inr (False, ?s3)"
    using assms(3) pos by (simp_all add: delEvent_def cancelEvent_def)
  ultimately show ?thesis
    by (fastforce simp: io_stopping_def Let_def split: prod.splits)
qed

theorem resize_race_witness:
  "\<exists>s :: string iom. IOManager 1 True False 5 7 [] 0 99 (3, 4) 6 0 0 0 = Inr s \<and>
    addEvent_lookup s 40 = Inr None \<and> addEvent_lookup s 100 = Inr None"
proof -
  obtain s :: "string iom" where s: "IOManager 1 True False 5 7 [] 0 99 (3, 4) 6 0 0 0 = Inr s"
    "io_ctxs s = map FdContext [0..<32]"
    using manager_example by blast
  then show ?thesis
    using resize_race [OF io_inv_init [OF s(1)], of 40 100 "Direct ''cb''" 99 1 EXEC 0 0] by auto
qed

end
