(* ===== verification/Sylar_FdManager.thy ===== *)
theory Sylar_FdManager
  imports Sylar_Prelude
begin

text \<open>
  The table of descriptors the hooks know about (\<^verbatim>\<open>sylar/fd_manager.cpp\<close>). \<^verbatim>\<open>FdCtx\<close> is a value here:
  the table owns it, and the code keeps no reference to one across a step. The kernel's side is the
  map \<open>flags\<close> of file status flags and the answer of \<^verbatim>\<open>fstat\<close>, an argument: \<open>None\<close> for an error,
  otherwise whether the descriptor is a socket.
\<close>

section \<open>State\<close>

abbreviation O_NONBLOCK :: u32 where "O_NONBLOCK \<equiv> 0x800"
abbreviation SO_RCVTIMEO :: int where "SO_RCVTIMEO \<equiv> 20"
abbreviation SO_SNDTIMEO :: int where "SO_SNDTIMEO \<equiv> 21"

record fdctx =
  m_isInit :: bool
  m_isSocket :: bool
  m_sysNonblock :: bool
  m_userNonblock :: bool
  m_isClsed :: bool
  m_fd :: int
  m_recvTimeout :: u64
  m_sendTimeout :: u64

type_synonym kflags = "int \<Rightarrow> u32"

text \<open>\<open>FdManager\<close>: the vector of contexts.\<close>

type_synonym fdmgr = "fdctx option list"

section \<open>A context\<close>

definition init :: "fdctx \<Rightarrow> bool option \<Rightarrow> kflags \<Rightarrow> fdctx \<times> kflags" where
  "init c st fl =
    (if m_isInit c then (c, fl)
     else
       let c1 = c\<lparr>m_recvTimeout := -1, m_sendTimeout := -1,
                  m_isInit := st \<noteq> None, m_isSocket := (st = Some True)\<rparr>;
           fl1 = (if m_isSocket c1 \<and> fl (m_fd c1) AND O_NONBLOCK = 0
                  then fl(m_fd c1 := fl (m_fd c1) OR O_NONBLOCK) else fl)
       in (c1\<lparr>m_sysNonblock := m_isSocket c1, m_userNonblock := False, m_isClsed := False\<rparr>, fl1))"

definition FdCtx :: "int \<Rightarrow> bool option \<Rightarrow> kflags \<Rightarrow> fdctx \<times> kflags" where
  "FdCtx fd st fl =
    init \<lparr>m_isInit = False, m_isSocket = False, m_sysNonblock = False, m_userNonblock = False,
          m_isClsed = False, m_fd = fd, m_recvTimeout = -1, m_sendTimeout = -1\<rparr> st fl"

definition setTimeout :: "fdctx \<Rightarrow> int \<Rightarrow> u64 \<Rightarrow> fdctx" where
  "setTimeout c type v =
    (if type = SO_RCVTIMEO then c\<lparr>m_recvTimeout := v\<rparr> else c\<lparr>m_sendTimeout := v\<rparr>)"

definition getTimeout :: "fdctx \<Rightarrow> int \<Rightarrow> u64" where
  "getTimeout c type = (if type = SO_RCVTIMEO then m_recvTimeout c else m_sendTimeout c)"

definition setUserNonblock :: "fdctx \<Rightarrow> bool \<Rightarrow> fdctx" where
  "setUserNonblock c v = c\<lparr>m_userNonblock := v\<rparr>"

section \<open>The table\<close>

definition FdManager :: fdmgr where
  "FdManager = replicate 64 None"

text \<open>\<open>m_datas[fd]\<close>, undefined outside of the vector.\<close>

definition fd_at :: "fdmgr \<Rightarrow> int \<Rightarrow> fdctx option res" where
  "fd_at ds fd =
    (if 0 \<le> fd \<and> nat fd < length ds then Inr (ds ! nat fd) else Inl Out_of_bounds)"

definition fd_put :: "fdmgr \<Rightarrow> int \<Rightarrow> fdctx option \<Rightarrow> fdmgr res" where
  "fd_put ds fd c =
    (if 0 \<le> fd \<and> nat fd < length ds then Inr (ds[nat fd := c]) else Inl Out_of_bounds)"

text \<open>\<open>get\<close> under the read lock, \<open>None\<close> if the context is to be created; and under the write lock.\<close>

definition get_shared :: "fdmgr \<Rightarrow> int \<Rightarrow> bool \<Rightarrow> fdctx option option res" where
  "get_shared ds fd auto_create =
    (if fd = -1 then Inr (Some None)
     else if int (length ds) \<le> fd then Inr (if auto_create then None else Some None)
     else bindE (fd_at ds fd) (\<lambda>c. Inr (if c \<noteq> None \<or> \<not> auto_create then Some c else None)))"

definition get_create :: "fdmgr \<Rightarrow> int \<Rightarrow> bool option \<Rightarrow> kflags \<Rightarrow> (fdctx \<times> fdmgr \<times> kflags) res" where
  "get_create ds fd st fl =
    (let (ctx, fl') = FdCtx fd st fl;
         n = nat (fd * 3 div 2);
         ds1 = (if int (length ds) \<le> fd then take n ds @ replicate (n - length ds) None else ds)
     in bindE (fd_put ds1 fd (Some ctx)) (\<lambda>ds2. Inr (ctx, ds2, fl')))"

definition get :: "fdmgr \<Rightarrow> int \<Rightarrow> bool \<Rightarrow> bool option \<Rightarrow> kflags \<Rightarrow> (fdctx option \<times> fdmgr \<times> kflags) res" where
  "get ds fd auto_create st fl =
    bindE (get_shared ds fd auto_create) (\<lambda>r.
      case r of
        Some c \<Rightarrow> Inr (c, ds, fl)
      | None \<Rightarrow> bindE (get_create ds fd st fl) (\<lambda>(c, ds', fl'). Inr (Some c, ds', fl')))"

definition del :: "fdmgr \<Rightarrow> int \<Rightarrow> fdmgr res" where
  "del ds fd = (if int (length ds) \<le> fd then Inr ds else fd_put ds fd None)"

section \<open>The table is a map from descriptors to contexts\<close>

text \<open>
  The vector never shrinks below its first size, so growing it to half as much again always makes
  room for the descriptor; and the context of a descriptor carries its number. A context is never
  marked as closed, and only sockets are switched to non-blocking mode.
\<close>

definition fd_inv :: "fdmgr \<Rightarrow> bool" where
  "fd_inv ds \<longleftrightarrow> 64 \<le> length ds \<and>
    (\<forall>i < length ds. \<forall>c. ds ! i = Some c \<longrightarrow>
       m_fd c = int i \<and> \<not> m_isClsed c \<and> m_sysNonblock c = m_isSocket c)"

definition fd_abs :: "fdmgr \<Rightarrow> int \<Rightarrow> fdctx option" where
  "fd_abs ds fd = (if 0 \<le> fd \<and> nat fd < length ds then ds ! nat fd else None)"

lemma FdCtx_props:
  "FdCtx fd st fl = (c, fl') \<Longrightarrow> m_fd c = fd \<and> \<not> m_isClsed c \<and> m_sysNonblock c = m_isSocket c \<and>
    (m_isSocket c \<longleftrightarrow> st = Some True) \<and> \<not> m_userNonblock c \<and> m_recvTimeout c = -1 \<and> m_sendTimeout c = -1"
  by (auto simp: FdCtx_def init_def Let_def)

lemma or_set_bit: "bit x n \<Longrightarrow> x OR 2 ^ n = x" for x :: "'a::len word"
  by (rule bit_eqI) (auto simp: bit_or_iff bit_exp_iff)

lemma FdCtx_flags:
  assumes "FdCtx fd st fl = (c, fl')"
  shows "fl' = (if m_isSocket c then fl(fd := fl fd OR O_NONBLOCK) else fl)"
proof -
  have "fl fd OR O_NONBLOCK = fl fd" if "fl fd AND O_NONBLOCK \<noteq> 0"
  proof -
    have e: "(O_NONBLOCK :: u32) = 2 ^ 11" by simp
    have "bit (fl fd) 11" using that unfolding e by (simp add: and_exp_eq_0_iff_not_bit del: power_numeral)
    then show ?thesis unfolding e by (rule or_set_bit)
  qed
  then show ?thesis
    using assms by (auto simp: FdCtx_def init_def Let_def fun_upd_idem_iff)
qed

lemma get_spec:
  assumes "fd_inv ds" "-1 \<le> fd"
  shows "\<exists>c ds' fl'. get ds fd auto st fl = Inr (c, ds', fl') \<and> fd_inv ds' \<and>
    (case fd_abs ds fd of
       Some c0 \<Rightarrow> c = Some c0 \<and> ds' = ds \<and> fl' = fl
     | None \<Rightarrow> if auto \<and> fd \<noteq> -1
         then c = Some (fst (FdCtx fd st fl)) \<and> fl' = snd (FdCtx fd st fl) \<and> fd_abs ds' = (fd_abs ds)(fd := c)
         else c = None \<and> ds' = ds \<and> fl' = fl)"
proof (cases "fd_abs ds fd \<noteq> None \<or> \<not> auto \<or> fd = -1")
  case True
  have "get_shared ds fd auto = Inr (Some (fd_abs ds fd))"
    using True assms(2) by (auto simp: get_shared_def fd_at_def fd_abs_def split: if_splits)
  then show ?thesis
    using True assms(1) by (auto simp: get_def split: option.splits)
next
  case False
  obtain ctx fl' where ctx: "FdCtx fd st fl = (ctx, fl')" by (cases "FdCtx fd st fl")
  define n where "n = nat (fd * 3 div 2)"
  define ds1 where "ds1 = (if int (length ds) \<le> fd then take n ds @ replicate (n - length ds) None else ds)"
  have fd: "0 \<le> fd" using assms(2) False by auto
  have "fd < fd * 3 div 2" if "64 \<le> fd" using that by linarith
  then have n: "int (length ds) \<le> fd \<Longrightarrow> nat fd < n \<and> length ds \<le> n"
    using assms(1) fd by (auto simp: n_def fd_inv_def)
  have len: "nat fd < length ds1" "length ds \<le> length ds1"
    using n fd by (auto simp: ds1_def)
  have nth: "ds1 ! i = (if i < length ds then ds ! i else None)" if "i < length ds1" for i
    using n that by (auto simp: ds1_def nth_append)
  let ?ds2 = "ds1[nat fd := Some ctx]"
  have none: "get_shared ds fd auto = Inr None"
    using False fd by (auto simp: get_shared_def fd_at_def fd_abs_def split: if_splits)
  have "get_create ds fd st fl = Inr (ctx, ?ds2, fl')"
    using fd len(1) unfolding get_create_def ctx Let_def n_def [symmetric] prod.case ds1_def [symmetric]
    by (simp add: fd_put_def)
  then have "get ds fd auto st fl = Inr (Some ctx, ?ds2, fl')"
    by (simp add: get_def none)
  moreover have "fd_inv ?ds2"
    unfolding fd_inv_def
  proof (intro conjI allI impI)
    show "64 \<le> length ?ds2" using assms(1) len(2) by (simp add: fd_inv_def)
    fix i c assume "i < length ?ds2" "?ds2 ! i = Some c"
    then have "i = nat fd \<and> c = ctx \<or> i < length ds \<and> ds ! i = Some c"
      using nth [of i] len(1) by (auto simp: nth_list_update split: if_splits)
    then show "m_fd c = int i" "\<not> m_isClsed c" "m_sysNonblock c = m_isSocket c"
      using assms(1) fd FdCtx_props [OF ctx] by (auto simp: fd_inv_def)
  qed
  moreover have "fd_abs ?ds2 x = ((fd_abs ds)(fd := Some ctx)) x" for x
  proof (cases "x = fd")
    case True
    then show ?thesis using fd len(1) by (simp add: fd_abs_def)
  next
    case False
    then have "nat fd \<noteq> nat x" if "0 \<le> x" using that fd by simp
    then show ?thesis using False len(2) nth [of "nat x"] by (auto simp: fd_abs_def)
  qed
  then have "fd_abs ?ds2 = (fd_abs ds)(fd := Some ctx)" by (rule ext)
  ultimately show ?thesis using False ctx by auto
qed

lemma del_spec:
  assumes "fd_inv ds" "0 \<le> fd"
  shows "\<exists>ds'. del ds fd = Inr ds' \<and> fd_inv ds' \<and> fd_abs ds' = (fd_abs ds)(fd := None)"
  using assms
  by (auto simp: del_def fd_put_def fd_inv_def fd_abs_def fun_eq_iff nth_list_update eq_nat_nat_iff)

lemma fd_inv_new: "fd_inv FdManager" "fd_abs FdManager = Map.empty"
  by (auto simp: fd_inv_def FdManager_def fd_abs_def)

text \<open>Clients change contexts through the pointers \<open>get\<close> returns.\<close>

definition fd_set :: "fdmgr \<Rightarrow> int \<Rightarrow> (fdctx \<Rightarrow> fdctx) \<Rightarrow> fdmgr" where
  "fd_set ds fd f = (case fd_abs ds fd of None \<Rightarrow> ds | Some c \<Rightarrow> ds[nat fd := Some (f c)])"

inductive fd_step :: "fdmgr \<Rightarrow> fdmgr \<Rightarrow> bool" where
  fs_get: "-1 \<le> fd \<Longrightarrow> get ds fd auto st fl = Inr (c, ds', fl') \<Longrightarrow> fd_step ds ds'"
| fs_del: "0 \<le> fd \<Longrightarrow> del ds fd = Inr ds' \<Longrightarrow> fd_step ds ds'"
| fs_timeout: "fd_step ds (fd_set ds fd (\<lambda>c. setTimeout c type v))"
| fs_nonblock: "fd_step ds (fd_set ds fd (\<lambda>c. setUserNonblock c v))"

lemma fd_set_inv:
  assumes "fd_inv ds" "\<And>c. m_fd (f c) = m_fd c \<and> m_isClsed (f c) = m_isClsed c \<and>
    m_sysNonblock (f c) = m_sysNonblock c \<and> m_isSocket (f c) = m_isSocket c"
  shows "fd_inv (fd_set ds fd f)"
  using assms by (auto simp: fd_inv_def fd_set_def fd_abs_def nth_list_update split: option.splits if_splits)

lemma fd_step_inv: "fd_step ds ds' \<Longrightarrow> fd_inv ds \<Longrightarrow> fd_inv ds'"
proof (induction rule: fd_step.induct)
  case (fs_get fd ds auto st fl c ds' fl')
  then show ?case using get_spec [of ds fd auto st fl] by auto
next
  case (fs_del fd ds ds')
  then show ?case using del_spec [of ds fd] by auto
qed (simp_all add: fd_set_inv setTimeout_def setUserNonblock_def)

lemma fd_reach_inv: "fd_step\<^sup>*\<^sup>* FdManager ds \<Longrightarrow> fd_inv ds"
  by (induction rule: rtranclp_induct) (auto intro: fd_step_inv fd_inv_new)

section \<open>Properties\<close>

text \<open>
  The descriptor table implements a map. In every state it can reach, \<open>get\<close> of a descriptor that
  has a context returns it and changes nothing; with \<open>auto_create\<close> a missing context is created,
  with no timeouts, and only the entry of that descriptor changes (a socket is switched to
  non-blocking mode); \<open>del\<close> removes exactly the entry. The vector is always large enough.
\<close>

theorem fd_table_map:
  assumes "fd_step\<^sup>*\<^sup>* FdManager ds" "0 \<le> fd"
  shows "(\<forall>c. fd_abs ds fd = Some c \<longrightarrow> get ds fd auto st fl = Inr (Some c, ds, fl) \<and> \<not> m_isClsed c) \<and>
    (fd_abs ds fd = None \<longrightarrow> get ds fd False st fl = Inr (None, ds, fl)) \<and>
    (fd_abs ds fd = None \<longrightarrow> (\<exists>c ds'. get ds fd True st fl =
         Inr (Some c, ds', if st = Some True then fl(fd := fl fd OR O_NONBLOCK) else fl) \<and>
       fd_abs ds' = (fd_abs ds)(fd \<mapsto> c) \<and> m_fd c = fd \<and> getTimeout c so = -1)) \<and>
    (\<exists>ds'. del ds fd = Inr ds' \<and> fd_abs ds' = (fd_abs ds)(fd := None))"
proof -
  have inv: "fd_inv ds" using fd_reach_inv [OF assms(1)] .
  obtain c fl' where c: "FdCtx fd st fl = (c, fl')" by (cases "FdCtx fd st fl")
  have "\<not> m_isClsed c0" if "fd_abs ds fd = Some c0" for c0
    using inv that by (auto simp: fd_inv_def fd_abs_def split: if_splits)
  then show ?thesis
    using get_spec [OF inv, of fd auto st fl] get_spec [OF inv, of fd False st fl]
      get_spec [OF inv, of fd True st fl] del_spec [OF inv assms(2)] assms(2)
      FdCtx_props [OF c] FdCtx_flags [OF c] c
    by (auto simp: getTimeout_def split: option.splits)
qed

theorem fd_table_map_witness:
  "\<exists>c ds' fl'. get FdManager 100 True (Some True) (\<lambda>_. 0) = Inr (Some c, ds', fl') \<and> m_fd c = 100 \<and>
    getTimeout c SO_RCVTIMEO = -1"
  using fd_table_map [OF rtranclp.rtrancl_refl, of 100 True "Some True" "\<lambda>_. 0" SO_RCVTIMEO]
    fd_inv_new(2) by auto

text \<open>
  The tests for the ends of the vector compare with the upper end only: descriptors below \<open>-1\<close> in
  \<open>get\<close>, and below \<open>0\<close> in \<open>del\<close>, index the vector outside of its bounds.
\<close>

lemma fd_negative: "fd < -1 \<Longrightarrow> get ds fd auto st fl = Inl Out_of_bounds"
  "fd < 0 \<Longrightarrow> del ds fd = Inl Out_of_bounds"
  by (simp_all add: get_def get_shared_def fd_at_def del_def fd_put_def)

end
