(* ===== verification/Sylar_Hook.thy ===== *)
theory Sylar_Hook
  imports Sylar_IOManager Sylar_FdManager
begin

text \<open>
  The hooked system calls (\<^verbatim>\<open>sylar/hook.cpp\<close>): on a thread with hooks enabled, a call that would block
  registers the current fiber with the I/O manager and yields. The original functions (\<^verbatim>\<open>read_f\<close> and
  so on) are outside the model; what they return is an argument. A hooked call that yields is
  suspended: the state in which its fiber is resumed, after whatever other threads did, is an
  argument too. Functions that may call themselves without end are partial functions whose value is
  then \<open>None\<close>.

  \<open>hk_tinfo\<close> holds the \<^verbatim>\<open>timer_info\<close> objects by address: the field \<^verbatim>\<open>cancelled\<close>, or \<open>None\<close> once the call
  that owns the object has returned and weak pointers to it are empty.
\<close>

section \<open>State\<close>

abbreviation EINTR :: int where "EINTR \<equiv> 4"
abbreviation EBADF :: int where "EBADF \<equiv> 9"
abbreviation EAGAIN :: int where "EAGAIN \<equiv> 11"
abbreviation EBADE :: int where "EBADE \<equiv> 52"
abbreviation ETIMEDOUT :: int where "ETIMEDOUT \<equiv> 110"
abbreviation EINPROGRESS :: int where "EINPROGRESS \<equiv> 115"

text \<open>The functions the hooks hand to the I/O manager.\<close>

datatype hook_cb = Timeout nat int u32 | Wake_fiber nat

record hook =
  t_hook_enable :: bool
  s_connect_timeout :: u64
  hk_fds :: fdmgr
  hk_flags :: kflags
  hk_iom :: "hook_cb iom option"
  hk_tinfo :: "nat \<Rightarrow> int option"
  hk_errno :: int

definition with_iom :: "hook \<Rightarrow> (hook_cb iom \<Rightarrow> ('a \<times> hook_cb iom) res) \<Rightarrow> ('a \<times> hook) res" where
  "with_iom h f =
    (case hk_iom h of
       None \<Rightarrow> Inl Null_deref
     | Some io \<Rightarrow> bindE (f io) (\<lambda>(x, io'). Inr (x, h\<lparr>hk_iom := Some io'\<rparr>)))"

definition set_hook_enable :: "hook \<Rightarrow> bool \<Rightarrow> hook" where
  "set_hook_enable h flag = h\<lparr>t_hook_enable := flag\<rparr>"

definition is_hook_enable :: "hook \<Rightarrow> bool" where
  "is_hook_enable h = t_hook_enable h"

text \<open>The result of a system call: a return value and, if it is -1, an error number.\<close>

definition returned :: "hook \<Rightarrow> int \<Rightarrow> int \<Rightarrow> hook" where
  "returned h n e = (if n = -1 then h\<lparr>hk_errno := e\<rparr> else h)"

definition cancel_timer :: "hook_cb iom \<Rightarrow> nat \<Rightarrow> hook_cb iom res" where
  "cancel_timer io a = bindE (cancel (io_timers io) a) (\<lambda>(_, tm). Inr (io\<lparr>io_timers := tm\<rparr>))"

text \<open>What the functions do when a worker runs them.\<close>

definition run_hook_cb :: "hook \<Rightarrow> hook_cb \<Rightarrow> int \<Rightarrow> hook res" where
  "run_hook_cb h cb rt =
    (case cb of
       Timeout w fd event \<Rightarrow>
        (case hk_tinfo h w of
           None \<Rightarrow> Inr h
         | Some cancelled \<Rightarrow>
            if cancelled \<noteq> 0 then Inr h
            else bindE (with_iom (h\<lparr>hk_tinfo := (hk_tinfo h)(w \<mapsto> ETIMEDOUT)\<rparr>)
                   (\<lambda>io. cancelEvent io fd event rt)) (\<lambda>(_, h'). Inr h'))
     | Wake_fiber f \<Rightarrow>
        bindE (with_iom h (\<lambda>io. Inr ((), io_schedule io (io_self io) (fiber_task f (-1)))))
          (\<lambda>(_, h'). Inr h'))"

section \<open>\<open>do_io\<close>\<close>

datatype io_entry = Passthrough | Refuse | Retry u64

definition do_io_enter :: "hook \<Rightarrow> int \<Rightarrow> int \<Rightarrow> io_entry res" where
  "do_io_enter h fd timeout_so =
    (if \<not> t_hook_enable h then Inr Passthrough
     else bindE (get (hk_fds h) fd False None (hk_flags h)) (\<lambda>(c, _, _).
       case c of
         None \<Rightarrow> Inr Passthrough
       | Some ctx \<Rightarrow>
           if m_isClsed ctx then Inr Refuse
           else if \<not> m_isSocket ctx \<or> m_userNonblock ctx then Inr Passthrough
           else Inr (Retry (getTimeout ctx timeout_so))))"

text \<open>
  Setting up the wait, at time \<open>now\<close>, with the timer at address \<open>a\<close> and the answer \<open>rt\<close> of
  \<^verbatim>\<open>epoll_ctl\<close>: whether it failed. \<open>cur\<close> is the running fiber.
\<close>

definition do_io_block ::
  "hook \<Rightarrow> int \<Rightarrow> u32 \<Rightarrow> u64 \<Rightarrow> nat \<Rightarrow> nat \<Rightarrow> u64 \<Rightarrow> nat \<Rightarrow> int \<Rightarrow> (bool \<times> hook) res"
where
  "do_io_block h fd event to w cur now a rt =
    with_iom h (\<lambda>io.
      let io1 = (if to \<noteq> -1
                 then snd (io_addTimer io now a to (Some (OnTimer w (Timeout w fd event))) False) else io)
      in bindE (addEvent io1 fd event None (Some (io_self io1)) cur (fstate (sc_heap (io_sched io1)) cur) rt)
           (\<lambda>(r, io2).
             if r \<noteq> 0 then
               bindE (if to \<noteq> -1 then cancel_timer io2 a else Inr io2) (\<lambda>io3. Inr (True, io3))
             else Inr (False, io2)))"

text \<open>After the fiber was resumed: the final result, or \<open>None\<close> to retry.\<close>

definition do_io_unblock :: "hook \<Rightarrow> u64 \<Rightarrow> nat \<Rightarrow> nat \<Rightarrow> (int option \<times> hook) res" where
  "do_io_unblock h to w a =
    bindE (with_iom h (\<lambda>io. bindE (if to \<noteq> -1 then cancel_timer io a else Inr io) (\<lambda>io'. Inr ((), io'))))
      (\<lambda>(_, h').
        case hk_tinfo h' w of
          None \<Rightarrow> Inl Null_deref
        | Some cancelled \<Rightarrow>
            Inr (if cancelled \<noteq> 0 then (Some (-1), h'\<lparr>hk_errno := cancelled\<rparr>) else (None, h')))"

text \<open>
  The answers a call gets from outside: the result of the system call, and for each wait the clock,
  the timer's address, the answer of \<^verbatim>\<open>epoll_ctl\<close> and the state at the resumption.
\<close>

datatype io_answer = Sys int int | Block u64 nat int hook

definition leave_io :: "hook \<Rightarrow> nat \<Rightarrow> hook" where
  "leave_io h w = h\<lparr>hk_tinfo := (hk_tinfo h)(w := None)\<rparr>"

fun do_io_retry ::
  "hook \<Rightarrow> int \<Rightarrow> u32 \<Rightarrow> u64 \<Rightarrow> nat \<Rightarrow> nat \<Rightarrow> io_answer list \<Rightarrow> (int \<times> hook) res option"
where
  "do_io_retry h fd event to w cur [] = None"
| "do_io_retry h fd event to w cur (Block now a rt h2 # as) = None"
| "do_io_retry h fd event to w cur (Sys n e # as) =
     (let h1 = returned h n e in
      if n = -1 \<and> e = EINTR then do_io_retry h1 fd event to w cur as
      else if n = -1 \<and> e = EAGAIN then
        (case as of
           Block now a rt h2 # as' \<Rightarrow>
             (case do_io_block h1 fd event to w cur now a rt of
                Inl er \<Rightarrow> Some (Inl er)
              | Inr (True, h3) \<Rightarrow> Some (Inr (-1, leave_io h3 w))
              | Inr (False, h3) \<Rightarrow>
                 (case do_io_unblock h2 to w a of
                    Inl er \<Rightarrow> Some (Inl er)
                  | Inr (Some r, h4) \<Rightarrow> Some (Inr (r, leave_io h4 w))
                  | Inr (None, h4) \<Rightarrow> do_io_retry h4 fd event to w cur as'))
         | _ \<Rightarrow> None)
      else Some (Inr (n, leave_io h1 w)))"

definition do_io ::
  "hook \<Rightarrow> int \<Rightarrow> u32 \<Rightarrow> int \<Rightarrow> nat \<Rightarrow> nat \<Rightarrow> io_answer list \<Rightarrow> (int \<times> hook) res option"
where
  "do_io h fd event timeout_so w cur as =
    (case do_io_enter h fd timeout_so of
       Inl er \<Rightarrow> Some (Inl er)
     | Inr Passthrough \<Rightarrow> (case as of Sys n e # _ \<Rightarrow> Some (Inr (n, returned h n e)) | _ \<Rightarrow> None)
     | Inr Refuse \<Rightarrow> Some (Inr (-1, h\<lparr>hk_errno := EBADE\<rparr>))
     | Inr (Retry to) \<Rightarrow>
         do_io_retry (h\<lparr>hk_tinfo := (hk_tinfo h)(w \<mapsto> 0)\<rparr>) fd event to w cur as)"

text \<open>The calls that are \<open>do_io\<close> with a direction.\<close>

definition read_hook where "read_hook h fd w cur as = do_io h fd READ SO_RCVTIMEO w cur as"
definition readv_hook where "readv_hook h fd w cur as = do_io h fd READ SO_RCVTIMEO w cur as"
definition recv_hook where "recv_hook h fd w cur as = do_io h fd READ SO_RCVTIMEO w cur as"
definition recvfrom_hook where "recvfrom_hook h fd w cur as = do_io h fd READ SO_RCVTIMEO w cur as"
definition recvmsg_hook where "recvmsg_hook h fd w cur as = do_io h fd READ SO_RCVTIMEO w cur as"
definition write_hook where "write_hook h fd w cur as = do_io h fd WRITE SO_SNDTIMEO w cur as"
definition writev_hook where "writev_hook h fd w cur as = do_io h fd WRITE SO_SNDTIMEO w cur as"
definition send_hook where "send_hook h fd w cur as = do_io h fd WRITE SO_SNDTIMEO w cur as"
definition sendto_hook where "sendto_hook h fd w cur as = do_io h fd WRITE SO_SNDTIMEO w cur as"
definition sendmsg_hook where "sendmsg_hook h fd w cur as = do_io h fd WRITE SO_SNDTIMEO w cur as"

text \<open>Registering a new descriptor; \<open>st\<close> is what \<^verbatim>\<open>fstat\<close> says of it.\<close>

definition track :: "hook \<Rightarrow> int \<Rightarrow> bool option \<Rightarrow> hook res" where
  "track h fd st =
    bindE (get (hk_fds h) fd True st (hk_flags h)) (\<lambda>(_, ds, fl). Inr (h\<lparr>hk_fds := ds, hk_flags := fl\<rparr>))"

definition accept_hook ::
  "hook \<Rightarrow> int \<Rightarrow> nat \<Rightarrow> nat \<Rightarrow> io_answer list \<Rightarrow> bool option \<Rightarrow> (int \<times> hook) res option"
where
  "accept_hook h fd w cur as st =
    (case do_io h fd READ SO_RCVTIMEO w cur as of
       None \<Rightarrow> None
     | Some r \<Rightarrow> Some (bindE r (\<lambda>(n, h1).
         if n \<ge> 0 then bindE (track h1 n st) (\<lambda>h2. Inr (n, h2)) else Inr (n, h1))))"

definition socket_hook :: "hook \<Rightarrow> int \<Rightarrow> int \<Rightarrow> bool option \<Rightarrow> (int \<times> hook) res" where
  "socket_hook h fd e st =
    (if \<not> t_hook_enable h \<or> fd = -1 then Inr (fd, returned h fd e)
     else bindE (track h fd st) (\<lambda>h1. Inr (fd, h1)))"

section \<open>\<open>connect\<close>\<close>

text \<open>
  \<open>n\<close> and \<open>e\<close> are the result of \<^verbatim>\<open>connect_f\<close>, \<open>h2\<close> the state at the resumption, \<open>gs\<close> the return value of
  \<^verbatim>\<open>getsockopt\<close> and \<open>error\<close> the pending error of the socket.
\<close>

definition connect_result :: "hook \<Rightarrow> int \<Rightarrow> int \<Rightarrow> int \<times> hook" where
  "connect_result h gs error =
    (if gs = -1 then (-1, h) else if error = 0 then (0, h) else (-1, h\<lparr>hk_errno := error\<rparr>))"

definition connect_with_timeout ::
  "hook \<Rightarrow> int \<Rightarrow> u64 \<Rightarrow> nat \<Rightarrow> nat \<Rightarrow> int \<Rightarrow> int \<Rightarrow> u64 \<Rightarrow> nat \<Rightarrow> int \<Rightarrow> hook \<Rightarrow> int \<Rightarrow> int \<Rightarrow> (int \<times> hook) res"
where
  "connect_with_timeout h fd timeout_ms w cur n e now a rt h2 gs error =
    (if \<not> t_hook_enable h then Inr (n, returned h n e)
     else bindE (get (hk_fds h) fd False None (hk_flags h)) (\<lambda>(c, _, _).
       case c of
         None \<Rightarrow> Inr (-1, h\<lparr>hk_errno := EBADF\<rparr>)
       | Some ctx \<Rightarrow>
           if m_isClsed ctx then Inr (-1, h\<lparr>hk_errno := EBADF\<rparr>)
           else if \<not> m_isSocket ctx \<or> m_userNonblock ctx then Inr (n, returned h n e)
           else if n = 0 then Inr (0, h)
           else if n \<noteq> -1 \<or> e \<noteq> EINPROGRESS then Inr (n, returned h n e)
           else
             let h1 = (returned h n e)\<lparr>hk_tinfo := (hk_tinfo h)(w \<mapsto> 0)\<rparr> in
             bindE (do_io_block h1 fd WRITE timeout_ms w cur now a rt) (\<lambda>(failed, h3).
               if failed then
                 Inr (let (r, h4) = connect_result h3 gs error in (r, leave_io h4 w))
               else bindE (do_io_unblock h2 timeout_ms w a) (\<lambda>(r, h4).
                 Inr (case r of
                        Some r' \<Rightarrow> (r', leave_io h4 w)
                      | None \<Rightarrow> let (r', h5) = connect_result h4 gs error in (r', leave_io h5 w))))))"

definition connect_hook ::
  "hook \<Rightarrow> int \<Rightarrow> nat \<Rightarrow> nat \<Rightarrow> int \<Rightarrow> int \<Rightarrow> u64 \<Rightarrow> nat \<Rightarrow> int \<Rightarrow> hook \<Rightarrow> int \<Rightarrow> int \<Rightarrow> (int \<times> hook) res"
where
  "connect_hook h fd w cur n e now a rt h2 gs error =
    connect_with_timeout h fd (s_connect_timeout h) w cur n e now a rt h2 gs error"

section \<open>Sleeping\<close>

text \<open>
  The timer that wakes the current fiber; the result is \<open>Some r\<close> when the call returns \<open>r\<close> at once and
  \<open>None\<close> when it yields, to return 0 when the fiber is resumed.
\<close>

definition sleep_ms :: "hook \<Rightarrow> u64 \<Rightarrow> u64 \<Rightarrow> nat \<Rightarrow> nat \<Rightarrow> ('a option \<times> hook) res" where
  "sleep_ms h ms now a cur =
    with_iom h (\<lambda>io. Inr (None, snd (io_addTimer io now a ms (Some (Direct (Wake_fiber cur))) False)))"

definition sleep_hook :: "hook \<Rightarrow> u32 \<Rightarrow> u64 \<Rightarrow> nat \<Rightarrow> nat \<Rightarrow> u32 \<Rightarrow> (u32 option \<times> hook) res" where
  "sleep_hook h seconds now a cur r =
    (if \<not> t_hook_enable h then Inr (Some r, h) else sleep_ms h (ucast (seconds * 1000)) now a cur)"

definition usleep_hook :: "hook \<Rightarrow> u32 \<Rightarrow> u64 \<Rightarrow> nat \<Rightarrow> nat \<Rightarrow> int \<Rightarrow> (int option \<times> hook) res" where
  "usleep_hook h usec now a cur r =
    (if \<not> t_hook_enable h then Inr (Some r, h) else sleep_ms h (ucast (usec div 1000)) now a cur)"

text \<open>\<^verbatim>\<open>tv_sec\<close> and \<^verbatim>\<open>tv_nsec\<close> are 64-bit; their sum in milliseconds goes through an \<^verbatim>\<open>int\<close>.\<close>

partial_function (option) nanosleep_hook ::
  "hook \<Rightarrow> int \<Rightarrow> int \<Rightarrow> u64 \<Rightarrow> nat \<Rightarrow> nat \<Rightarrow> (int option \<times> hook) res option"
where
  "nanosleep_hook h tv_sec tv_nsec now a cur =
    (if \<not> t_hook_enable h then nanosleep_hook h tv_sec tv_nsec now a cur
     else Some (sleep_ms h (scast (word_of_int (tv_sec * 1000 + tv_nsec div 1000 div 1000) :: u32)) now a cur))"

section \<open>Closing and options\<close>

text \<open>\<open>rt\<close> is the answer of \<^verbatim>\<open>epoll_ctl\<close> and \<open>r\<close> what the original function returns.\<close>

partial_function (option) close_hook :: "hook \<Rightarrow> int \<Rightarrow> int \<Rightarrow> int \<Rightarrow> (int \<times> hook) res option" where
  "close_hook h fd rt r =
    (if \<not> t_hook_enable h then close_hook h fd rt r
     else Some (
       bindE (get (hk_fds h) fd False None (hk_flags h)) (\<lambda>(c, _, _).
         if c = None then Inr (r, h)
         else
           bindE (case hk_iom h of
                    None \<Rightarrow> Inr h
                  | Some io \<Rightarrow> bindE (cancelAll io fd rt) (\<lambda>(_, io'). Inr (h\<lparr>hk_iom := Some io'\<rparr>))) (\<lambda>h1.
           bindE (del (hk_fds h1) fd) (\<lambda>ds. Inr (r, h1\<lparr>hk_fds := ds\<rparr>))))))"

abbreviation F_GETFL :: int where "F_GETFL \<equiv> 3"
abbreviation F_SETFL :: int where "F_SETFL \<equiv> 4"

text \<open>
  The commands \<open>fcntl\<close> hands on: \<^verbatim>\<open>F_DUPFD\<close>, \<^verbatim>\<open>F_DUPFD_CLOEXEC\<close>, \<^verbatim>\<open>F_SETFD\<close>, \<^verbatim>\<open>F_SETOWN\<close>, \<^verbatim>\<open>F_SETSIG\<close>,
  \<^verbatim>\<open>F_SETLEASE\<close>, \<^verbatim>\<open>F_NOTIFY\<close>, \<^verbatim>\<open>F_SETPIPE_SZ\<close>; \<^verbatim>\<open>F_GETFD\<close>, \<^verbatim>\<open>F_GETOWN\<close>, \<^verbatim>\<open>F_GETSIG\<close>, \<^verbatim>\<open>F_GETLEASE\<close>,
  \<^verbatim>\<open>F_GETPIPE_SZ\<close>; \<^verbatim>\<open>F_SETLK\<close>, \<^verbatim>\<open>F_SETLKW\<close>, \<^verbatim>\<open>F_GETLK\<close>; \<^verbatim>\<open>F_GETOWN_EX\<close>, \<^verbatim>\<open>F_SETOWN_EX\<close>.
\<close>

definition fcntl_passed :: "int \<Rightarrow> bool" where
  "fcntl_passed cmd \<longleftrightarrow> cmd \<in> {0, 1030, 2, 8, 10, 1024, 1026, 1031, 1, 9, 11, 1025, 1032, 6, 7, 5, 16, 15}"

definition fcntl_setfl :: "hook \<Rightarrow> int \<Rightarrow> u32 \<Rightarrow> hook res" where
  "fcntl_setfl h fd arg =
    bindE (get (hk_fds h) fd False None (hk_flags h)) (\<lambda>(c, _, _).
      case c of
        None \<Rightarrow> Inr (h\<lparr>hk_flags := (hk_flags h)(fd := arg)\<rparr>)
      | Some ctx \<Rightarrow>
          if m_isClsed ctx \<or> m_isSocket ctx then Inr (h\<lparr>hk_flags := (hk_flags h)(fd := arg)\<rparr>)
          else
            let arg' = (if m_sysNonblock ctx then arg OR O_NONBLOCK else arg AND NOT O_NONBLOCK)
            in Inr (h\<lparr>hk_fds := fd_set (hk_fds h) fd (\<lambda>c. setUserNonblock c (arg AND O_NONBLOCK \<noteq> 0)),
                      hk_flags := (hk_flags h)(fd := arg')\<rparr>))"

definition fcntl_getfl :: "hook \<Rightarrow> int \<Rightarrow> u32 \<Rightarrow> u32 res" where
  "fcntl_getfl h fd arg =
    bindE (get (hk_fds h) fd False None (hk_flags h)) (\<lambda>(c, _, _).
      case c of
        None \<Rightarrow> Inr arg
      | Some ctx \<Rightarrow>
          Inr (if m_isClsed ctx \<or> \<not> m_isSocket ctx then arg
               else if m_userNonblock ctx then arg OR O_NONBLOCK else arg AND NOT O_NONBLOCK))"

partial_function (option) fcntl_hook :: "hook \<Rightarrow> int \<Rightarrow> int \<Rightarrow> u32 \<Rightarrow> u32 \<Rightarrow> (u32 \<times> hook) res option" where
  "fcntl_hook h fd cmd arg r =
    (if cmd = F_SETFL then Some (bindE (fcntl_setfl h fd arg) (\<lambda>h'. Inr (r, h')))
     else if cmd = F_GETFL then
       Option.bind (fcntl_hook h fd cmd arg r) (\<lambda>x.
         Some (bindE x (\<lambda>(arg', h'). bindE (fcntl_getfl h' fd arg') (\<lambda>v. Inr (v, h')))))
     else if fcntl_passed cmd then Some (Inr (r, h))
     else fcntl_hook h fd cmd arg r)"

abbreviation FIONBIO :: int where "FIONBIO \<equiv> 0x5421"

partial_function (option) ioctl_hook :: "hook \<Rightarrow> int \<Rightarrow> int \<Rightarrow> int \<Rightarrow> int \<Rightarrow> (int \<times> hook) res option" where
  "ioctl_hook h fd request arg r =
    (if request \<noteq> FIONBIO then Some (Inr (r, h))
     else
       case get (hk_fds h) fd False None (hk_flags h) of
         Inl e \<Rightarrow> Some (Inl e)
       | Inr (c, _, _) \<Rightarrow>
           (case c of
              None \<Rightarrow> ioctl_hook h fd request arg r
            | Some ctx \<Rightarrow>
                if m_isSocket ctx \<or> m_isClsed ctx then ioctl_hook h fd request arg r
                else Some (Inr (r, h\<lparr>hk_fds := fd_set (hk_fds h) fd (\<lambda>c. setUserNonblock c (arg \<noteq> 0))\<rparr>))))"

abbreviation SOL_SOCKET :: int where "SOL_SOCKET \<equiv> 1"

definition getsockopt_hook :: "hook \<Rightarrow> int \<Rightarrow> int \<times> hook" where
  "getsockopt_hook h r = (r, h)"

text \<open>The option value matters only as a \<^verbatim>\<open>timeval\<close>.\<close>

definition setsockopt_hook ::
  "hook \<Rightarrow> int \<Rightarrow> int \<Rightarrow> int \<Rightarrow> u64 \<Rightarrow> u64 \<Rightarrow> int \<Rightarrow> (int \<times> hook) res"
where
  "setsockopt_hook h fd level option_name tv_sec tv_usec r =
    (if \<not> t_hook_enable h then Inr (r, h)
     else if level = SOL_SOCKET \<and> (option_name = SO_RCVTIMEO \<or> option_name = SO_SNDTIMEO) then
       bindE (get (hk_fds h) fd False None (hk_flags h)) (\<lambda>(c, _, _).
         Inr (r, if c = None then h
                 else h\<lparr>hk_fds := fd_set (hk_fds h) fd
                   (\<lambda>c. setTimeout c option_name (tv_sec * 1000 + tv_usec div 1000))\<rparr>))
     else Inr (r, h))"

section \<open>Calls that never return\<close>

lemma close_hook_enabled:
  assumes "close_hook h fd rt r = Some x"
  shows "t_hook_enable h"
  using assms
  by (rule close_hook.raw_induct [rotated, where P = "\<lambda>h fd rt r x. t_hook_enable h"])
    (auto split: if_splits)

lemma nanosleep_hook_enabled:
  assumes "nanosleep_hook h s ns now a cur = Some x"
  shows "t_hook_enable h"
  using assms
  by (rule nanosleep_hook.raw_induct [rotated, where P = "\<lambda>h s ns now a cur x. t_hook_enable h"])
    (auto split: if_splits)

lemma fcntl_hook_returns:
  assumes "fcntl_hook h fd cmd arg r = Some x"
  shows "cmd = F_SETFL \<or> fcntl_passed cmd"
  using assms
  by (rule fcntl_hook.raw_induct
      [rotated, where P = "\<lambda>h fd cmd arg r x. cmd = F_SETFL \<or> fcntl_passed cmd"])
    (fastforce split: if_splits bind_splits)

definition not_passed :: "hook \<Rightarrow> int \<Rightarrow> bool" where
  "not_passed h fd \<longleftrightarrow> (\<exists>c x. get (hk_fds h) fd False None (hk_flags h) = Inr (c, x) \<and>
    (c = None \<or> (\<exists>ctx. c = Some ctx \<and> (m_isSocket ctx \<or> m_isClsed ctx))))"

lemma not_passed_simps:
  "get (hk_fds h) fd False None (hk_flags h) = Inl e \<Longrightarrow> \<not> not_passed h fd"
  "get (hk_fds h) fd False None (hk_flags h) = Inr (Some ctx, x) \<Longrightarrow>
    not_passed h fd \<longleftrightarrow> m_isSocket ctx \<or> m_isClsed ctx"
  by (auto simp: not_passed_def)

lemma ioctl_hook_returns:
  assumes "ioctl_hook h fd request arg r = Some x"
  shows "request \<noteq> FIONBIO \<or> \<not> not_passed h fd"
  using assms
  by (rule ioctl_hook.raw_induct
      [rotated, where P = "\<lambda>h fd request arg r x. request \<noteq> FIONBIO \<or> \<not> not_passed h fd"])
    (fastforce simp: not_passed_simps split: if_splits sum.splits prod.splits option.splits)

section \<open>The blocking calls\<close>

text \<open>The calls a run makes before its result: they were interrupted or would have blocked.\<close>

fun again :: "io_answer \<Rightarrow> bool" where
  "again (Sys n e) \<longleftrightarrow> n = -1 \<and> (e = EINTR \<or> e = EAGAIN)"
| "again (Block now a rt h) = True"

text \<open>Resumptions find the call's \<^verbatim>\<open>timer_info\<close>, untouched or cancelled by its timer.\<close>

fun tinfo_ok :: "nat \<Rightarrow> io_answer \<Rightarrow> bool" where
  "tinfo_ok w (Sys n e) = True"
| "tinfo_ok w (Block now a rt h) \<longleftrightarrow> hk_tinfo h w = Some 0 \<or> hk_tinfo h w = Some ETIMEDOUT"

lemma with_iom_eq:
  "with_iom h f = Inr (x, h') \<longleftrightarrow>
    (\<exists>io io'. hk_iom h = Some io \<and> f io = Inr (x, io') \<and> h' = h\<lparr>hk_iom := Some io'\<rparr>)"
  by (auto simp: with_iom_def split: option.splits)

lemma do_io_unblock_errno:
  "do_io_unblock h to w a = Inr (Some r, h') \<Longrightarrow> hk_tinfo h w = Some 0 \<or> hk_tinfo h w = Some ETIMEDOUT \<Longrightarrow>
    r = -1 \<and> hk_errno h' = ETIMEDOUT \<and> hk_tinfo h w = Some ETIMEDOUT"
  by (auto simp: do_io_unblock_def with_iom_eq split: option.splits if_splits)

lemma addEvent_locked_zero: "addEvent_locked s p fd ev cb this cur st 0 = Inr (r, s') \<Longrightarrow> r = 0"
  by (simp add: addEvent_locked_def Let_def split: if_splits) auto

lemma addEvent_zero: "addEvent s fd ev cb this cur st 0 = Inr (r, s') \<Longrightarrow> r = 0"
  by (auto simp: addEvent_def dest: addEvent_locked_zero)

lemma do_io_block_failed: "do_io_block h fd event to w cur now a 0 \<noteq> Inr (True, h')"
  by (auto simp: do_io_block_def with_iom_eq Let_def split: if_split_asm dest!: addEvent_zero)

text \<open>How a run ends, given the answers before its last one.\<close>

definition io_end :: "nat \<Rightarrow> io_answer list \<Rightarrow> io_answer list \<Rightarrow> int \<Rightarrow> hook \<Rightarrow> bool" where
  "io_end w pre post n h' \<longleftrightarrow>
    (\<exists>e post'. post = Sys n e # post' \<and> \<not> again (Sys n e) \<and> (n = -1 \<longrightarrow> hk_errno h' = e)) \<or>
    (\<exists>now a rt h2. pre \<noteq> [] \<and> last pre = Block now a rt h2 \<and> n = -1 \<and>
      (rt \<noteq> 0 \<or> hk_errno h' = ETIMEDOUT \<and> hk_tinfo h2 w = Some ETIMEDOUT))"

lemma io_end_Cons: "io_end w pre post n h' \<Longrightarrow> io_end w (x # pre) post n h'"
  by (auto simp: io_end_def)

lemma do_io_retry_result:
  "do_io_retry h fd event to w cur as = Some (Inr (n, h')) \<Longrightarrow> \<forall>x \<in> set as. tinfo_ok w x \<Longrightarrow>
    \<exists>pre post. as = pre @ post \<and> (\<forall>x \<in> set pre. again x) \<and> io_end w pre post n h'"
proof (induction as arbitrary: h rule: length_induct)
  case (1 as0)
  obtain m e as where as0: "as0 = Sys m e # as"
    using 1(2) by (cases "(h, fd, event, to, w, cur, as0)" rule: do_io_retry.cases) auto
  note run = 1(2) [unfolded as0] and ok = 1(3) [unfolded as0]
  have IH: "\<exists>pre post. ys = pre @ post \<and> (\<forall>x \<in> set pre. again x) \<and> io_end w pre post n h'"
    if "do_io_retry h2 fd event to w cur ys = Some (Inr (n, h'))" "length ys \<le> length as"
      "\<forall>x \<in> set ys. tinfo_ok w x" for ys h2
    using 1(1) [rule_format, of ys h2] that by (simp add: as0)
  let ?h1 = "returned h m e"
  consider (intr) "m = -1" "e = EINTR" | (again) "m = -1" "e = EAGAIN" | (final) "\<not> again (Sys m e)"
    by auto
  then show ?case
  proof cases
    case intr
    then obtain pre post where "as = pre @ post" "\<forall>x \<in> set pre. again x" "io_end w pre post n h'"
      using IH [of ?h1 as] run ok by (auto simp: Let_def)
    then show ?thesis
      using intr as0 by (intro exI [of _ "Sys m e # pre"] exI [of _ post]) (auto intro: io_end_Cons)
  next
    case final
    then have "io_end w [] (Sys m e # as) n h'"
      using run by (auto simp: io_end_def Let_def returned_def leave_io_def split: if_splits)
    then show ?thesis by (intro exI [of _ "[]"] exI [of _ "Sys m e # as"]) (simp add: as0)
  next
    case again
    then obtain now a rt h2 as' where as: "as = Block now a rt h2 # as'"
      using run by (auto simp: Let_def split: list.splits io_answer.splits)
    obtain f h3 where b: "do_io_block ?h1 fd event to w cur now a rt = Inr (f, h3)"
      using run again by (cases "do_io_block ?h1 fd event to w cur now a rt") (auto simp: as)
    show ?thesis
    proof (cases f)
      case True
      then have "io_end w [Sys m e, Block now a rt h2] as' n h'"
        using run again b do_io_block_failed [of ?h1 fd event to w cur now a h3]
        by (cases "rt = 0") (auto simp: as io_end_def)
      then show ?thesis
        using again as as0 by (intro exI [of _ "[Sys m e, Block now a rt h2]"] exI [of _ as']) auto
    next
      case False
      obtain r h4 where u: "do_io_unblock h2 to w a = Inr (r, h4)"
        using run again b False by (cases "do_io_unblock h2 to w a") (auto simp: as)
      show ?thesis
      proof (cases r)
        case None
        then obtain pre post where "as' = pre @ post" "\<forall>x \<in> set pre. again x" "io_end w pre post n h'"
          using IH [of h4 as'] run ok again b False u by (auto simp: as)
        then show ?thesis
          using again as as0 by (intro exI [of _ "Sys m e # Block now a rt h2 # pre"] exI [of _ post])
            (auto intro!: io_end_Cons)
      next
        case (Some r')
        then have "io_end w [Sys m e, Block now a rt h2] as' n h'"
          using run ok again b False u do_io_unblock_errno [of h2 to w a r' h4]
          by (auto simp: as io_end_def leave_io_def)
        then show ?thesis
          using again as as0 by (intro exI [of _ "[Sys m e, Block now a rt h2]"] exI [of _ as']) auto
      qed
    qed
  qed
qed

section \<open>Waiting and timing out\<close>

lemma grown_simps [simp]:
  "io_timers (grown s fd) = io_timers s" "io_sched (grown s fd) = io_sched s"
  "io_self (grown s fd) = io_self s"
  by (simp_all add: grown_def contextResize_def Let_def split: prod.split)

lemma armed_simps [simp]:
  "io_timers (armed s p ev q cb cur) = io_timers s" "io_sched (armed s p ev q cb cur) = io_sched s"
  by (simp_all add: armed_def Let_def)

lemma io_addTimer_props:
  assumes "io_inv io" "tm_inv (io_timers io)" "a \<notin> dom (tm_heap (io_timers io))"
    "io' = snd (io_addTimer io now a ms cb r)"
  shows "io_inv io'" "tm_inv (io_timers io')" "io_sched io' = io_sched io" "io_self io' = io_self io"
    "io_ctxs io' = io_ctxs io" "a \<in> set (m_timers (io_timers io'))"
    "tm_heap (io_timers io') a = Some (Timer now ms cb r)"
proof -
  obtain x n tm where t: "addTimer (io_timers io) now a ms cb r = (x, n, tm)"
    by (cases "addTimer (io_timers io) now a ms cb r")
  have io': "io' = (if n then io_trickle (io\<lparr>io_timers := tm\<rparr>) else io\<lparr>io_timers := tm\<rparr>)"
    using assms(4) t by (simp add: io_addTimer_def onTimerInsertedAtFront_def)
  show "io_inv io'" by (rule io_inv_cong [OF assms(1)]) (simp_all add: io')
  show "tm_inv (io_timers io')" "io_sched io' = io_sched io" "io_self io' = io_self io"
    "io_ctxs io' = io_ctxs io" "a \<in> set (m_timers (io_timers io'))"
    "tm_heap (io_timers io') a = Some (Timer now ms cb r)"
    using addTimer_inv [OF assms(2,3) t] by (simp_all add: io')
qed

lemma own_queue:
  "real_task t \<Longrightarrow> m_fibers (io_sched (io_schedule s (io_self s) t)) = m_fibers (io_sched s) @ [t]"
  by (simp add: io_schedule_def scheduleNoLock_def Let_def real_task_def)

lemma fiber_task_eq: "\<lparr>tk_fiber = Some f, tk_cb = None, tk_thread = -1\<rparr> = fiber_task f (-1)"
  by (simp add: fiber_task_def)

section \<open>Properties\<close>



text \<open>
  C11: A wait with a timeout ends. The wait registers the event and arms a timer for exactly the
  timeout. If the timer's function runs first, it marks the call as cancelled, takes the event back
  and puts the fiber into the queue, once (running it again changes nothing), and the resumed call
  returns -1 with \<^verbatim>\<open>ETIMEDOUT\<close>.
\<close>

theorem hooked_call_timeout:
  assumes io: "hk_iom h = Some io" "io_inv io" "tm_inv (io_timers io)" "a \<notin> dom (tm_heap (io_timers io))"
    and fd: "0 \<le> fd" "ev \<in> {READ, WRITE}" "\<not> registered io fd ev"
    and cur: "fstate (sc_heap (io_sched io)) cur = EXEC" and w: "hk_tinfo h w = Some 0" and to: "to \<noteq> -1"
  shows "\<exists>h1 io1 h2 io2 h3. do_io_block h fd ev to w cur now a 0 = Inr (False, h1) \<and>
    hk_iom h1 = Some io1 \<and> registered io1 fd ev \<and> a \<in> set (m_timers (io_timers io1)) \<and>
    tm_heap (io_timers io1) a = Some (Timer now to (Some (OnTimer w (Timeout w fd ev))) False) \<and>
    run_hook_cb h1 (Timeout w fd ev) 0 = Inr h2 \<and> hk_iom h2 = Some io2 \<and> \<not> registered io2 fd ev \<and>
    m_fibers (io_sched io2) = m_fibers (io_sched io) @ [fiber_task cur (-1)] \<and>
    run_hook_cb h2 (Timeout w fd ev) rt = Inr h2 \<and>
    do_io_unblock h2 to w a = Inr (Some (-1), h3) \<and> hk_errno h3 = ETIMEDOUT"
proof -
  define t where "t = snd (io_addTimer io now a to (Some (OnTimer w (Timeout w fd ev))) False)"
  note t = io_addTimer_props [OF io(2-4) t_def]
  let ?g = "grown t fd" and ?p = "nat fd"
  let ?io1 = "armed ?g ?p ev (io_self t) None cur"
  let ?io2 = "io_schedule ?g (io_self t) (fiber_task cur (-1))"
  let ?h1 = "h\<lparr>hk_iom := Some ?io1\<rparr>"
  let ?h2 = "h\<lparr>hk_iom := Some ?io2, hk_tinfo := (hk_tinfo h)(w \<mapsto> ETIMEDOUT)\<rparr>"
  note g = grown_inv [OF t(1) fd(1)]
  have nreg: "\<not> registered t fd ev" using fd(3) t(5) by (simp add: registered_def)
  have free: "\<not> has (io_ctxs ?g ! ?p) ev" using registered_grown [OF t(1) fd(1)] nreg by simp
  have inv1: "io_inv ?io1" using armed_inv [OF g free fd(2)] .
  have reg1: "registered ?io1 fd ev"
    using g(2) fd(1) arm_ok(6) [OF io_ctxD(1) [OF g] free fd(2)]
    by (simp add: registered_def armed_def Let_def)
  have "do_io_block h fd ev to w cur now a 0 = Inr (False, ?h1)"
    using io(1) to addEvent_armed [OF t(1) fd(1,2), of None "io_self t" cur EXEC 0] nreg cur t(3)
    by (simp add: do_io_block_def with_iom_def t_def [symmetric])
  moreover have "cancelEvent ?io1 fd ev 0 = Inr (True, ?io2)"
    using cancelEvent_eq [OF inv1 fd(1,2), of 0] reg1 disarmed_armed(2) [OF g free fd(2)]
    by (auto simp: registered_def fiber_task_eq)
  then have "run_hook_cb ?h1 (Timeout w fd ev) 0 = Inr ?h2"
    using w by (simp add: run_hook_cb_def with_iom_def)
  moreover have "\<not> registered ?io2 fd ev" using free by (simp add: registered_def)
  moreover have "m_fibers (io_sched ?io2) = m_fibers (io_sched io) @ [fiber_task cur (-1)]"
    using own_queue [of "fiber_task cur (-1)" ?g] t(3) by simp
  moreover have "run_hook_cb ?h2 (Timeout w fd ev) rt = Inr ?h2" by (simp add: run_hook_cb_def)
  moreover obtain tm' where "cancel (io_timers t) a = Inr (True, tm')"
    using cancel_ok [OF t(2,7)] by (auto simp: Timer_def)
  then have "\<exists>h3. do_io_unblock ?h2 to w a = Inr (Some (-1), h3) \<and> hk_errno h3 = ETIMEDOUT"
    using to by (simp add: do_io_unblock_def with_iom_def cancel_timer_def)
  ultimately show ?thesis using reg1 t(6,7) by fastforce
qed

theorem hooked_call_timeout_witness:
  "\<exists>h h1. do_io_block h 40 READ 1000 0 2 50 1 0 = Inr (False, h1)"
proof -
  obtain io :: "hook_cb iom" where io: "IOManager 1 True False 5 7 [] 0 99 (3, 4) 6 0 0 0 = Inr io"
    and tm: "io_timers io = TimerManager 0" and cs: "io_ctxs io = map FdContext [0..<32]"
    using manager_example by blast
  let ?io = "io\<lparr>io_sched := (io_sched io)\<lparr>sc_heap := Map.empty(2 \<mapsto> (new_fiber 1 8 None)\<lparr>f_state := EXEC\<rparr>)\<rparr>\<rparr>"
  let ?h = "\<lparr>t_hook_enable = True, s_connect_timeout = 5000, hk_fds = FdManager,
    hk_flags = (\<lambda>_. 0), hk_iom = Some ?io, hk_tinfo = Map.empty(0 \<mapsto> 0), hk_errno = 0\<rparr>"
  have inv: "io_inv ?io" by (rule io_inv_cong [OF io_inv_init [OF io]]) simp_all
  have "length (io_ctxs io) = 32" "tm_inv (io_timers io)" "1 \<notin> dom (tm_heap (io_timers io))"
    by (simp_all add: cs tm tm_inv_new) (simp add: TimerManager_def)
  then show ?thesis
    using hooked_call_timeout [of ?h ?io 1 40 READ 2 0 1000 50 0] inv
    by (auto simp: registered_def)
qed

text \<open>
  Sleeping arms one timer. \<open>sleep\<close> of at most 4294967 seconds arms a timer for exactly that time,
  whose function puts the sleeping fiber into the queue (longer sleeps wrap around, because the
  milliseconds are computed in 32 bits).
\<close>

theorem sleep_timer:
  assumes "t_hook_enable h" "hk_iom h = Some io" "io_inv io" "tm_inv (io_timers io)"
    "a \<notin> dom (tm_heap (io_timers io))" "unat s \<le> 4294967"
  shows "\<exists>h1 io1 h2 io2. sleep_hook h s now a cur r = Inr (None, h1) \<and> hk_iom h1 = Some io1 \<and>
    a \<in> set (m_timers (io_timers io1)) \<and> tm_heap (io_timers io1) a =
      Some (Timer now (of_nat (unat s * 1000)) (Some (Direct (Wake_fiber cur))) False) \<and>
    run_hook_cb h1 (Wake_fiber cur) rt = Inr h2 \<and> hk_iom h2 = Some io2 \<and>
    m_fibers (io_sched io2) = m_fibers (io_sched io) @ [fiber_task cur (-1)]"
proof -
  have "unat (s * 1000) = unat s * 1000"
    using assms(6) by (simp add: unat_word_ariths take_bit_nat_eq_self)
  then have ms: "(ucast (s * 1000) :: u64) = of_nat (unat s * 1000)"
    by (metis of_nat_unat)
  define io1 where "io1 = snd (io_addTimer io now a (of_nat (unat s * 1000)) (Some (Direct (Wake_fiber cur))) False)"
  note t = io_addTimer_props [OF assms(3-5) io1_def]
  have "sleep_hook h s now a cur r = Inr (None, h\<lparr>hk_iom := Some io1\<rparr>)"
    using assms(1,2) by (simp add: sleep_hook_def sleep_ms_def with_iom_def ms io1_def)
  moreover have "run_hook_cb (h\<lparr>hk_iom := Some io1\<rparr>) (Wake_fiber cur) rt =
      Inr (h\<lparr>hk_iom := Some (io_schedule io1 (io_self io1) (fiber_task cur (-1)))\<rparr>)"
    by (simp add: run_hook_cb_def with_iom_def)
  ultimately show ?thesis using t(3,6,7) own_queue [of "fiber_task cur (-1)" io1] by fastforce
qed

theorem sleep_timer_witness:
  "\<exists>h h1. sleep_hook h 3 10 1 2 0 = Inr (None, h1)"
proof -
  obtain io :: "hook_cb iom" where io: "IOManager 1 True False 5 7 [] 0 99 (3, 4) 6 0 0 0 = Inr io"
    and "io_timers io = TimerManager 0"
    using manager_example by blast
  then have "tm_inv (io_timers io)" "1 \<notin> dom (tm_heap (io_timers io))"
    by (simp_all add: tm_inv_new) (simp add: TimerManager_def)
  then show ?thesis
    using sleep_timer [of "\<lparr>t_hook_enable = True, s_connect_timeout = 5000, hk_fds = FdManager,
        hk_flags = (\<lambda>_. 0), hk_iom = Some io, hk_tinfo = Map.empty, hk_errno = 0\<rparr>" io 1 3 10 2 0]
      io_inv_init [OF io] by auto
qed

text \<open>
  Four hooked functions call themselves instead of the original function and never return:
  \<open>close\<close> and \<open>nanosleep\<close> when hooks are disabled, \<open>fcntl\<close> with \<^verbatim>\<open>F_GETFL\<close> or a command it does not
  know, and \<open>ioctl\<close> with \<^verbatim>\<open>FIONBIO\<close> on a socket or an unknown descriptor.
\<close>

theorem hooks_diverge:
  "(\<not> t_hook_enable h \<longrightarrow> close_hook h fd rt r = None \<and> nanosleep_hook h s ns now a cur = None) \<and>
   fcntl_hook h fd F_GETFL arg q = None \<and>
   (cmd \<noteq> F_SETFL \<and> \<not> fcntl_passed cmd \<longrightarrow> fcntl_hook h fd cmd arg q = None) \<and>
   (not_passed h fd \<longrightarrow> ioctl_hook h fd FIONBIO val r = None)"
proof -
  have "\<not> fcntl_passed F_GETFL" by (simp add: fcntl_passed_def)
  then show ?thesis
    using close_hook_enabled [of h fd rt r] nanosleep_hook_enabled [of h s ns now a cur]
      fcntl_hook_returns [of h fd _ arg q] ioctl_hook_returns [of h fd FIONBIO val r]
    by (metis not_Some_eq numeral_eq_iff num.distinct(5) semiring_norm(89) semiring_norm(90))
qed

theorem hooks_diverge_witness:
  "close_hook \<lparr>t_hook_enable = False, s_connect_timeout = 5000, hk_fds = FdManager,
    hk_flags = (\<lambda>_. 0), hk_iom = None, hk_tinfo = Map.empty, hk_errno = 0\<rparr> 5 0 0 = None"
  using hooks_diverge [of "\<lparr>t_hook_enable = False, s_connect_timeout = 5000, hk_fds = FdManager,
    hk_flags = (\<lambda>_. 0), hk_iom = None, hk_tinfo = Map.empty, hk_errno = 0\<rparr>" 5 0 0] by simp

end
