(* ===== verification/Sylar_Text.thy ===== *)
theory Sylar_Text
  imports Sylar_Ordered
begin

text \<open>
  Text: numbers printed as the stream operators print them, pieces joined and split at a character,
  and what the C functions on strings do. Components that print or parse text rest on the round
  trips proved here.
\<close>

section \<open>Numbers\<close>

definition digit :: "nat \<Rightarrow> char" where
  "digit d = (if d < 10 then char_of (48 + d) else char_of (87 + d))"

definition digit_val :: "char \<Rightarrow> nat" where
  "digit_val c = (if of_char c < (58 :: nat) then of_char c - 48 else of_char c - 87)"

text \<open>The value in base \<open>b\<close>, without leading zeros, lower case.\<close>

fun show_nat :: "nat \<Rightarrow> nat \<Rightarrow> string" where
  "show_nat b n =
    (if b < 2 \<or> n < b then [digit n] else show_nat b (n div b) @ [digit (n mod b)])"

declare show_nat.simps [simp del]

abbreviation dec :: "nat \<Rightarrow> string" where "dec \<equiv> show_nat 10"
abbreviation hex :: "nat \<Rightarrow> string" where "hex \<equiv> show_nat 16"

definition dec_int :: "int \<Rightarrow> string" where
  "dec_int i = (if i < 0 then ''-'' @ dec (nat (- i)) else dec (nat i))"

definition read_nat :: "nat \<Rightarrow> string \<Rightarrow> nat" where
  "read_nat b s = foldl (\<lambda>v c. v * b + digit_val c) 0 s"

definition is_digit :: "nat \<Rightarrow> char \<Rightarrow> bool" where
  "is_digit b c \<longleftrightarrow> (\<exists>d < b. c = digit d)"

lemma digit_val_digit [simp]: "d < 16 \<Longrightarrow> digit_val (digit d) = d"
  by (simp add: digit_def digit_val_def of_char_of)

lemma show_nat_digits: "2 \<le> b \<Longrightarrow> c \<in> set (show_nat b n) \<Longrightarrow> is_digit b c"
proof (induction b n rule: show_nat.induct)
  case (1 b n)
  have "is_digit b (digit (n mod b))" if "2 \<le> b"
    using that mod_less_divisor [of b n] unfolding is_digit_def by (intro exI [of _ "n mod b"]) auto
  then show ?case
    using 1 show_nat.simps [of b n] by (auto simp: is_digit_def split: if_splits)
qed

lemma show_nat_nonempty [simp]: "show_nat b n \<noteq> []"
  by (subst show_nat.simps) simp

lemma read_show_nat [simp]: "2 \<le> b \<Longrightarrow> b \<le> 16 \<Longrightarrow> read_nat b (show_nat b n) = n"
proof (induction b n rule: show_nat.induct)
  case (1 b n)
  show ?case
  proof (cases "n < b")
    case True
    then show ?thesis using 1(2,3) by (subst show_nat.simps) (simp add: read_nat_def)
  next
    case False
    then have "read_nat b (show_nat b (n div b)) = n div b" using 1 by auto
    moreover have "n mod b < 16" using 1(2,3) mod_less_divisor [of b n] by linarith
    ultimately show ?thesis
      using False 1(2) by (subst show_nat.simps) (simp add: read_nat_def)
  qed
qed

text \<open>Digits are none of the characters texts are punctuated with.\<close>

lemma digit_plain: "is_digit 16 c \<Longrightarrow> c \<notin> {CHR ''.'', CHR '':'', CHR ''/'', CHR ''?'', CHR ''#'', CHR ''['', CHR '']''}"
proof -
  assume "is_digit 16 c"
  then obtain d where d: "d < 16" "c = digit d" by (auto simp: is_digit_def)
  then have "of_char c \<in> {48..57} \<union> {97..(102 :: nat)}"
    by (auto simp: digit_def of_char_of)
  then show ?thesis by auto
qed

lemma is_digit_mono: "is_digit b c \<Longrightarrow> b \<le> b' \<Longrightarrow> is_digit b' c"
proof -
  assume "is_digit b c" and b: "b \<le> b'"
  then obtain d where "d < b" "c = digit d" by (auto simp: is_digit_def)
  then show ?thesis using b unfolding is_digit_def by (intro exI [of _ d]) simp
qed

section \<open>Joining and splitting\<close>

fun join :: "'a \<Rightarrow> 'a list list \<Rightarrow> 'a list" where
  "join c [] = []"
| "join c [x] = x"
| "join c (x # y # xs) = x @ c # join c (y # xs)"

fun split_at :: "'a \<Rightarrow> 'a list \<Rightarrow> 'a list list" where
  "split_at c [] = [[]]"
| "split_at c (x # xs) =
     (if x = c then [] # split_at c xs
      else case split_at c xs of [] \<Rightarrow> [[x]] | p # ps \<Rightarrow> (x # p) # ps)"

lemma split_at_nonempty [simp]: "split_at c xs \<noteq> []"
  by (induction xs) (auto split: list.splits)

lemma split_at_plain: "c \<notin> set xs \<Longrightarrow> split_at c xs = [xs]"
  by (induction xs) auto

lemma split_at_append: "c \<notin> set xs \<Longrightarrow> split_at c (xs @ c # ys) = xs # split_at c ys"
  by (induction xs) auto

lemma split_at_join: "xs \<noteq> [] \<Longrightarrow> \<forall>x \<in> set xs. c \<notin> set x \<Longrightarrow> split_at c (join c xs) = xs"
  by (induction c xs rule: join.induct) (simp_all add: split_at_plain split_at_append)

lemma join_append:
  "xs \<noteq> [] \<Longrightarrow> ys \<noteq> [] \<Longrightarrow> join c (xs @ ys) = join c xs @ c # join c ys"
proof (induction c xs rule: join.induct)
  case (2 c x)
  then show ?case by (cases ys) auto
qed auto

section \<open>C strings\<close>

text \<open>The characters up to the terminating zero, and the part of a string from a character on.\<close>

definition cstr :: "string \<Rightarrow> string" where
  "cstr s = takeWhile (\<lambda>c. c \<noteq> CHR 0x00) s"

definition memchr :: "char \<Rightarrow> string \<Rightarrow> string option" where
  "memchr c s = (case dropWhile (\<lambda>x. x \<noteq> c) s of [] \<Rightarrow> None | r \<Rightarrow> Some r)"

definition before :: "char \<Rightarrow> string \<Rightarrow> string" where
  "before c s = takeWhile (\<lambda>x. x \<noteq> c) s"

lemma memchr_None: "memchr c s = None \<longleftrightarrow> c \<notin> set s"
proof -
  have "memchr c s = None \<longleftrightarrow> dropWhile (\<lambda>x. x \<noteq> c) s = []"
    by (cases "dropWhile (\<lambda>x. x \<noteq> c) s") (simp_all add: memchr_def del: dropWhile_eq_Nil_conv)
  then show ?thesis by auto
qed

lemma memchr_append: "c \<notin> set xs \<Longrightarrow> memchr c (xs @ c # ys) = Some (c # ys)"
  and before_append: "c \<notin> set xs \<Longrightarrow> before c (xs @ c # ys) = xs"
  by (simp_all add: memchr_def before_def dropWhile_append takeWhile_append)

section \<open>Lexicographic order\<close>

text \<open>
  The order of \<^verbatim>\<open>std::string\<close>, \<^verbatim>\<open>memcmp\<close> and \<^verbatim>\<open>strcasecmp\<close>: elements are compared by a number, and a
  proper prefix is smaller.
\<close>

fun lex_less :: "('a \<Rightarrow> nat) \<Rightarrow> 'a list \<Rightarrow> 'a list \<Rightarrow> bool" where
  "lex_less key xs [] = False"
| "lex_less key [] (y # ys) = True"
| "lex_less key (x # xs) (y # ys) = (key x < key y \<or> key x = key y \<and> lex_less key xs ys)"

lemma lex_less_total: "lex_less key xs ys \<or> lex_less key ys xs \<or> map key xs = map key ys"
proof (induction key xs ys rule: lex_less.induct)
  case (1 key xs)
  then show ?case by (cases xs) auto
qed auto

lemma lex_less_trans: "lex_less key xs ys \<Longrightarrow> lex_less key ys zs \<Longrightarrow> lex_less key xs zs"
proof (induction key xs ys arbitrary: zs rule: lex_less.induct)
  case (2 key y ys)
  then show ?case by (cases zs) auto
next
  case (3 key x xs y ys)
  then show ?case by (cases zs) auto
qed simp

lemma lex_less_irrefl: "map key xs = map key ys \<Longrightarrow> \<not> lex_less key xs ys"
  by (induction key xs ys rule: lex_less.induct) auto

interpretation lex: strict_weak "lex_less key" for key :: "'a \<Rightarrow> nat"
proof
  fix x y z :: "'a list"
  show "\<not> lex_less key x x" by (rule lex_less_irrefl) simp
  show "lex_less key x y \<Longrightarrow> lex_less key y z \<Longrightarrow> lex_less key x z" by (rule lex_less_trans)
  assume xz: "lex_less key x z"
  show "lex_less key x y \<or> lex_less key y z"
  proof (rule ccontr)
    assume n: "\<not> (lex_less key x y \<or> lex_less key y z)"
    consider "lex_less key y x" | "map key x = map key y" using n lex_less_total [of key x y] by blast
    then show False
    proof cases
      case 1
      then show ?thesis using n xz lex_less_trans by blast
    next
      case 2
      then have "lex_less key y z"
        using xz
      proof (induction key x z arbitrary: y rule: lex_less.induct)
        case (3 key a as b bs)
        then show ?case by (cases y) auto
      qed auto
      then show ?thesis using n by blast
    qed
  qed
qed

lemma lex_eqv: "strict_weak.eqv (lex_less key) x y \<longleftrightarrow> map key x = map key y"
  unfolding lex.eqv_def using lex_less_total [of key x y] lex_less_irrefl [of key x y]
    lex_less_irrefl [of key y x] by auto

abbreviation string_less :: "string \<Rightarrow> string \<Rightarrow> bool" where
  "string_less \<equiv> lex_less of_char"

lemma string_eqv [simp]: "strict_weak.eqv string_less x y \<longleftrightarrow> x = y"
proof -
  have "inj (of_char :: char \<Rightarrow> nat)" by (auto intro!: injI simp: of_char_eq_iff)
  then show ?thesis by (simp add: lex_eqv inj_map_eq_map)
qed

section \<open>Functions of the C library\<close>

abbreviation NUL :: char where "NUL \<equiv> CHR 0x00"

text \<open>\<^verbatim>\<open>strncmp(a, b, n) == 0\<close>\<close>

definition strncmp_eq :: "string \<Rightarrow> string \<Rightarrow> nat \<Rightarrow> bool" where
  "strncmp_eq a b n \<longleftrightarrow> take n (cstr a @ [NUL]) = take n (cstr b @ [NUL])"

definition tolower :: "char \<Rightarrow> char" where
  "tolower c = (if of_char c \<in> {65..90 :: nat} then char_of (of_char c + 32 :: nat) else c)"

definition xdigit_val :: "char \<Rightarrow> nat option" where
  "xdigit_val c =
    (let k = of_char (tolower c) :: nat in
     if 48 \<le> k \<and> k \<le> 57 then Some (k - 48) else if 97 \<le> k \<and> k \<le> 122 then Some (k - 87) else None)"

definition is_base :: "nat \<Rightarrow> char \<Rightarrow> bool" where
  "is_base b c = (case xdigit_val c of Some d \<Rightarrow> d < b | None \<Rightarrow> False)"

definition isspace :: "char \<Rightarrow> bool" where
  "isspace c \<longleftrightarrow> (of_char c :: nat) \<in> {9, 10, 11, 12, 13, 32}"

definition strtol :: "nat \<Rightarrow> string \<Rightarrow> int" where
  "strtol b s =
    (let s1 = dropWhile isspace s;
         neg = (take 1 s1 = ''-'');
         s2 = (if neg \<or> take 1 s1 = ''+'' then drop 1 s1 else s1);
         s3 = (if b = 16 \<and> map tolower (take 2 s2) = ''0x'' \<and> length s2 > 2 \<and> is_base 16 (s2 ! 2) then drop 2 s2 else s2);
         v = foldl (\<lambda>v c. v * int b + (case xdigit_val c of Some d \<Rightarrow> int d | None \<Rightarrow> 0)) 0 (takeWhile (is_base b) s3)
     in max (- (2 ^ 63)) (min (2 ^ 63 - 1) (if neg then - v else v)))"

text \<open>Conversion of a \<^verbatim>\<open>long\<close> to an \<^verbatim>\<open>int\<close>.\<close>

definition to_int :: "int \<Rightarrow> int" where
  "to_int v = signed_take_bit 31 v"

definition atoi :: "string \<Rightarrow> int" where
  "atoi s = to_int (strtol 10 s)"
lemma digit_10:
  assumes "is_digit 10 c"
  shows "is_base 10 c" "\<not> isspace c" "c \<noteq> CHR ''-''" "c \<noteq> CHR ''+''" "xdigit_val c = Some (digit_val c)" "of_char c \<in> {48..57 :: nat}"
proof -
  obtain d :: nat where d: "d < 10" "c = char_of (48 + d)" using assms by (auto simp: is_digit_def digit_def)
  have d': "of_char c = (48 + d :: nat)" using d by (simp add: of_char_of)
  then have l: "tolower c = c" using d(1) by (simp add: tolower_def)
  show "xdigit_val c = Some (digit_val c)" using d(1) d' l by (simp add: xdigit_val_def digit_val_def)
  then show "is_base 10 c" using d(1) d' by (simp add: is_base_def digit_val_def)
  show "\<not> isspace c" "c \<noteq> CHR ''-''" "c \<noteq> CHR ''+''" "of_char c \<in> {48..57 :: nat}" using d(1) d' by (auto simp: isspace_def)
qed

lemma strtol_dec:
  assumes "int n < 2 ^ 63" "rest = [] \<or> \<not> is_base 10 (hd rest)"
  shows "strtol 10 (dec n @ rest) = int n"
proof -
  have d: "is_digit 10 c" if "c \<in> set (dec n)" for c using show_nat_digits [OF _ that] by simp
  obtain c cs where c: "dec n = c # cs" using show_nat_nonempty [of 10 n] by (meson neq_Nil_conv)
  note first = digit_10 [OF d [of c]]
  have "\<And>c. c \<in> set (dec n) \<Longrightarrow> is_base 10 c" using d digit_10(1) by blast
  then have "takeWhile (is_base 10) (dec n @ rest) = dec n @ takeWhile (is_base 10) rest" by (rule takeWhile_append2)
  moreover have "takeWhile (is_base 10) rest = []" using assms(2) by (cases rest) simp_all
  ultimately have tw: "takeWhile (is_base 10) (dec n @ rest) = dec n" by simp
  have "foldl (\<lambda>v c. v * 10 + (case xdigit_val c of Some d \<Rightarrow> int d | None \<Rightarrow> 0)) (int v) w = int (foldl (\<lambda>v c. v * 10 + digit_val c) v w)"
    if "\<forall>c \<in> set w. is_digit 10 c" for v w
    using that
  proof (induction w arbitrary: v)
    case (Cons c w)
    then show ?case using Cons.IH [of "v * 10 + digit_val c"] digit_10(5) [of c] by simp
  qed simp
  from this [of "dec n" 0] have v: "foldl (\<lambda>v c. v * 10 + (case xdigit_val c of Some d \<Rightarrow> int d | None \<Rightarrow> 0)) 0 (dec n) = int n"
    using d read_show_nat [of 10 n] by (simp add: read_nat_def)
  have s: "dropWhile isspace (dec n @ rest) = dec n @ rest" "take 1 (dec n @ rest) \<noteq> ''-''" "take 1 (dec n @ rest) \<noteq> ''+''"
    using first c by auto
  show ?thesis using s tw v assms(1) by (simp add: strtol_def Let_def)
qed

lemma atoi_dec:
  assumes "int n < 2 ^ 31" "rest = [] \<or> \<not> is_base 10 (hd rest)"
  shows "atoi (dec n @ rest) = int n"
  using strtol_dec [of n rest] assms by (simp add: atoi_def to_int_def signed_take_bit_int_eq_self)

end
