(* ===== verification/Sylar_Address.thy ===== *)
theory Sylar_Address
  imports Sylar_Endian Sylar_Text
begin

text \<open>
  Socket addresses (\<^verbatim>\<open>sylar/address.cpp\<close>). The \<^verbatim>\<open>sockaddr\<close> structures are records of their fields as
  they lie in memory, on a host whose byte order is an argument, and the class hierarchy is a
  datatype. \<^verbatim>\<open>getaddrinfo\<close>, \<^verbatim>\<open>getifaddrs\<close> and \<^verbatim>\<open>inet_pton\<close> are outside the sources: what they return is
  an argument.
\<close>

section \<open>The structures\<close>

abbreviation AF_UNSPEC :: u16 where "AF_UNSPEC \<equiv> 0"
abbreviation AF_UNIX :: u16 where "AF_UNIX \<equiv> 1"
abbreviation AF_INET :: u16 where "AF_INET \<equiv> 2"
abbreviation AF_INET6 :: u16 where "AF_INET6 \<equiv> 10"

record sockaddr_in =
  sin_family :: u16
  sin_port :: u16
  s_addr :: u32

record sockaddr_in6 =
  sin6_family :: u16
  sin6_port :: u16
  sin6_flowinfo :: u32
  s6_addr :: bytes
  sin6_scope_id :: u32

record sockaddr_un =
  sun_family :: u16
  sun_path :: bytes

datatype address =
    IPv4 sockaddr_in
  | IPv6 sockaddr_in6
  | Unix sockaddr_un u32
  | Unknow u16 bytes

text \<open>What a \<^verbatim>\<open>sockaddr\<close> pointer points to, by its family.\<close>

datatype raw_addr = Raw_in sockaddr_in | Raw_in6 sockaddr_in6 | Raw_other u16 bytes

section \<open>Masks\<close>

text \<open>
  \<open>CreateMask\<close> shifts an \<^verbatim>\<open>int\<close>: for \<^verbatim>\<open>uint32_t\<close> the shift by 32 is undefined, and so is the
  subtraction from the most negative number after the shift by 31.
\<close>

definition CreateMask32 :: "u32 \<Rightarrow> u32 res" where
  "CreateMask32 bits =
    (if bits = 0 \<or> bits > 32 then Inl (Undefined ''shift out of range'')
     else if bits = 1 then Inl (Undefined ''signed overflow'')
     else Inr (push_bit (32 - unat bits) 1 - 1))"

definition CreateMask8 :: "u32 \<Rightarrow> u8" where
  "CreateMask8 bits = ucast (push_bit (8 - unat bits) 1 - 1 :: u32)"

text \<open>Clearing the lowest bit set until none is left.\<close>

lemma clear_lowest_less: "v \<noteq> 0 \<Longrightarrow> unat (v AND (v - 1)) < unat v" for v :: "'a::len word"
proof -
  assume v: "v \<noteq> 0"
  have "unat (v AND (v - 1)) \<le> unat (v - 1)"
    using word_and_le1 [of v "v - 1"] by (simp add: word_le_nat_alt)
  also have "\<dots> < unat v" using v by (simp add: unat_minus_one unat_gt_0)
  finally show ?thesis .
qed

function CountBytes :: "'a::len word \<Rightarrow> nat" where
  "CountBytes value = (if value = 0 then 0 else Suc (CountBytes (value AND (value - 1))))"
  by auto
termination by (relation "measure unat") (use clear_lowest_less in auto)

declare CountBytes.simps [simp del]

section \<open>Construction\<close>

definition IPv4Address :: "u8 \<Rightarrow> u32 \<Rightarrow> u16 \<Rightarrow> sockaddr_in" where
  "IPv4Address host address port =
    \<lparr>sin_family = AF_INET, sin_port = byteswapOnLittleEndian host port,
     s_addr = byteswapOnLittleEndian host address\<rparr>"

text \<open>\<open>pton\<close> is what \<^verbatim>\<open>inet_pton\<close> stores, \<open>None\<close> if it does not accept the text.\<close>

definition IPv4_Create :: "u8 \<Rightarrow> u32 option \<Rightarrow> u16 \<Rightarrow> address option" where
  "IPv4_Create host pton port =
    (case pton of
       None \<Rightarrow> None
     | Some a \<Rightarrow> Some (IPv4 ((IPv4Address host 0 0)\<lparr>sin_port := byteswapOnLittleEndian host port, s_addr := a\<rparr>)))"

definition IPv6Address :: sockaddr_in6 where
  "IPv6Address = \<lparr>sin6_family = AF_INET6, sin6_port = 0, sin6_flowinfo = 0,
    s6_addr = replicate 16 0, sin6_scope_id = 0\<rparr>"

definition IPv6Address_bytes :: "u8 \<Rightarrow> bytes \<Rightarrow> u16 \<Rightarrow> sockaddr_in6" where
  "IPv6Address_bytes host address port =
    IPv6Address\<lparr>sin6_port := byteswapOnLittleEndian host port, s6_addr := take 16 address\<rparr>"

definition IPv6_Create :: "u8 \<Rightarrow> bytes option \<Rightarrow> u16 \<Rightarrow> address option" where
  "IPv6_Create host pton port =
    (case pton of
       None \<Rightarrow> None
     | Some a \<Rightarrow> Some (IPv6 (IPv6Address\<lparr>sin6_port := byteswapOnLittleEndian host port, s6_addr := a\<rparr>)))"

text \<open>\<^verbatim>\<open>sun_path\<close> has 108 bytes at offset 2.\<close>

definition UnixAddress :: address where
  "UnixAddress = Unix \<lparr>sun_family = AF_UNIX, sun_path = replicate 108 0\<rparr> (2 + 107)"

definition UnixAddress_path :: "bytes \<Rightarrow> address res" where
  "UnixAddress_path path =
    (let len = (if path \<noteq> [] \<and> hd path = 0 then length path else length path + 1) in
     if len > 108 then Inl (Logic_error ''path too long'')
     else Inr (Unix \<lparr>sun_family = AF_UNIX,
                     sun_path = overwrite (replicate 108 0) 0 (take len (path @ [0]))\<rparr> (of_nat (len + 2))))"

definition setAddrlen :: "address \<Rightarrow> u32 \<Rightarrow> address" where
  "setAddrlen a v = (case a of Unix m _ \<Rightarrow> Unix m v | _ \<Rightarrow> a)"

definition Address_Create :: "raw_addr option \<Rightarrow> address option" where
  "Address_Create addr =
    (case addr of
       None \<Rightarrow> None
     | Some (Raw_in a) \<Rightarrow> Some (IPv4 a)
     | Some (Raw_in6 a) \<Rightarrow> Some (IPv6 a)
     | Some (Raw_other f bs) \<Rightarrow> Some (Unknow f bs))"

section \<open>Accessors\<close>

text \<open>The object \<open>getAddr\<close> points to, and \<open>getAddrLen\<close>.\<close>

definition getAddr :: "u8 \<Rightarrow> address \<Rightarrow> bytes" where
  "getAddr host a =
    (case a of
       IPv4 m \<Rightarrow> mem_of host (sin_family m) @ mem_of host (sin_port m) @ mem_of host (s_addr m) @ replicate 8 0
     | IPv6 m \<Rightarrow> mem_of host (sin6_family m) @ mem_of host (sin6_port m) @ mem_of host (sin6_flowinfo m) @
         s6_addr m @ mem_of host (sin6_scope_id m)
     | Unix m _ \<Rightarrow> mem_of host (sun_family m) @ sun_path m
     | Unknow f bs \<Rightarrow> mem_of host f @ bs)"

definition getAddrLen :: "address \<Rightarrow> nat" where
  "getAddrLen a = (case a of IPv4 _ \<Rightarrow> 16 | IPv6 _ \<Rightarrow> 28 | Unix _ l \<Rightarrow> unat l | Unknow _ _ \<Rightarrow> 16)"

definition getFamily :: "address \<Rightarrow> u16" where
  "getFamily a =
    (case a of IPv4 m \<Rightarrow> sin_family m | IPv6 m \<Rightarrow> sin6_family m | Unix m _ \<Rightarrow> sun_family m | Unknow f _ \<Rightarrow> f)"

definition getPort :: "u8 \<Rightarrow> address \<Rightarrow> u16 option" where
  "getPort host a =
    (case a of
       IPv4 m \<Rightarrow> Some (byteswapOnLittleEndian host (sin_port m))
     | IPv6 m \<Rightarrow> Some (byteswapOnLittleEndian host (sin6_port m))
     | _ \<Rightarrow> None)"

definition setPort :: "u8 \<Rightarrow> address \<Rightarrow> u16 \<Rightarrow> address" where
  "setPort host a v =
    (case a of
       IPv4 m \<Rightarrow> IPv4 (m\<lparr>sin_port := byteswapOnLittleEndian host v\<rparr>)
     | IPv6 m \<Rightarrow> IPv6 (m\<lparr>sin6_port := byteswapOnLittleEndian host v\<rparr>)
     | _ \<Rightarrow> a)"

section \<open>Comparison\<close>

fun memcmp :: "bytes \<Rightarrow> bytes \<Rightarrow> int" where
  "memcmp (x # xs) (y # ys) = (if x < y then -1 else if y < x then 1 else memcmp xs ys)"
| "memcmp _ _ = 0"

definition address_less :: "u8 \<Rightarrow> address \<Rightarrow> address \<Rightarrow> bool" where
  "address_less host a b =
    (let minlen = min (getAddrLen a) (getAddrLen b);
         result = memcmp (take minlen (getAddr host a)) (take minlen (getAddr host b))
     in if result < 0 then True else if result > 0 then False else getAddrLen a < getAddrLen b)"

definition address_eq :: "u8 \<Rightarrow> address \<Rightarrow> address \<Rightarrow> bool" where
  "address_eq host a b \<longleftrightarrow> getAddrLen a = getAddrLen b \<and>
    memcmp (take (getAddrLen a) (getAddr host a)) (take (getAddrLen a) (getAddr host b)) = 0"

section \<open>Networks\<close>

definition broadcastAddress4 :: "u8 \<Rightarrow> sockaddr_in \<Rightarrow> u32 \<Rightarrow> sockaddr_in option res" where
  "broadcastAddress4 host m prefix_len =
    (if prefix_len > 32 then Inr None
     else bindE (CreateMask32 prefix_len) (\<lambda>k.
       Inr (Some (m\<lparr>s_addr := s_addr m OR byteswapOnLittleEndian host k\<rparr>))))"

definition networdAddress4 :: "u8 \<Rightarrow> sockaddr_in \<Rightarrow> u32 \<Rightarrow> sockaddr_in option res" where
  "networdAddress4 host m prefix_len =
    (if prefix_len > 32 then Inr None
     else bindE (CreateMask32 prefix_len) (\<lambda>k.
       Inr (Some (m\<lparr>s_addr := s_addr m AND byteswapOnLittleEndian host k\<rparr>))))"

definition subnetMask4 :: "u8 \<Rightarrow> u32 \<Rightarrow> sockaddr_in res" where
  "subnetMask4 host prefix_len =
    bindE (CreateMask32 prefix_len) (\<lambda>k.
      Inr \<lparr>sin_family = AF_INET, sin_port = 0, s_addr = NOT (byteswapOnLittleEndian host k)\<rparr>)"

text \<open>The loops that fill the rest of the 16 bytes; index 16 is outside of the array.\<close>

definition fill_from :: "nat \<Rightarrow> u8 \<Rightarrow> bytes \<Rightarrow> bytes" where
  "fill_from i v bs = foldl (\<lambda>bs j. bs[j := v]) bs [i..<16]"

definition broadcastAddress6 :: "sockaddr_in6 \<Rightarrow> u32 \<Rightarrow> sockaddr_in6 res" where
  "broadcastAddress6 m prefix_len =
    (let i = unat prefix_len div 8; bs = s6_addr m in
     if i \<ge> length bs then Inl Out_of_bounds
     else Inr (m\<lparr>s6_addr := fill_from (i + 1) 0xff (bs[i := bs ! i OR CreateMask8 (prefix_len mod 8)])\<rparr>))"

definition networdAddress6 :: "sockaddr_in6 \<Rightarrow> u32 \<Rightarrow> sockaddr_in6 res" where
  "networdAddress6 m prefix_len =
    (let i = unat prefix_len div 8; bs = s6_addr m in
     if i \<ge> length bs then Inl Out_of_bounds
     else Inr (m\<lparr>s6_addr := fill_from (i + 1) 0x00 (bs[i := bs ! i AND CreateMask8 (prefix_len mod 8)])\<rparr>))"

definition subnetMask6 :: "u32 \<Rightarrow> sockaddr_in6 res" where
  "subnetMask6 prefix_len =
    (let i = unat prefix_len div 8; bs = s6_addr IPv6Address in
     if i \<ge> length bs then Inl Out_of_bounds
     else Inr (IPv6Address\<lparr>s6_addr :=
       foldl (\<lambda>bs j. bs[j := 0xff]) (bs[i := NOT (CreateMask8 (prefix_len mod 8))]) [0..<i]\<rparr>))"

section \<open>Text\<close>

definition insert4 :: "u8 \<Rightarrow> sockaddr_in \<Rightarrow> string" where
  "insert4 host m =
    (let addr = byteswapOnLittleEndian host (s_addr m) in
     dec (unat (drop_bit 24 addr AND 0xff)) @ ''.'' @ dec (unat (drop_bit 16 addr AND 0xff)) @ ''.'' @
     dec (unat (drop_bit 8 addr AND 0xff)) @ ''.'' @ dec (unat (addr AND 0xff)) @ '':'' @
     dec (unat (byteswapOnLittleEndian host (sin_port m))))"

text \<open>The sixteen bytes as eight \<^verbatim>\<open>uint16_t\<close>.\<close>

definition words6 :: "u8 \<Rightarrow> bytes \<Rightarrow> u16 list" where
  "words6 host bs = map (\<lambda>i. of_mem host [bs ! (2 * i), bs ! (2 * i + 1)]) [0..<8]"

fun insert6_loop :: "u8 \<Rightarrow> u16 list \<Rightarrow> nat list \<Rightarrow> bool \<Rightarrow> string \<times> bool" where
  "insert6_loop host addr [] used_zero = ('''', used_zero)"
| "insert6_loop host addr (i # is) used_zero =
     (if addr ! i = 0 \<and> \<not> used_zero then insert6_loop host addr is used_zero
      else
        let z = (i \<noteq> 0 \<and> addr ! (i - 1) = 0 \<and> \<not> used_zero);
            (s, u) = insert6_loop host addr is (used_zero \<or> z)
        in ((if z then '':'' else '''') @ (if i \<noteq> 0 then '':'' else '''') @
            hex (unat (byteswapOnLittleEndian host (addr ! i))) @ s, u))"

definition insert6 :: "u8 \<Rightarrow> sockaddr_in6 \<Rightarrow> string" where
  "insert6 host m =
    (let addr = words6 host (s6_addr m);
         (s, used_zero) = insert6_loop host addr [0..<8] False
     in ''['' @ s @ (if \<not> used_zero \<and> addr ! 7 = 0 then ''::'' else '''') @ '']:'' @
        dec (unat (byteswapOnLittleEndian host (sin6_port m))))"

definition chars :: "bytes \<Rightarrow> string" where
  "chars bs = map (\<lambda>b. char_of (unat b)) bs"

definition insert_un :: "sockaddr_un \<Rightarrow> u32 \<Rightarrow> string" where
  "insert_un m l =
    (if l > 2 \<and> sun_path m ! 0 = 0
     then [CHR 0x5C, CHR ''0''] @ chars (take (unat l - 2 - 1) (drop 1 (sun_path m)))
     else cstr (chars (sun_path m)))"

definition address_toString :: "u8 \<Rightarrow> address \<Rightarrow> string" where
  "address_toString host a =
    (case a of
       IPv4 m \<Rightarrow> insert4 host m
     | IPv6 m \<Rightarrow> insert6 host m
     | Unix m l \<Rightarrow> insert_un m l
     | Unknow f _ \<Rightarrow> ''[UnknownAddress family='' @ dec (unat f) @ '']'')"

section \<open>Lookup\<close>

text \<open>The node and the service that \<open>Lookup\<close> takes from the host text.\<close>

definition split_brackets :: "string \<Rightarrow> string \<times> string option" where
  "split_brackets host =
    (if host \<noteq> [] \<and> hd host = CHR ''['' then
       (case memchr (CHR '']'') (tl host) of
          None \<Rightarrow> ([], None)
        | Some e \<Rightarrow>
           (before (CHR '']'') (tl host),
            if take 1 (tl e) = '':'' then Some (drop 2 e) else None))
     else ([], None))"

definition split_host :: "string \<Rightarrow> string \<times> string option" where
  "split_host host =
    (let (node, service) = split_brackets host;
         (node, service) =
           (if node = [] then
              (case memchr (CHR '':'') host of
                 None \<Rightarrow> (node, None)
               | Some sv \<Rightarrow>
                  if memchr (CHR '':'') (tl sv) = None then (before (CHR '':'') host, Some (tl sv))
                  else (node, Some sv))
            else (node, service))
     in (if node = [] then host else node, service))"

text \<open>\<^verbatim>\<open>getaddrinfo\<close> gets the node, the service, the family, the type and the protocol.\<close>

type_synonym resolver = "string \<Rightarrow> string option \<Rightarrow> u16 \<Rightarrow> int \<Rightarrow> int \<Rightarrow> raw_addr list option"

definition Lookup :: "resolver \<Rightarrow> address list \<Rightarrow> string \<Rightarrow> u16 \<Rightarrow> int \<Rightarrow> int \<Rightarrow> bool \<times> address list" where
  "Lookup gai result host family type protocol =
    (let (node, service) = split_host host in
     case gai (cstr node) (map_option cstr service) family type protocol of
       None \<Rightarrow> (False, result)
     | Some rs \<Rightarrow>
        (let result' = result @ List.map_filter (\<lambda>r. Address_Create (Some r)) rs in (result' \<noteq> [], result')))"

definition LookupAny :: "resolver \<Rightarrow> string \<Rightarrow> u16 \<Rightarrow> int \<Rightarrow> int \<Rightarrow> address option" where
  "LookupAny gai host family type protocol =
    (let (ok, result) = Lookup gai [] host family type protocol in if ok then Some (result ! 0) else None)"

definition is_ip :: "address \<Rightarrow> bool" where
  "is_ip a = (case a of IPv4 _ \<Rightarrow> True | IPv6 _ \<Rightarrow> True | _ \<Rightarrow> False)"

definition LookupAnyIPAddress :: "resolver \<Rightarrow> string \<Rightarrow> u16 \<Rightarrow> int \<Rightarrow> int \<Rightarrow> address option" where
  "LookupAnyIPAddress gai host family type protocol =
    (let (ok, result) = Lookup gai [] host family type protocol in if ok then find is_ip result else None)"

definition IPAddress_Create :: "u8 \<Rightarrow> raw_addr list option \<Rightarrow> u16 \<Rightarrow> address option res" where
  "IPAddress_Create host gai port =
    (case gai of
       None \<Rightarrow> Inr None
     | Some [] \<Rightarrow> Inl Null_deref
     | Some (r # _) \<Rightarrow>
        Inr (case Address_Create (Some r) of
               None \<Rightarrow> None
             | Some a \<Rightarrow> if is_ip a then Some (setPort host a port) else None))"

section \<open>Interfaces\<close>

text \<open>An entry of \<^verbatim>\<open>getifaddrs\<close>: the name, the address if there is one, and the netmask.\<close>

datatype netmask = Mask4 u32 | Mask6 bytes | No_mask

type_synonym ifaddr = "string \<times> raw_addr option \<times> netmask"

fun raw_family :: "raw_addr \<Rightarrow> u16" where
  "raw_family (Raw_in a) = AF_INET" | "raw_family (Raw_in6 a) = AF_INET6" | "raw_family (Raw_other f _) = f"

text \<open>Insertion into a \<^verbatim>\<open>std::multimap\<close>: after the entries with smaller or equal keys.\<close>

fun mm_insert :: "('k \<Rightarrow> 'k \<Rightarrow> bool) \<Rightarrow> 'k \<Rightarrow> 'v \<Rightarrow> ('k \<times> 'v) list \<Rightarrow> ('k \<times> 'v) list" where
  "mm_insert lt k v [] = [(k, v)]"
| "mm_insert lt k v ((k', v') # m) = (if lt k k' then (k, v) # (k', v') # m else (k', v') # mm_insert lt k v m)"

fun iface_entry :: "ifaddr \<Rightarrow> (address \<times> nat) option res" where
  "iface_entry (name, Some (Raw_in a), Mask4 m) = Inr (Some (IPv4 a, CountBytes m))"
| "iface_entry (name, Some (Raw_in6 a), Mask6 bs) = Inr (Some (IPv6 a, sum_list (map CountBytes bs)))"
| "iface_entry (name, Some (Raw_other f bs), _) = Inr None"
| "iface_entry _ = Inl Null_deref"

fun GetInterfaceAddresses ::
  "u16 \<Rightarrow> ifaddr list \<Rightarrow> (string \<times> address \<times> nat) list \<Rightarrow> (bool \<times> (string \<times> address \<times> nat) list) res"
where
  "GetInterfaceAddresses family [] result = Inr (result \<noteq> [], result)"
| "GetInterfaceAddresses family (i # is) result =
     (case i of
        (_, None, _) \<Rightarrow> Inl Null_deref
      | (name, Some r, m) \<Rightarrow>
         if family \<noteq> AF_UNSPEC \<and> family \<noteq> raw_family r then GetInterfaceAddresses family is result
         else bindE (iface_entry i) (\<lambda>e.
           GetInterfaceAddresses family is
             (case e of None \<Rightarrow> result | Some v \<Rightarrow> mm_insert string_less name v result)))"

definition GetInterfaceAddresses_of ::
  "u8 \<Rightarrow> string \<Rightarrow> u16 \<Rightarrow> ifaddr list \<Rightarrow> (address \<times> nat) list \<Rightarrow> (bool \<times> (address \<times> nat) list) res"
where
  "GetInterfaceAddresses_of host iface family ifs result =
    (if iface = [] \<or> iface = ''*'' then
       Inr (True, result @
         (if family = AF_INET \<or> family = AF_UNSPEC then [(IPv4 (IPv4Address host 0 0), 0)] else []) @
         (if family = AF_INET6 \<or> family = AF_UNSPEC then [(IPv6 IPv6Address, 0)] else []))
     else bindE (GetInterfaceAddresses family ifs []) (\<lambda>(ok, results).
       if \<not> ok then Inr (False, result)
       else
         let r = result @ map snd (filter (\<lambda>(n, _). n = iface) results) in Inr (r \<noteq> [], r)))"

section \<open>Swapping bytes permutes the bits\<close>

lemma bit_byteswap32: "bit (byteswap (w :: u32)) n \<longleftrightarrow> n < 32 \<and> bit w (8 * (3 - n div 8) + n mod 8)"
proof -
  have "rev (le_bytes w) ! (n div 8) = byte_of w (3 - n div 8)" if "n < 32"
    using that by (simp add: rev_nth less_mult_imp_div_less)
  moreover have "n div 8 < 4" if "n < 32" using that by simp
  ultimately show ?thesis
    by (auto simp: byteswap_def bit_of_le_bytes bit_byte_of)
qed

lemma byteswap32_ops:
  "byteswap (v OR w) = byteswap v OR byteswap (w :: u32)"
  "byteswap (v AND w) = byteswap v AND byteswap w"
  "byteswap (NOT w) = NOT (byteswap w)"
proof -
  have "8 * (3 - n div 8) + n mod 8 < 32" for n :: nat
  proof -
    have "8 * (3 - n div 8) \<le> 24" "n mod 8 < 8" by simp_all
    then show ?thesis by linarith
  qed
  then show "byteswap (v OR w) = byteswap v OR byteswap w" "byteswap (v AND w) = byteswap v AND byteswap w"
    "byteswap (NOT w) = NOT (byteswap w)"
    by (auto intro!: bit_word_eqI simp: bit_byteswap32 bit_simps)
qed

text \<open>An address as a number in the host's byte order.\<close>

abbreviation ntoh32 :: "u8 \<Rightarrow> u32 \<Rightarrow> u32" where "ntoh32 host \<equiv> byteswapOnLittleEndian host"

lemma ntoh_ops [simp]:
  "ntoh32 host (v OR w) = ntoh32 host v OR ntoh32 host w"
  "ntoh32 host (v AND w) = ntoh32 host v AND ntoh32 host w"
  "ntoh32 host (NOT w) = NOT (ntoh32 host w)" "ntoh32 host (ntoh32 host w) = w"
  by (simp_all add: byteswapOnLittleEndian_def byteswap32_ops)

section \<open>Counting bits\<close>

definition bits_of :: "'a::len word \<Rightarrow> nat set" where
  "bits_of w = {n. bit w n}"

lemma finite_bits_of [simp]: "finite (bits_of (w :: 'a::len word))"
  by (rule finite_subset [of _ "{..<LENGTH('a)}"]) (auto simp: bits_of_def dest: bit_imp_le_length)

lemma clear_lowest:
  fixes v :: "'a::len word"
  assumes k: "bit v k" "\<forall>j < k. \<not> bit v j"
  shows "bits_of (v AND (v - 1)) = bits_of v - {k}"
proof -
  define q where "q = Suc k"
  let ?m = "push_bit q (drop_bit q v)"
  have m: "bit ?m n \<longleftrightarrow> k < n \<and> bit v n" for n
  proof -
    have "bit ?m n \<longleftrightarrow> q \<le> n \<and> bit v n"
      by (cases "q \<le> n") (auto simp: bit_push_bit_iff bit_drop_bit_eq dest: bit_imp_le_length)
    then show ?thesis by (simp add: q_def Suc_le_eq del: push_bit_Suc drop_bit_Suc)
  qed
  have kl: "k < LENGTH('a)" using k(1) by (rule bit_imp_le_length)
  have v: "v = ?m OR 2 ^ k"
    using k kl by (intro bit_word_eqI) (auto simp: bit_or_iff m bit_exp_iff not_less_iff_gr_or_eq)
  have add: "?m + mask k = ?m OR mask k" "?m + 2 ^ k = ?m OR 2 ^ k"
    by (auto intro!: disjunctive_add simp: m bit_exp_iff bit_mask_iff)
  have "v - 1 = ?m + 2 ^ k - 1" using v add(2) by simp
  also have "\<dots> = ?m + mask k" by (simp only: mask_eq_exp_minus_1 add_diff_eq)
  finally have "v - 1 = ?m OR mask k" using add(1) by (simp only:)
  then have "bit (v AND (v - 1)) n \<longleftrightarrow> bit v n \<and> n \<noteq> k" for n
    using k kl by (auto simp: bit_and_iff bit_or_iff m bit_mask_iff not_less_iff_gr_or_eq)
  then show ?thesis by (auto simp: bits_of_def)
qed

lemma CountBytes_card: "CountBytes v = card (bits_of v)" for v :: "'a::len word"
proof (induction v rule: CountBytes.induct)
  case (1 v)
  show ?case
  proof (cases "v = 0")
    case True
    then show ?thesis by (subst CountBytes.simps) (simp add: bits_of_def)
  next
    case False
    then obtain j where "bit v j" by (auto simp: bit_eq_iff)
    then obtain k where k: "bit v k" "\<forall>j < k. \<not> bit v j"
      using exists_least_iff [of "bit v"] by blast
    have "card (bits_of v) = Suc (card (bits_of v - {k}))"
      using k(1) by (intro card.remove) (auto simp: bits_of_def)
    then show ?thesis
      using 1 False clear_lowest [OF k] by (subst CountBytes.simps) simp
  qed
qed

section \<open>Masks\<close>

lemma CreateMask32_ok:
  assumes "2 \<le> unat p" "unat p \<le> 32"
  shows "CreateMask32 p = Inr (mask (32 - unat p))"
proof -
  have "p \<noteq> 0" "p \<noteq> 1" "\<not> p > 32" using assms by (auto simp: word_less_nat_alt)
  then show ?thesis by (simp add: CreateMask32_def mask_eq_exp_minus_1 push_bit_of_1)
qed

lemma swap_index:
  assumes "n < 32"
  shows "8 * (3 - n div 8) + n mod 8 < (32 :: nat)"
    "8 * (3 - (8 * (3 - n div 8) + n mod 8) div 8) + (8 * (3 - n div 8) + n mod 8) mod 8 = n"
proof -
  have "n div 8 \<le> 3" using assms by simp
  then have "3 - (3 - n div 8) = n div 8" by simp
  then show "8 * (3 - (8 * (3 - n div 8) + n mod 8) div 8) + (8 * (3 - n div 8) + n mod 8) mod 8 = n"
    by (simp add: div_mult_self4)
  have "8 * (3 - n div 8) \<le> 24" "n mod 8 < 8" by simp_all
  then show "8 * (3 - n div 8) + n mod 8 < 32" by linarith
qed

lemma card_bits_byteswap: "card (bits_of (byteswap (w :: u32))) = card (bits_of w)"
proof -
  let ?f = "\<lambda>n :: nat. 8 * (3 - n div 8) + n mod 8"
  have lt: "n < 32" if "n \<in> bits_of v" for n and v :: u32
    using that by (auto simp: bits_of_def dest: bit_imp_le_length)
  have "bij_betw ?f (bits_of (byteswap w)) (bits_of w)"
  proof (rule bij_betw_byWitness [where f' = ?f])
    show "\<forall>a \<in> bits_of (byteswap w). ?f (?f a) = a" using lt swap_index(2) by blast
    show "\<forall>a \<in> bits_of w. ?f (?f a) = a" using lt swap_index(2) by blast
    show "?f ` bits_of (byteswap w) \<subseteq> bits_of w" by (auto simp: bits_of_def bit_byteswap32)
    show "?f ` bits_of w \<subseteq> bits_of (byteswap w)"
    proof
      fix x assume "x \<in> ?f ` bits_of w"
      then obtain n where n: "n \<in> bits_of w" "x = ?f n" by blast
      have "n < 32" using lt [OF n(1)] .
      then show "x \<in> bits_of (byteswap w)"
        using n(1) swap_index [of n] unfolding n(2) bits_of_def mem_Collect_eq bit_byteswap32 by simp
    qed
  qed
  then show ?thesis by (rule bij_betw_same_card)
qed

lemma count_subnet:
  assumes "unat p \<le> 32"
  shows "CountBytes (NOT (ntoh32 host (mask (32 - unat p)))) = unat p"
proof -
  have "bits_of (NOT (mask k) :: u32) = {k..<32}" if "k \<le> 32" for k
    using that by (auto simp: bits_of_def bit_simps)
  then have "card (bits_of (NOT (mask (32 - unat p)) :: u32)) = unat p"
    using assms by simp
  moreover have "card (bits_of (ntoh32 host w)) = card (bits_of w)" for w
    by (simp add: byteswapOnLittleEndian_def card_bits_byteswap)
  ultimately show ?thesis
    unfolding CountBytes_card ntoh_ops(3) [symmetric] by (simp only:)
qed

section \<open>Order\<close>

definition addr_ok :: "u8 \<Rightarrow> address \<Rightarrow> bool" where
  "addr_ok host a \<longleftrightarrow> getAddrLen a \<le> length (getAddr host a)"

text \<open>The bytes that are compared.\<close>

definition addr_key :: "u8 \<Rightarrow> address \<Rightarrow> bytes" where
  "addr_key host a = take (getAddrLen a) (getAddr host a)"

lemma memcmp_lex:
  "(let n = min (length xs) (length ys); r = memcmp (take n xs) (take n ys)
    in if r < 0 then True else if r > 0 then False else length xs < length ys) = lex_less unat xs ys"
proof (induction xs arbitrary: ys)
  case Nil
  then show ?case by (cases ys) simp_all
next
  case (Cons x xs)
  note IH = Cons.IH
  show ?case
  proof (cases ys)
    case (Cons y zs)
    consider "x < y" "unat x < unat y" | "y < x" "unat y < unat x" | "x = y"
      by (metis linorder_neqE word_less_nat_alt)
    then show ?thesis
      using IH [of zs] unfolding Cons Let_def by cases (simp_all split: if_splits)
  qed simp
qed

lemma memcmp_eq: "length xs = length ys \<Longrightarrow> memcmp xs ys = 0 \<longleftrightarrow> xs = ys"
  by (induction xs ys rule: memcmp.induct) auto

lemma address_less_lex:
  assumes "addr_ok host a" "addr_ok host b"
  shows "address_less host a b = lex_less unat (addr_key host a) (addr_key host b)"
proof -
  have "take (min (getAddrLen a) (getAddrLen b)) (getAddr host a) =
      take (min (getAddrLen a) (getAddrLen b)) (addr_key host a)"
    "take (min (getAddrLen a) (getAddrLen b)) (getAddr host b) =
      take (min (getAddrLen a) (getAddrLen b)) (addr_key host b)"
    by (simp_all add: addr_key_def min_def)
  moreover have "length (addr_key host a) = getAddrLen a" "length (addr_key host b) = getAddrLen b"
    using assms by (simp_all add: addr_key_def addr_ok_def)
  ultimately show ?thesis
    using memcmp_lex [of "addr_key host a" "addr_key host b"]
    by (simp only: address_less_def Let_def)
qed

lemma address_eq_key:
  assumes "addr_ok host a" "addr_ok host b"
  shows "address_eq host a b \<longleftrightarrow> addr_key host a = addr_key host b"
proof -
  have l: "length (addr_key host a) = getAddrLen a" "length (addr_key host b) = getAddrLen b"
    using assms by (simp_all add: addr_key_def addr_ok_def)
  have "address_eq host a b \<longleftrightarrow> getAddrLen a = getAddrLen b \<and> memcmp (addr_key host a) (addr_key host b) = 0"
    by (auto simp: address_eq_def addr_key_def)
  then show ?thesis using l memcmp_eq by metis
qed

section \<open>Text of an IPv6 address\<close>

text \<open>The notation with \<open>::\<close> for a run of zeros, read back as eight numbers.\<close>

definition expand6 :: "string \<Rightarrow> nat list" where
  "expand6 s =
    (let ps = split_at (CHR '':'') s in
     if [] \<notin> set ps then map (read_nat 16) ps
     else
       let a = takeWhile (\<lambda>p. p \<noteq> []) ps; b = rev (takeWhile (\<lambda>p. p \<noteq> []) (rev ps))
       in map (read_nat 16) a @ replicate (8 - length a - length b) 0 @ map (read_nat 16) b)"

abbreviation hex16 :: "u8 \<Rightarrow> u16 \<Rightarrow> string" where
  "hex16 host w \<equiv> hex (unat (byteswapOnLittleEndian host w))"

definition colons :: "u8 \<Rightarrow> u16 list \<Rightarrow> string" where
  "colons host ws = concat (map (\<lambda>w. CHR '':'' # hex16 host w) ws)"

lemma join_colons: "join (CHR '':'') (map (hex16 host) (w # ws)) = hex16 host w @ colons host ws"
  by (induction ws arbitrary: w) (simp_all add: colons_def)

lemma upt_step: "i < n \<Longrightarrow> [i..<n] = i # [Suc i..<n]"
  by (rule upt_conv_Cons)

lemma loop_used:
  "pre \<noteq> [] \<Longrightarrow> n = length pre + length ws \<Longrightarrow>
    insert6_loop host (pre @ ws) [length pre..<n] True = (colons host ws, True)"
proof (induction ws arbitrary: pre)
  case (Cons w ws)
  have "[length pre..<n] = length pre # [Suc (length pre)..<n]" using Cons.prems by (intro upt_step) simp
  then show ?case
    using Cons.prems Cons.IH [of "pre @ [w]"] by (simp add: colons_def nth_append del: upt_Suc)
qed (simp add: colons_def)

lemma loop_nonzero:
  "0 \<notin> set ws \<Longrightarrow> 0 \<notin> set pre \<Longrightarrow> n = length pre + length ws + length r \<Longrightarrow>
    insert6_loop host (pre @ ws @ r) [length pre..<n] False =
    (let (s, u) = insert6_loop host (pre @ ws @ r) [length pre + length ws..<n] False
     in ((if pre = [] then join (CHR '':'') (map (hex16 host) ws) else colons host ws) @ s, u))"
proof (induction ws arbitrary: pre)
  case (Cons w ws)
  have last: "pre \<noteq> [] \<Longrightarrow> pre ! (length pre - Suc 0) \<noteq> 0"
    using Cons.prems(2) by (metis One_nat_def last_conv_nth last_in_set)
  have "insert6_loop host (pre @ w # ws @ r) [Suc (length pre)..<n] False =
    (let (s, u) = insert6_loop host (pre @ w # ws @ r) [Suc (length pre + length ws)..<n] False
     in (colons host ws @ s, u))"
    using Cons.IH [of "pre @ [w]"] Cons.prems by simp
  moreover have "[length pre..<n] = length pre # [Suc (length pre)..<n]"
    using Cons.prems by (intro upt_step) simp
  ultimately show ?case
    using Cons.prems last join_colons [of host w ws]
    by (auto simp: nth_append colons_def Let_def simp del: upt_Suc split: prod.splits)
qed (simp add: colons_def split: prod.splits)

lemma loop_zeros:
  "\<forall>z \<in> set zs. z = 0 \<Longrightarrow> n = length pre + length zs + length r \<Longrightarrow>
    insert6_loop host (pre @ zs @ r) [length pre..<n] False =
    insert6_loop host (pre @ zs @ r) [length pre + length zs..<n] False"
proof (induction zs arbitrary: pre)
  case (Cons z zs)
  have "[length pre..<n] = length pre # [Suc (length pre)..<n]" using Cons.prems by (intro upt_step) simp
  then show ?case
    using Cons.prems Cons.IH [of "pre @ [z]"] by (simp add: nth_append del: upt_Suc)
qed simp

lemma loop_resume:
  assumes "w \<noteq> 0" "pre \<noteq> []" "last pre = 0" "n = length pre + Suc (length ws)"
  shows "insert6_loop host (pre @ w # ws) [length pre..<n] False =
    (''::'' @ join (CHR '':'') (map (hex16 host) (w # ws)), True)"
proof -
  have "pre ! (length pre - Suc 0) = 0"
    using assms(2,3) by (metis One_nat_def last_conv_nth)
  moreover have "[length pre..<n] = length pre # [Suc (length pre)..<n]" using assms by (intro upt_step) simp
  ultimately show ?thesis
    using assms(1,2,4) loop_used [of "pre @ [w]" n ws host] join_colons [of host w ws]
    by (simp add: nth_append del: upt_Suc)
qed

definition text6 :: "u8 \<Rightarrow> u16 list \<Rightarrow> string" where
  "text6 host addr =
    (let (s, used_zero) = insert6_loop host addr [0..<8] False
     in s @ (if \<not> used_zero \<and> addr ! 7 = 0 then ''::'' else ''''))"

text \<open>The first run of zeros.\<close>

lemma zero_run:
  fixes ws :: "u16 list"
  obtains "0 \<notin> set ws"
  | a zs b where "ws = a @ zs @ b" "0 \<notin> set a" "zs \<noteq> []" "\<forall>z \<in> set zs. z = 0" "b = [] \<or> hd b \<noteq> 0"
proof (cases "0 \<in> set ws")
  case True
  let ?a = "takeWhile (\<lambda>w. w \<noteq> 0) ws" and ?r = "dropWhile (\<lambda>w. w \<noteq> 0) ws"
  let ?zs = "takeWhile (\<lambda>w. w = 0) ?r" and ?b = "dropWhile (\<lambda>w. w = 0) ?r"
  have "ws = ?a @ ?zs @ ?b" by simp
  moreover have "0 \<notin> set ?a" "\<forall>z \<in> set ?zs. z = 0" by (auto dest: set_takeWhileD)
  moreover have "?r \<noteq> []" using True by auto
  then have "?zs \<noteq> []" using hd_dropWhile [of "\<lambda>w. w \<noteq> 0" ws] by (cases ?r) auto
  moreover have "?b = [] \<or> hd ?b \<noteq> 0" using hd_dropWhile [of "\<lambda>w. w = 0" ?r] by blast
  ultimately show ?thesis using that(2) by blast
qed (use that(1) in blast)

lemma text6_cases:
  assumes "length addr = 8"
  shows "0 \<notin> set addr \<Longrightarrow> text6 host addr = join (CHR '':'') (map (hex16 host) addr)"
    "addr = a @ zs @ b \<Longrightarrow> 0 \<notin> set a \<Longrightarrow> zs \<noteq> [] \<Longrightarrow> \<forall>z \<in> set zs. z = 0 \<Longrightarrow> b = [] \<or> hd b \<noteq> 0 \<Longrightarrow>
      text6 host addr = join (CHR '':'') (map (hex16 host) a) @ ''::'' @ join (CHR '':'') (map (hex16 host) b)"
proof -
  assume nz: "0 \<notin> set addr"
  then have "addr ! 7 \<noteq> 0" using nth_mem [of 7 addr] assms by fastforce
  then show "text6 host addr = join (CHR '':'') (map (hex16 host) addr)"
    using loop_nonzero [of addr "[]" 8 "[]" host] nz assms by (simp add: text6_def)
next
  assume s: "addr = a @ zs @ b" "0 \<notin> set a" "zs \<noteq> []" "\<forall>z \<in> set zs. z = 0" "b = [] \<or> hd b \<noteq> 0"
  have len: "length a + length zs + length b = 8" using assms s(1) by simp
  have l1: "insert6_loop host addr [0..<8] False =
      (let (t, u) = insert6_loop host addr [length a..<8] False in (join (CHR '':'') (map (hex16 host) a) @ t, u))"
    using loop_nonzero [of a "[]" 8 "zs @ b" host] s(1,2) len by (simp add: add.assoc)
  have l2: "insert6_loop host addr [length a..<8] False = insert6_loop host addr [length a + length zs..<8] False"
    using loop_zeros [OF s(4), of 8 a b host] s(1) len by (simp add: add.assoc)
  show "text6 host addr = join (CHR '':'') (map (hex16 host) a) @ ''::'' @ join (CHR '':'') (map (hex16 host) b)"
  proof (cases b)
    case Nil
    have "addr ! 7 = last addr" using assms last_conv_nth [of addr] by (cases addr) auto
    also have "\<dots> = 0" using s(1,3,4) Nil by simp
    finally show ?thesis using l1 l2 len Nil by (simp add: text6_def)
  next
    case (Cons w ws)
    then have "insert6_loop host addr [length a + length zs..<8] False =
        (''::'' @ join (CHR '':'') (map (hex16 host) b), True)"
      using loop_resume [of w "a @ zs" 8 ws host] s len by simp
    then show ?thesis using l1 l2 by (simp add: text6_def)
  qed
qed

lemma hex16_plain: "CHR '':'' \<notin> set (hex16 host w)"
  using show_nat_digits [of 16 "CHR '':''"] digit_plain by auto

lemma swap_zero: "byteswapOnLittleEndian host (0 :: u16) = 0"
  by (simp add: byteswapOnLittleEndian_def byteswap_def le_bytes_def byte_of_def upt_rec)

lemma expand_text6:
  assumes "length addr = 8"
  shows "expand6 (text6 host addr) = map (\<lambda>w. unat (byteswapOnLittleEndian host w)) addr"
proof (cases rule: zero_run [of addr])
  case 1
  have "addr \<noteq> []" using assms by auto
  then have "split_at (CHR '':'') (text6 host addr) = map (hex16 host) addr"
    unfolding text6_cases(1) [OF assms 1] by (intro split_at_join) (auto simp: hex16_plain)
  moreover have "[] \<notin> hex16 host ` set addr" using show_nat_nonempty by (metis (no_types) imageE)
  ultimately show ?thesis by (simp add: expand6_def comp_def)
next
  case (2 a zs b)
  let ?A = "if a = [] then [[]] else map (hex16 host) a" and ?B = "if b = [] then [[]] else map (hex16 host) b"
  have j: "split_at (CHR '':'') (join (CHR '':'') (map (hex16 host) c)) = (if c = [] then [[]] else map (hex16 host) c)" for c
    by (cases "c = []") (simp, simp, intro split_at_join, auto simp: hex16_plain)
  have "join (CHR '':'') (?A @ [[]] @ ?B) = text6 host addr"
    unfolding text6_cases(2) [OF assms 2] by (subst join_append, simp, simp, cases b) (auto simp: join_append)
  moreover have "split_at (CHR '':'') (join (CHR '':'') (?A @ [[]] @ ?B)) = ?A @ [[]] @ ?B"
    by (rule split_at_join) (auto simp: hex16_plain)
  ultimately obtain PS where ps: "split_at (CHR '':'') (text6 host addr) = PS" "PS = ?A @ [[]] @ ?B" by simp
  have tw: "takeWhile (\<lambda>p. p \<noteq> []) PS = map (hex16 host) a"
    "rev (takeWhile (\<lambda>p. p \<noteq> []) (rev PS)) = map (hex16 host) b"
    unfolding ps(2)
    by (auto simp: takeWhile_append rev_map show_nat_nonempty [symmetric])
  have "[] \<in> set PS" by (simp add: ps(2))
  then have "expand6 (text6 host addr) = map (read_nat 16) (map (hex16 host) a) @
      replicate (8 - length a - length b) 0 @ map (read_nat 16) (map (hex16 host) b)"
    by (simp add: expand6_def ps(1) tw)
  moreover have "8 - length a - length b = length zs" using assms 2(1) by simp
  moreover have "map (\<lambda>w. unat (byteswapOnLittleEndian host w)) zs = replicate (length zs) 0"
    using 2(4) by (induction zs) (auto simp: swap_zero)
  ultimately show ?thesis using 2(1) by (simp add: comp_def)
qed

section \<open>Text of an IPv4 address\<close>

lemma dec_plain: "c \<in> {CHR ''.'', CHR '':''} \<Longrightarrow> c \<notin> set (dec n)"
  using show_nat_digits [of 10 c n] is_digit_mono [of 10 c 16] digit_plain [of c] by auto

lemma octets:
  fixes a :: u32
  shows "((unat (drop_bit 24 a AND 0xff) * 256 + unat (drop_bit 16 a AND 0xff)) * 256 +
    unat (drop_bit 8 a AND 0xff)) * 256 + unat (a AND 0xff) = unat a"
proof -
  have b: "unat (w AND 0xff) = unat w mod 256" for w :: u32
  proof -
    have "(0xff :: u32) = mask 8" by (simp add: mask_eq_exp_minus_1)
    then have "w AND 0xff = take_bit 8 w" by (simp only: take_bit_eq_mask)
    then show ?thesis by (simp add: take_bit_eq_mod unat_mod)
  qed
  have d: "unat (drop_bit n a) = unat a div 2 ^ n" for n
    unfolding unat_drop_bit_eq by (rule drop_bit_eq_div)
  have "unat a < 2 ^ 32" by (rule unsigned_less [THEN less_le_trans]) simp
  then have "unat a div 256 div 256 div 256 < 256" by (simp add: div_mult2_eq [symmetric] less_mult_imp_div_less)
  moreover have "unat a div 2 ^ 16 = unat a div 256 div 256"
    "unat a div 2 ^ 24 = unat a div 256 div 256 div 256" "unat a div 2 ^ 8 = unat a div 256"
    by (simp_all add: div_mult2_eq [symmetric])
  ultimately show ?thesis
    unfolding b d by (simp only: mod_less div_mult_mod_eq)
qed

definition read4 :: "string \<Rightarrow> nat \<times> nat" where
  "read4 s = (case split_at (CHR '':'') s of
     [q, p] \<Rightarrow> (foldl (\<lambda>v t. v * 256 + read_nat 10 t) 0 (split_at (CHR ''.'') q), read_nat 10 p)
   | _ \<Rightarrow> (0, 0))"

lemma read_insert4:
  "read4 (insert4 host m) = (unat (ntoh32 host (s_addr m)), unat (byteswapOnLittleEndian host (sin_port m)))"
proof -
  let ?a = "ntoh32 host (s_addr m)"
  let ?os = "[dec (unat (drop_bit 24 ?a AND 0xff)), dec (unat (drop_bit 16 ?a AND 0xff)),
    dec (unat (drop_bit 8 ?a AND 0xff)), dec (unat (?a AND 0xff))]"
  let ?p = "dec (unat (byteswapOnLittleEndian host (sin_port m)))"
  have shown: "insert4 host m = join (CHR '':'') [join (CHR ''.'') ?os, ?p]"
    by (simp add: insert4_def Let_def)
  have "split_at (CHR '':'') (insert4 host m) = [join (CHR ''.'') ?os, ?p]"
    unfolding shown by (rule split_at_join) (auto dest: dec_plain [of "CHR '':''", THEN notE, rotated])
  moreover have "split_at (CHR ''.'') (join (CHR ''.'') ?os) = ?os"
    by (rule split_at_join) (auto dest: dec_plain [of "CHR ''.''", THEN notE, rotated])
  ultimately show ?thesis using octets [of ?a] by (simp add: read4_def)
qed

section \<open>Properties\<close>

text \<open>
  Subnet masks and broadcast addresses. For prefix lengths from 2 to 32, \<open>subnetMask\<close> is the mask
  with that many leading ones, its bits count to the prefix length, and \<open>broadcastAddress\<close> sets
  exactly the host bits. But \<open>networdAddress\<close> keeps the host bits instead of the network bits: no bit
  of its result lies under the subnet mask. For prefix length 0 the mask shifts by the full width,
  and an IPv6 prefix of 128 indexes the address outside of its 16 bytes.
\<close>

theorem network_masks:
  assumes "2 \<le> unat p" "unat p \<le> 32"
  shows "\<exists>b n s. broadcastAddress4 host m p = Inr (Some b) \<and> networdAddress4 host m p = Inr (Some n) \<and>
    subnetMask4 host p = Inr s \<and> ntoh32 host (s_addr s) = NOT (mask (32 - unat p)) \<and>
    CountBytes (s_addr s) = unat p \<and>
    ntoh32 host (s_addr b) = ntoh32 host (s_addr m) OR mask (32 - unat p) \<and>
    s_addr b AND s_addr s = s_addr m AND s_addr s \<and> s_addr n AND s_addr s = 0 \<and>
    broadcastAddress4 host m 0 = Inl (Undefined ''shift out of range'') \<and>
    (length (s6_addr m6) = 16 \<longrightarrow> broadcastAddress6 m6 128 = Inl Out_of_bounds)"
proof -
  have p: "\<not> p > 32" using assms by (simp add: word_less_nat_alt)
  let ?k = "ntoh32 host (mask (32 - unat p))"
  have "(s_addr m OR ?k) AND NOT ?k = s_addr m AND NOT ?k" "(s_addr m AND ?k) AND NOT ?k = 0"
    by (rule bit_eqI; auto simp: bit_simps)+
  then show ?thesis
    using CreateMask32_ok [OF assms] p count_subnet [OF assms(2), of host]
    by (simp add: broadcastAddress4_def networdAddress4_def subnetMask4_def CreateMask32_def [of 0]
        broadcastAddress6_def Let_def)
qed

theorem network_masks_witness:
  "\<exists>s. subnetMask4 SYLAR_LITTLE_ENDIAN 24 = Inr s \<and> CountBytes (s_addr s) = 24"
  using network_masks [of 24 SYLAR_LITTLE_ENDIAN "IPv4Address SYLAR_LITTLE_ENDIAN 0 0" IPv6Address] by auto

text \<open>
  Addresses are totally ordered, so they can be keys of the standard containers: \<open>operator<\<close> is
  irreflexive and transitive, and of two addresses exactly one is smaller unless \<open>operator==\<close> holds.
  (The length of an address is at most that of the object it lies in.)
\<close>

theorem address_order:
  assumes "addr_ok host a" "addr_ok host b" "addr_ok host c"
  shows "\<not> address_less host a a \<and>
    (address_less host a b \<and> address_less host b c \<longrightarrow> address_less host a c) \<and>
    (address_less host a b \<longrightarrow> \<not> address_less host b a \<and> \<not> address_eq host a b) \<and>
    (\<not> address_less host a b \<and> \<not> address_less host b a \<longleftrightarrow> address_eq host a b)"
proof -
  note less = address_less_lex [OF assms(1,1)] address_less_lex [OF assms(1,2)] address_less_lex [OF assms(2,3)]
    address_less_lex [OF assms(1,3)] address_less_lex [OF assms(2,1)]
  have eqv: "\<not> lex_less unat k l \<and> \<not> lex_less unat l k \<longleftrightarrow> k = l" for k l :: bytes
    using lex_eqv [of unat k l] by (simp add: lex.eqv_def inj_map_eq_map inj_unsigned)
  show ?thesis
    unfolding less address_eq_key [OF assms(1,2)]
    using lex.lt_irrefl [of unat] lex.lt_trans [of unat] lex.lt_asym [of unat] eqv by blast
qed

theorem address_order_witness:
  "\<not> address_less SYLAR_LITTLE_ENDIAN (IPv6 IPv6Address) (IPv6 IPv6Address) \<and>
    address_eq SYLAR_LITTLE_ENDIAN (IPv6 IPv6Address) (IPv6 IPv6Address)"
  using address_order [of SYLAR_LITTLE_ENDIAN "IPv6 IPv6Address" "IPv6 IPv6Address" "IPv6 IPv6Address"]
  by (auto simp add: addr_ok_def getAddrLen_def getAddr_def IPv6Address_def)

text \<open>
  C40: The text of an address determines it. The text of an IPv4 address reads back, as four decimal
  numbers and a port, to the same address and port; the text of an IPv6 address is the eight groups
  in brackets with the first run of zeros written \<open>::\<close>, and expanding that gives the groups back.
\<close>

theorem address_text_roundtrip:
  "read4 (insert4 host m) = (unat (ntoh32 host (s_addr m)), unat (byteswapOnLittleEndian host (sin_port m))) \<and>
   (\<exists>s. insert6 host m6 = ''['' @ s @ '']:'' @ dec (unat (byteswapOnLittleEndian host (sin6_port m6))) \<and>
     expand6 s = map (\<lambda>w. unat (byteswapOnLittleEndian host w)) (words6 host (s6_addr m6)))"
proof -
  have "length (words6 host (s6_addr m6)) = 8" by (simp add: words6_def)
  moreover have "insert6 host m6 = ''['' @ text6 host (words6 host (s6_addr m6)) @ '']:'' @
      dec (unat (byteswapOnLittleEndian host (sin6_port m6)))"
    by (simp add: insert6_def text6_def Let_def split: prod.splits)
  ultimately show ?thesis using expand_text6 read_insert4 by blast
qed

text \<open>
  What \<open>Lookup\<close> makes of a host: a name, a name and a port, or an IPv6 address in brackets with or
  without a port are taken apart as written. A bare IPv6 address (two or more colons, no brackets)
  is taken as the node, but everything from its first colon on is passed as the service as well, so
  the resolver is asked for a service that does not exist.
\<close>

theorem lookup_host_forms:
  assumes "name \<noteq> []" "hd name \<noteq> CHR ''[''" "CHR '':'' \<notin> set name" "CHR '':'' \<notin> set port"
    "v6 \<noteq> []" "CHR '']'' \<notin> set v6"
  shows "split_host name = (name, None) \<and> split_host (name @ '':'' @ port) = (name, Some port) \<and>
    split_host (''['' @ v6 @ '']'') = (v6, None) \<and> split_host (''['' @ v6 @ '']:'' @ rest) = (v6, Some rest) \<and>
    split_host (name @ '':'' @ port @ '':'' @ rest) = (name @ '':'' @ port @ '':'' @ rest, Some ('':'' @ port @ '':'' @ rest))"
proof -
  have plain: "split_brackets (name @ s) = ([], None)" for s
    using assms(1,2) by (cases name) (simp_all add: split_brackets_def)
  have "split_brackets name = ([], None)" using plain [of "[]"] by simp
  then have "split_host name = (name, None)"
    using assms(3) by (simp add: split_host_def memchr_None [THEN iffD2])
  moreover have "split_host (name @ '':'' @ port) = (name, Some port)"
    using assms(1,3,4) plain by (simp add: split_host_def memchr_append before_append memchr_None [THEN iffD2])
  moreover have "split_brackets (''['' @ v6 @ '']'') = (v6, None)"
    "split_brackets (''['' @ v6 @ '']:'' @ rest) = (v6, Some rest)"
    using memchr_append [OF assms(6), of "[]"] before_append [OF assms(6), of "[]"]
      memchr_append [OF assms(6), of "CHR '':'' # rest"] before_append [OF assms(6), of "CHR '':'' # rest"]
    by (simp_all add: split_brackets_def)
  then have "split_host (''['' @ v6 @ '']'') = (v6, None)" "split_host (''['' @ v6 @ '']:'' @ rest) = (v6, Some rest)"
    using assms(5) by (simp_all add: split_host_def)
  moreover have "memchr (CHR '':'') (port @ CHR '':'' # rest) = Some (CHR '':'' # rest)"
    using memchr_append [OF assms(4)] .
  then have "split_host (name @ '':'' @ port @ '':'' @ rest) =
      (name @ '':'' @ port @ '':'' @ rest, Some ('':'' @ port @ '':'' @ rest))"
    using assms(3) plain memchr_append [OF assms(3), of "port @ CHR '':'' # rest"]
    by (simp add: split_host_def)
  ultimately show ?thesis by blast
qed

theorem lookup_host_forms_witness:
  "split_host ''www.sylar.top:80'' = (''www.sylar.top'', Some ''80'') \<and>
   split_host ''fe80::1'' = (''fe80::1'', Some ''::1'')"
  using lookup_host_forms [of "''www.sylar.top''" "''80''" "''::1''" "[]"]
    lookup_host_forms [of "''fe80''" "[]" "''::1''" "''1''"] by simp

end
