(* ===== verification/Sylar_Socket.thy ===== *)
theory Sylar_Socket
  imports Sylar_Hook Sylar_Address
begin

text \<open>
  The socket class (\<^verbatim>\<open>sylar/socket.cpp\<close>) on top of the hooked system calls, the descriptor table and
  the I/O manager. An operation that goes through hooked calls has a result of type \<open>'a run\<close>: \<open>None\<close>
  when it never returns. The answers of the kernel are arguments: \<open>sys\<close> holds those of the calls
  that are not hooked or whose answer depends on their arguments alone.
\<close>

section \<open>Runs\<close>

type_synonym 'a run = "'a res option"

definition bindR :: "'a run \<Rightarrow> ('a \<Rightarrow> 'b run) \<Rightarrow> 'b run" where
  "bindR r f = (case r of None \<Rightarrow> None | Some (Inl e) \<Rightarrow> Some (Inl e) | Some (Inr x) \<Rightarrow> f x)"

lemma bindR_simps [simp]:
  "bindR None f = None" "bindR (Some (Inl e)) f = Some (Inl e)" "bindR (Some (Inr x)) f = f x"
  by (simp_all add: bindR_def)

lemma bindR_eq_Inr [simp]: "bindR r f = Some (Inr y) \<longleftrightarrow> (\<exists>x. r = Some (Inr x) \<and> f x = Some (Inr y))"
  by (simp add: bindR_def split: option.splits sum.splits)

section \<open>State\<close>

abbreviation SOCK_STREAM :: int where "SOCK_STREAM \<equiv> 1"
abbreviation SOCK_DGRAM :: int where "SOCK_DGRAM \<equiv> 2"
abbreviation SO_REUSEADDR :: int where "SO_REUSEADDR \<equiv> 2"
abbreviation SO_ERROR :: int where "SO_ERROR \<equiv> 4"
abbreviation IPPROTO_TCP :: int where "IPPROTO_TCP \<equiv> 6"
abbreviation TCP_NODELAY :: int where "TCP_NODELAY \<equiv> 1"

record socket =
  m_sock :: int
  m_family :: int
  m_type :: int
  m_protocol :: int
  m_isConnect :: bool
  m_localAddress :: "address option"
  m_remoteAddress :: "address option"

text \<open>
  \<open>sys_setsockopt\<close> gives the return value by level and option; \<open>sys_name\<close> and \<open>sys_peer\<close> fill an
  address object for a descriptor as \<^verbatim>\<open>getsockname\<close> and \<^verbatim>\<open>getpeername\<close> do and give its length.
\<close>

record sys =
  sys_setsockopt :: "int \<Rightarrow> int \<Rightarrow> int"
  sys_name :: "int \<Rightarrow> address \<Rightarrow> (address \<times> u32) option"
  sys_peer :: "int \<Rightarrow> address \<Rightarrow> (address \<times> u32) option"

definition Socket :: "int \<Rightarrow> int \<Rightarrow> int \<Rightarrow> socket" where
  "Socket family type protocol =
    \<lparr>m_sock = -1, m_family = family, m_type = type, m_protocol = protocol, m_isConnect = False,
     m_localAddress = None, m_remoteAddress = None\<rparr>"

definition CreateTCP :: "address \<Rightarrow> socket" where
  "CreateTCP address = Socket (uint (getFamily address)) SOCK_STREAM 0"

definition CreateUDP :: "address \<Rightarrow> socket" where
  "CreateUDP address = Socket (uint (getFamily address)) SOCK_DGRAM 0"

definition CreateTCPSocket :: socket where "CreateTCPSocket = Socket (uint AF_INET) SOCK_STREAM 0"
definition CreateUDPSocket :: socket where "CreateUDPSocket = Socket (uint AF_INET) SOCK_DGRAM 0"
definition CreateTCPSocket6 :: socket where "CreateTCPSocket6 = Socket (uint AF_INET6) SOCK_STREAM 0"
definition CreateUDPSocket6 :: socket where "CreateUDPSocket6 = Socket (uint AF_INET6) SOCK_DGRAM 0"
definition CreateUnixTCPSocket :: socket where "CreateUnixTCPSocket = Socket (uint AF_UNIX) SOCK_STREAM 0"
definition CreateUnixUDPSocket :: socket where "CreateUnixUDPSocket = Socket (uint AF_UNIX) SOCK_DGRAM 0"

definition isValid :: "socket \<Rightarrow> bool" where "isValid s \<longleftrightarrow> m_sock s \<noteq> -1"
definition isConnected :: "socket \<Rightarrow> bool" where "isConnected s = m_isConnect s"

section \<open>Options\<close>

definition find_ctx :: "hook \<Rightarrow> int \<Rightarrow> fdctx option res" where
  "find_ctx h fd = bindE (get (hk_fds h) fd False None (hk_flags h)) (\<lambda>(c, _, _). Inr c)"

definition getSendTimeout :: "hook \<Rightarrow> socket \<Rightarrow> int res" where
  "getSendTimeout h s =
    bindE (find_ctx h (m_sock s)) (\<lambda>c.
      Inr (case c of Some ctx \<Rightarrow> sint (getTimeout ctx SO_SNDTIMEO) | None \<Rightarrow> -1))"

definition getRecvTimeout :: "hook \<Rightarrow> socket \<Rightarrow> int res" where
  "getRecvTimeout h s =
    bindE (find_ctx h (m_sock s)) (\<lambda>c.
      Inr (case c of Some ctx \<Rightarrow> sint (getTimeout ctx SO_RCVTIMEO) | None \<Rightarrow> -1))"

text \<open>The value of an option matters to the hook only as a \<^verbatim>\<open>timeval\<close>; \<open>r\<close> is the answer of the kernel.\<close>

definition setOption :: "hook \<Rightarrow> socket \<Rightarrow> int \<Rightarrow> int \<Rightarrow> u64 \<Rightarrow> u64 \<Rightarrow> int \<Rightarrow> (bool \<times> hook) res" where
  "setOption h s level opt tv_sec tv_usec r =
    bindE (setsockopt_hook h (m_sock s) level opt tv_sec tv_usec r) (\<lambda>(rt, h'). Inr (rt = 0, h'))"

definition getOption :: "hook \<Rightarrow> int \<Rightarrow> bool \<times> hook" where
  "getOption h r = (let (rt, h') = getsockopt_hook h r in (rt = 0, h'))"

text \<open>Seconds and microseconds go through an \<^verbatim>\<open>int\<close> on their way into the \<^verbatim>\<open>timeval\<close>.\<close>

definition through_int :: "u64 \<Rightarrow> u64" where
  "through_int v = scast (ucast v :: u32)"

definition setSendTimeout :: "hook \<Rightarrow> socket \<Rightarrow> u64 \<Rightarrow> int \<Rightarrow> hook res" where
  "setSendTimeout h s v r =
    bindE (setOption h s SOL_SOCKET SO_SNDTIMEO (through_int (v div 1000)) (through_int (v mod 1000 * 1000)) r)
      (\<lambda>(_, h'). Inr h')"

definition setRecvTimeout :: "hook \<Rightarrow> socket \<Rightarrow> u64 \<Rightarrow> int \<Rightarrow> hook res" where
  "setRecvTimeout h s v r =
    bindE (setOption h s SOL_SOCKET SO_RCVTIMEO (through_int (v div 1000)) (through_int (v mod 1000 * 1000)) r)
      (\<lambda>(_, h'). Inr h')"

text \<open>The pending error: the value of the option, or \<^verbatim>\<open>errno\<close> if it cannot be read.\<close>

definition getError :: "hook \<Rightarrow> int \<Rightarrow> int \<Rightarrow> int" where
  "getError h r error = (let (ok, h') = getOption h r in if ok then error else hk_errno h')"

definition initSock :: "sys \<Rightarrow> hook \<Rightarrow> socket \<Rightarrow> hook res" where
  "initSock k h s =
    bindE (setOption h s SOL_SOCKET SO_REUSEADDR 1 0 (sys_setsockopt k SOL_SOCKET SO_REUSEADDR)) (\<lambda>(_, h1).
      if m_type s = SOCK_STREAM then
        bindE (setOption h1 s IPPROTO_TCP TCP_NODELAY 1 0 (sys_setsockopt k IPPROTO_TCP TCP_NODELAY)) (\<lambda>(_, h2). Inr h2)
      else Inr h1)"

text \<open>\<open>fd\<close> and \<open>e\<close> are the result of \<^verbatim>\<open>socket_f\<close>, \<open>st\<close> that of \<^verbatim>\<open>fstat\<close>.\<close>

definition newSock :: "sys \<Rightarrow> hook \<Rightarrow> socket \<Rightarrow> int \<Rightarrow> int \<Rightarrow> bool option \<Rightarrow> (hook \<times> socket) res" where
  "newSock k h s fd e st =
    bindE (socket_hook h fd e st) (\<lambda>(sock, h1).
      let s1 = s\<lparr>m_sock := sock\<rparr> in
      if sock \<noteq> -1 then bindE (initSock k h1 s1) (\<lambda>h2. Inr (h2, s1)) else Inr (h1, s1))"

section \<open>Addresses\<close>

definition UnknowAddress :: "int \<Rightarrow> address" where
  "UnknowAddress family = Unknow (word_of_int family) (replicate 14 0)"

text \<open>A fresh object of the socket's family.\<close>

definition family_object :: "int \<Rightarrow> address" where
  "family_object family =
    (if family = uint AF_INET then IPv4 (IPv4Address SYLAR_LITTLE_ENDIAN 0 0)
     else if family = uint AF_INET6 then IPv6 IPv6Address
     else if family = uint AF_UNIX then UnixAddress
     else UnknowAddress family)"

definition filled :: "int \<Rightarrow> address \<times> u32 \<Rightarrow> address" where
  "filled family al = (if family = uint AF_UNIX then setAddrlen (fst al) (snd al) else fst al)"

definition getRemoteAddress :: "sys \<Rightarrow> socket \<Rightarrow> address \<times> socket" where
  "getRemoteAddress k s =
    (case m_remoteAddress s of
       Some a \<Rightarrow> (a, s)
     | None \<Rightarrow>
        (case sys_peer k (m_sock s) (family_object (m_family s)) of
           None \<Rightarrow> (UnknowAddress (m_family s), s)
         | Some al \<Rightarrow> let r = filled (m_family s) al in (r, s\<lparr>m_remoteAddress := Some r\<rparr>)))"

definition getLocalAddress :: "sys \<Rightarrow> socket \<Rightarrow> address \<times> socket" where
  "getLocalAddress k s =
    (case m_localAddress s of
       Some a \<Rightarrow> (a, s)
     | None \<Rightarrow>
        (case sys_name k (m_sock s) (family_object (m_family s)) of
           None \<Rightarrow> (UnknowAddress (m_family s), s)
         | Some al \<Rightarrow> let r = filled (m_family s) al in (r, s\<lparr>m_localAddress := Some r\<rparr>)))"

section \<open>Life cycle\<close>

text \<open>\<open>rt\<close> is the answer of \<^verbatim>\<open>epoll_ctl\<close>, \<open>r\<close> that of \<^verbatim>\<open>close_f\<close>.\<close>

definition Socket_close :: "hook \<Rightarrow> socket \<Rightarrow> int \<Rightarrow> int \<Rightarrow> (bool \<times> hook \<times> socket) run" where
  "Socket_close h s rt r =
    (if \<not> m_isConnect s \<and> m_sock s = -1 then Some (Inr (False, h, s))
     else
       let s1 = s\<lparr>m_isConnect := False\<rparr> in
       if m_sock s1 \<noteq> -1 then
         bindR (close_hook h (m_sock s1) rt r) (\<lambda>(_, h1). Some (Inr (False, h1, s1\<lparr>m_sock := -1\<rparr>)))
       else Some (Inr (False, h, s1)))"

definition Socket_init :: "sys \<Rightarrow> hook \<Rightarrow> socket \<Rightarrow> int \<Rightarrow> (bool \<times> hook \<times> socket) res" where
  "Socket_init k h s sock =
    bindE (find_ctx h sock) (\<lambda>c.
      case c of
        None \<Rightarrow> Inr (False, h, s)
      | Some ctx \<Rightarrow>
          if m_isSocket ctx \<and> \<not> m_isClsed ctx then
            let s1 = s\<lparr>m_sock := sock, m_isConnect := True\<rparr> in
            bindE (initSock k h s1) (\<lambda>h1.
              let s2 = snd (getLocalAddress k s1); s3 = snd (getRemoteAddress k s2) in Inr (True, h1, s3))
          else Inr (False, h, s))"

definition Socket_accept ::
  "sys \<Rightarrow> hook \<Rightarrow> socket \<Rightarrow> nat \<Rightarrow> nat \<Rightarrow> io_answer list \<Rightarrow> bool option \<Rightarrow> (socket option \<times> hook) run"
where
  "Socket_accept k h s w cur as st =
    (let sock = Socket (m_family s) (m_type s) (m_protocol s) in
     bindR (accept_hook h (m_sock s) w cur as st) (\<lambda>(newsock, h1).
       if newsock = -1 then Some (Inr (None, h1))
       else Some (bindE (Socket_init k h1 sock newsock) (\<lambda>(ok, h2, sock').
         Inr (if ok then Some sock' else None, h2)))))"

text \<open>A valid descriptor for \<open>bind\<close> and \<open>connect\<close>; \<open>so\<close> holds the answers for \<open>newSock\<close>.\<close>

definition ensure_sock ::
  "sys \<Rightarrow> hook \<Rightarrow> socket \<Rightarrow> int \<times> int \<times> bool option \<Rightarrow> (hook \<times> socket) res"
where
  "ensure_sock k h s so =
    (if isValid s then Inr (h, s) else (case so of (fd, e, st) \<Rightarrow> newSock k h s fd e st))"

definition Socket_bind ::
  "sys \<Rightarrow> hook \<Rightarrow> socket \<Rightarrow> address \<Rightarrow> int \<times> int \<times> bool option \<Rightarrow> int \<Rightarrow> (bool \<times> hook \<times> socket) res"
where
  "Socket_bind k h s addr so r =
    bindE (ensure_sock k h s so) (\<lambda>(h1, s1).
      if \<not> isValid s1 then Inr (False, h1, s1)
      else if uint (getFamily addr) \<noteq> m_family s1 then Inr (False, h1, s1)
      else if r \<noteq> 0 then Inr (False, h1, s1)
      else Inr (True, h1, snd (getLocalAddress k s1)))"

text \<open>The answers a \<open>connect\<close> gets: see \<open>connect_with_timeout\<close>; the last two are for \<open>close\<close>.\<close>

record connect_answer =
  ca_w :: nat
  ca_cur :: nat
  ca_n :: int
  ca_e :: int
  ca_now :: u64
  ca_timer :: nat
  ca_rt :: int
  ca_resumed :: hook
  ca_gs :: int
  ca_error :: int
  ca_close_rt :: int
  ca_close :: int

definition call_connect :: "hook \<Rightarrow> int \<Rightarrow> u64 \<Rightarrow> connect_answer \<Rightarrow> (int \<times> hook) res" where
  "call_connect h fd timeout_ms ca =
    (if timeout_ms = -1 then
       connect_hook h fd (ca_w ca) (ca_cur ca) (ca_n ca) (ca_e ca) (ca_now ca) (ca_timer ca) (ca_rt ca)
         (ca_resumed ca) (ca_gs ca) (ca_error ca)
     else
       connect_with_timeout h fd timeout_ms (ca_w ca) (ca_cur ca) (ca_n ca) (ca_e ca) (ca_now ca) (ca_timer ca)
         (ca_rt ca) (ca_resumed ca) (ca_gs ca) (ca_error ca))"

definition Socket_connect ::
  "sys \<Rightarrow> hook \<Rightarrow> socket \<Rightarrow> address \<Rightarrow> u64 \<Rightarrow> int \<times> int \<times> bool option \<Rightarrow> connect_answer \<Rightarrow>
    (bool \<times> hook \<times> socket) run"
where
  "Socket_connect k h s addr timeout_ms so ca =
    (case ensure_sock k h s so of
       Inl er \<Rightarrow> Some (Inl er)
     | Inr (h1, s1) \<Rightarrow>
        if \<not> isValid s1 then Some (Inr (False, h1, s1))
        else if uint (getFamily addr) \<noteq> m_family s1 then Some (Inr (False, h1, s1))
        else
          (case call_connect h1 (m_sock s1) timeout_ms ca of
             Inl er \<Rightarrow> Some (Inl er)
           | Inr (r, h2) \<Rightarrow>
              if r \<noteq> 0 then
                bindR (Socket_close h2 s1 (ca_close_rt ca) (ca_close ca)) (\<lambda>(_, h3, s2). Some (Inr (False, h3, s2)))
              else
                let s2 = s1\<lparr>m_isConnect := True\<rparr>;
                    s3 = snd (getRemoteAddress k s2);
                    s4 = snd (getLocalAddress k s3)
                in Some (Inr (True, h2, s4))))"

definition Socket_reconnect ::
  "sys \<Rightarrow> hook \<Rightarrow> socket \<Rightarrow> u64 \<Rightarrow> int \<times> int \<times> bool option \<Rightarrow> connect_answer \<Rightarrow> (bool \<times> hook \<times> socket) run"
where
  "Socket_reconnect k h s timeout_ms so ca =
    (case m_remoteAddress s of
       None \<Rightarrow> Some (Inr (False, h, s))
     | Some a \<Rightarrow> Socket_connect k h (s\<lparr>m_localAddress := None\<rparr>) a timeout_ms so ca)"

definition Socket_listen :: "socket \<Rightarrow> int \<Rightarrow> bool" where
  "Socket_listen s r \<longleftrightarrow> isValid s \<and> r = 0"

section \<open>Input and output\<close>

definition Socket_send :: "hook \<Rightarrow> socket \<Rightarrow> nat \<Rightarrow> nat \<Rightarrow> io_answer list \<Rightarrow> (int \<times> hook) run" where
  "Socket_send h s w cur as =
    (if isConnected s then send_hook h (m_sock s) w cur as else Some (Inr (-1, h)))"

definition Socket_send_iov :: "hook \<Rightarrow> socket \<Rightarrow> nat \<Rightarrow> nat \<Rightarrow> io_answer list \<Rightarrow> (int \<times> hook) run" where
  "Socket_send_iov h s w cur as =
    (if isConnected s then sendmsg_hook h (m_sock s) w cur as else Some (Inr (-1, h)))"

definition sendTo :: "hook \<Rightarrow> socket \<Rightarrow> nat \<Rightarrow> nat \<Rightarrow> io_answer list \<Rightarrow> (int \<times> hook) run" where
  "sendTo h s w cur as =
    (if isConnected s then sendto_hook h (m_sock s) w cur as else Some (Inr (-1, h)))"

definition sendTo_iov :: "hook \<Rightarrow> socket \<Rightarrow> nat \<Rightarrow> nat \<Rightarrow> io_answer list \<Rightarrow> (int \<times> hook) run" where
  "sendTo_iov h s w cur as =
    (if isConnected s then sendmsg_hook h (m_sock s) w cur as else Some (Inr (-1, h)))"

definition Socket_recv :: "hook \<Rightarrow> socket \<Rightarrow> nat \<Rightarrow> nat \<Rightarrow> io_answer list \<Rightarrow> (int \<times> hook) run" where
  "Socket_recv h s w cur as =
    (if isConnected s then recv_hook h (m_sock s) w cur as else Some (Inr (-1, h)))"

definition Socket_recv_iov :: "hook \<Rightarrow> socket \<Rightarrow> nat \<Rightarrow> nat \<Rightarrow> io_answer list \<Rightarrow> (int \<times> hook) run" where
  "Socket_recv_iov h s w cur as =
    (if isConnected s then recvmsg_hook h (m_sock s) w cur as else Some (Inr (-1, h)))"

definition recvFrom :: "hook \<Rightarrow> socket \<Rightarrow> nat \<Rightarrow> nat \<Rightarrow> io_answer list \<Rightarrow> (int \<times> hook) run" where
  "recvFrom h s w cur as =
    (if isConnected s then recvfrom_hook h (m_sock s) w cur as else Some (Inr (-1, h)))"

definition recvFrom_iov :: "hook \<Rightarrow> socket \<Rightarrow> nat \<Rightarrow> nat \<Rightarrow> io_answer list \<Rightarrow> (int \<times> hook) run" where
  "recvFrom_iov h s w cur as =
    (if isConnected s then recvmsg_hook h (m_sock s) w cur as else Some (Inr (-1, h)))"

section \<open>Cancellation and text\<close>

definition cancelRead :: "hook \<Rightarrow> socket \<Rightarrow> int \<Rightarrow> (bool \<times> hook) res" where
  "cancelRead h s rt = with_iom h (\<lambda>io. cancelEvent io (m_sock s) READ rt)"

definition cancelWrite :: "hook \<Rightarrow> socket \<Rightarrow> int \<Rightarrow> (bool \<times> hook) res" where
  "cancelWrite h s rt = with_iom h (\<lambda>io. cancelEvent io (m_sock s) WRITE rt)"

definition cancelAccept :: "hook \<Rightarrow> socket \<Rightarrow> int \<Rightarrow> (bool \<times> hook) res" where
  "cancelAccept h s rt = with_iom h (\<lambda>io. cancelEvent io (m_sock s) READ rt)"

definition Socket_cancelAll :: "hook \<Rightarrow> socket \<Rightarrow> int \<Rightarrow> (bool \<times> hook) res" where
  "Socket_cancelAll h s rt = with_iom h (\<lambda>io. cancelAll io (m_sock s) rt)"

definition Socket_dump :: "u8 \<Rightarrow> socket \<Rightarrow> string" where
  "Socket_dump host s =
    ''[Socket sock ='' @ dec_int (m_sock s) @ ''is_connected='' @ dec (of_bool (m_isConnect s)) @
    '' family='' @ dec_int (m_family s) @ '' type='' @ dec_int (m_type s) @ '' protocol='' @ dec_int (m_protocol s) @
    (case m_localAddress s of Some a \<Rightarrow> '' local_address ='' @ address_toString host a | None \<Rightarrow> '''') @
    (case m_remoteAddress s of Some a \<Rightarrow> '' remote_address ='' @ address_toString host a | None \<Rightarrow> '''') @ '']''"

section \<open>Well-formed sockets\<close>

definition family_of :: "socket \<Rightarrow> u16" where
  "family_of s = word_of_int (m_family s)"

definition sock_ok :: "socket \<Rightarrow> bool" where
  "sock_ok s \<longleftrightarrow> (m_isConnect s \<longrightarrow> m_sock s \<noteq> -1) \<and>
    (\<forall>a. m_localAddress s = Some a \<longrightarrow> getFamily a = family_of s) \<and>
    (\<forall>a. m_remoteAddress s = Some a \<longrightarrow> getFamily a = family_of s)"

text \<open>The kernel reports addresses of the family it was asked for.\<close>

definition sys_ok :: "sys \<Rightarrow> bool" where
  "sys_ok k \<longleftrightarrow>
    (\<forall>fd a b l. sys_name k fd a = Some (b, l) \<or> sys_peer k fd a = Some (b, l) \<longrightarrow> getFamily b = getFamily a)"

definition same_kind :: "socket \<Rightarrow> socket \<Rightarrow> bool" where
  "same_kind s s' \<longleftrightarrow> m_family s' = m_family s \<and> m_type s' = m_type s \<and> m_protocol s' = m_protocol s"

lemma same_kind_refl [simp]: "same_kind s s"
  by (simp add: same_kind_def)

lemma same_kind_family: "same_kind s s' \<Longrightarrow> family_of s' = family_of s"
  by (simp add: same_kind_def family_of_def)

lemma sock_ok_upd [simp]:
  "same_kind s (s'\<lparr>m_sock := x\<rparr>) = same_kind s s'" "same_kind s (s'\<lparr>m_isConnect := b\<rparr>) = same_kind s s'"
  "same_kind s (s'\<lparr>m_localAddress := l\<rparr>) = same_kind s s'" "same_kind s (s'\<lparr>m_remoteAddress := l\<rparr>) = same_kind s s'"
  "family_of (s\<lparr>m_sock := x\<rparr>) = family_of s" "family_of (s\<lparr>m_isConnect := b\<rparr>) = family_of s"
  "family_of (s\<lparr>m_localAddress := l\<rparr>) = family_of s" "family_of (s\<lparr>m_remoteAddress := l\<rparr>) = family_of s"
  by (simp_all add: same_kind_def family_of_def)

lemma family_object_family: "getFamily (family_object f) = word_of_int f"
  by (simp add: family_object_def getFamily_def UnknowAddress_def IPv4Address_def IPv6Address_def UnixAddress_def)

lemma filled_family: "getFamily (filled f (b, l)) = getFamily b"
  by (auto simp: filled_def setAddrlen_def getFamily_def split: address.splits)

lemma getLocalAddress_ok:
  assumes "sys_ok k" "sock_ok s"
  shows "sock_ok (snd (getLocalAddress k s)) \<and> same_kind s (snd (getLocalAddress k s)) \<and>
    m_isConnect (snd (getLocalAddress k s)) = m_isConnect s \<and> m_sock (snd (getLocalAddress k s)) = m_sock s \<and>
    m_remoteAddress (snd (getLocalAddress k s)) = m_remoteAddress s"
  using assms by (auto simp: getLocalAddress_def sock_ok_def sys_ok_def family_of_def filled_family
      family_object_family Let_def split: option.splits)

lemma getRemoteAddress_ok:
  assumes "sys_ok k" "sock_ok s"
  shows "sock_ok (snd (getRemoteAddress k s)) \<and> same_kind s (snd (getRemoteAddress k s)) \<and>
    m_isConnect (snd (getRemoteAddress k s)) = m_isConnect s \<and> m_sock (snd (getRemoteAddress k s)) = m_sock s \<and>
    (\<forall>a. m_remoteAddress s = Some a \<longrightarrow> m_remoteAddress (snd (getRemoteAddress k s)) = Some a)"
  using assms by (auto simp: getRemoteAddress_def sock_ok_def sys_ok_def family_of_def filled_family
      family_object_family Let_def split: option.splits)

lemma Socket_ok: "sock_ok (Socket f t p)"
  by (simp add: Socket_def sock_ok_def)

lemma ensure_sock_ok:
  assumes "ensure_sock k h s so = Inr (h', s')" "sock_ok s"
  shows "sock_ok s' \<and> same_kind s s' \<and> m_isConnect s' = m_isConnect s \<and> m_remoteAddress s' = m_remoteAddress s \<and>
    (isValid s \<longrightarrow> s' = s)"
  using assms by (auto simp: ensure_sock_def newSock_def sock_ok_def isValid_def Let_def split: if_splits prod.splits)

lemma Socket_close_ok:
  assumes "Socket_close h s rt r = Some (Inr (b, h', s'))" "sock_ok s"
  shows "\<not> b \<and> sock_ok s' \<and> same_kind s s' \<and> \<not> isConnected s' \<and> \<not> isValid s'"
  using assms by (auto simp: Socket_close_def sock_ok_def isConnected_def isValid_def Let_def split: if_splits)

lemma close_invalid:
  "Socket_close h s rt r = Some (Inr (b, h', s')) \<Longrightarrow> \<not> isValid s' \<and> \<not> isConnected s'"
  by (auto simp: Socket_close_def isValid_def isConnected_def Let_def split: if_splits)

lemma find_ctx_minus: "find_ctx h (-1) = Inr None"
  by (simp add: find_ctx_def get_def get_shared_def)

lemma Socket_init_ok:
  assumes "Socket_init k h s sock = Inr (b, h', s')" "sock_ok s" "sys_ok k"
  shows "sock_ok s' \<and> same_kind s s' \<and> (b \<longrightarrow> isConnected s' \<and> m_sock s' = sock)"
proof -
  have "sock \<noteq> -1" if "find_ctx h sock = Inr (Some c)" for c using that find_ctx_minus by auto
  then have "sock_ok (s\<lparr>m_sock := sock, m_isConnect := True\<rparr>)" if "find_ctx h sock = Inr (Some c)" for c
    using that assms(2) by (simp add: sock_ok_def)
  note ok = this
  show ?thesis
  proof (cases b)
    case True
    let ?s1 = "s\<lparr>m_sock := sock, m_isConnect := True\<rparr>"
    obtain c where c: "find_ctx h sock = Inr (Some c)" and
      s': "s' = snd (getRemoteAddress k (snd (getLocalAddress k ?s1)))"
      using assms(1) True by (auto simp: Socket_init_def Let_def split: option.splits if_splits)
    note l = getLocalAddress_ok [OF assms(3) ok [OF c]]
    note r = getRemoteAddress_ok [OF assms(3) l [THEN conjunct1]]
    show ?thesis using l r s' by (simp add: same_kind_def isConnected_def)
  next
    case False
    then have "s' = s" using assms(1) by (auto simp: Socket_init_def Let_def split: option.splits if_splits)
    then show ?thesis using assms(2) False by simp
  qed
qed

lemma Socket_bind_ok:
  assumes "Socket_bind k h s addr so r = Inr (b, h', s')" "sock_ok s" "sys_ok k"
  shows "sock_ok s' \<and> same_kind s s' \<and> isConnected s' = isConnected s \<and> (b \<longrightarrow> isValid s')"
proof -
  obtain h1 s1 where e: "ensure_sock k h s so = Inr (h1, s1)"
    using assms(1) by (auto simp: Socket_bind_def)
  note s1 = ensure_sock_ok [OF e assms(2)]
  then have "sock_ok s1" by simp
  note l = getLocalAddress_ok [OF assms(3) this]
  show ?thesis
    using assms(1) e s1 l by (auto simp: Socket_bind_def isConnected_def isValid_def same_kind_def split: if_splits)
qed

lemma Socket_connect_ok:
  assumes "Socket_connect k h s addr t so ca = Some (Inr (b, h', s'))" "sock_ok s" "sys_ok k"
  shows "sock_ok s' \<and> same_kind s s' \<and>
    (if b then isConnected s' \<and> isValid s' \<and> uint (getFamily addr) = m_family s \<and>
       (m_remoteAddress s \<noteq> None \<longrightarrow> m_remoteAddress s' = m_remoteAddress s)
     else isValid s' \<longrightarrow> uint (getFamily addr) \<noteq> m_family s)"
proof -
  obtain h1 s1 where e: "ensure_sock k h s so = Inr (h1, s1)"
    using assms(1) by (auto simp: Socket_connect_def split: sum.splits)
  note s1 = ensure_sock_ok [OF e assms(2)]
  show ?thesis
  proof (cases "\<not> isValid s1 \<or> uint (getFamily addr) \<noteq> m_family s1")
    case True
    then show ?thesis using assms(1) e s1 by (auto simp: Socket_connect_def same_kind_def split: if_splits)
  next
    case False
    then obtain r h2 where c: "call_connect h1 (m_sock s1) t ca = Inr (r, h2)"
      using assms(1) e by (auto simp: Socket_connect_def split: sum.splits)
    show ?thesis
    proof (cases "r = 0")
      case True
      have "sock_ok (s1\<lparr>m_isConnect := True\<rparr>)" using s1 False by (simp add: sock_ok_def isValid_def)
      note r = getRemoteAddress_ok [OF assms(3) this]
      note l = getLocalAddress_ok [OF assms(3) r [THEN conjunct1]]
      show ?thesis
        using assms(1) e c True False r l s1
        by (auto simp: Socket_connect_def Let_def isConnected_def isValid_def same_kind_def)
    next
      case nz: False
      then obtain x where x: "Socket_close h2 s1 (ca_close_rt ca) (ca_close ca) = Some (Inr (x, h', s'))" "\<not> b"
        using assms(1) e c False by (auto simp: Socket_connect_def)
      then show ?thesis using Socket_close_ok [OF x(1)] s1 by (auto simp: same_kind_def)
    qed
  qed
qed

inductive sock_step :: "sys \<Rightarrow> hook \<times> socket \<Rightarrow> hook \<times> socket \<Rightarrow> bool" for k where
  step_bind: "Socket_bind k h s addr so r = Inr (b, h', s') \<Longrightarrow> sock_step k (h, s) (h', s')"
| step_connect: "Socket_connect k h s addr t so ca = Some (Inr (b, h', s')) \<Longrightarrow> sock_step k (h, s) (h', s')"
| step_reconnect: "Socket_reconnect k h s t so ca = Some (Inr (b, h', s')) \<Longrightarrow> sock_step k (h, s) (h', s')"
| step_close: "Socket_close h s rt r = Some (Inr (b, h', s')) \<Longrightarrow> sock_step k (h, s) (h', s')"
| step_init: "Socket_init k h s sock = Inr (b, h', s') \<Longrightarrow> sock_step k (h, s) (h', s')"
| step_accept: "Socket_accept k h s w cur as st = Some (Inr (Some s', h')) \<Longrightarrow> sock_step k (h, s) (h', s')"
| step_local: "getLocalAddress k s = (a, s') \<Longrightarrow> sock_step k (h, s) (h, s')"
| step_remote: "getRemoteAddress k s = (a, s') \<Longrightarrow> sock_step k (h, s) (h, s')"
| step_other: "sock_step k (h, s) (h', s)"

lemma sock_step_ok:
  "sock_step k x y \<Longrightarrow> sys_ok k \<Longrightarrow> sock_ok (snd x) \<Longrightarrow> sock_ok (snd y) \<and> same_kind (snd x) (snd y)"
proof (induction rule: sock_step.induct)
  case (step_reconnect h s t so ca b h' s')
  then show ?case
  proof (cases "m_remoteAddress s")
    case (Some a)
    have "sock_ok (s\<lparr>m_localAddress := None\<rparr>)" using step_reconnect by (simp add: sock_ok_def)
    then show ?thesis
      using step_reconnect Some Socket_connect_ok [of k h "s\<lparr>m_localAddress := None\<rparr>" a t so ca b h' s']
      by (simp add: Socket_reconnect_def same_kind_def)
  qed (simp add: Socket_reconnect_def)
next
  case (step_accept h s w cur as st s' h')
  then obtain fd h1 b where
    "Socket_init k h1 (Socket (m_family s) (m_type s) (m_protocol s)) fd = Inr (b, h', s')"
    by (auto simp: Socket_accept_def Let_def split: if_splits)
  then show ?case
    using Socket_init_ok [OF _ Socket_ok] step_accept by (fastforce simp: same_kind_def Socket_def)
next
  case (step_local s a s' h)
  then show ?case using getLocalAddress_ok [of k s] by simp
next
  case (step_remote s a s' h)
  then show ?case using getRemoteAddress_ok [of k s] by simp
qed (use Socket_bind_ok Socket_connect_ok Socket_close_ok Socket_init_ok in fastforce)+

lemma sock_reach_ok:
  "(sock_step k)\<^sup>*\<^sup>* x y \<Longrightarrow> sys_ok k \<Longrightarrow> sock_ok (snd x) \<Longrightarrow> sock_ok (snd y) \<and> same_kind (snd x) (snd y)"
  by (induction rule: rtranclp_induct) (auto dest: sock_step_ok simp: same_kind_def)

section \<open>Properties\<close>

lemma close_hook_on:
  assumes "t_hook_enable h" "fd_inv (hk_fds h)" "0 \<le> fd" "hk_iom h = Some io" "io_inv io"
  shows "\<exists>ds. close_hook h fd rt r = Some (Inr (r, h\<lparr>hk_fds := ds\<rparr>)) \<and> fd_inv ds \<and>
    fd_abs ds = (fd_abs (hk_fds h))(fd := None)"
proof -
  obtain c ds' fl' where g: "get (hk_fds h) fd False None (hk_flags h) = Inr (c, ds', fl')"
    "c = fd_abs (hk_fds h) fd"
    using get_spec [OF assms(2), of fd False None "hk_flags h"] assms(3) by (fastforce split: option.splits)
  obtain ds where d: "del (hk_fds h) fd = Inr ds" "fd_inv ds" "fd_abs ds = (fd_abs (hk_fds h))(fd := None)"
    using del_spec [OF assms(2,3)] by blast
  have same: "h\<lparr>hk_iom := Some io\<rparr> = h" "h\<lparr>hk_fds := hk_fds h\<rparr> = h" using assms(4) by simp_all
  show ?thesis
  proof (cases c)
    case None
    then have "close_hook h fd rt r = Some (Inr (r, h\<lparr>hk_fds := hk_fds h\<rparr>))"
      using assms(1) g(1) by (subst close_hook.simps) simp
    moreover have "fd_abs (hk_fds h) = (fd_abs (hk_fds h))(fd := None)" using None g(2) by (simp add: fun_upd_idem)
    ultimately show ?thesis using assms(2) by blast
  next
    case (Some ctx)
    then have "close_hook h fd rt r = Some (Inr (r, h\<lparr>hk_fds := ds\<rparr>))"
      using assms(1,4) g(1) d(1) cancelAll_eq [OF assms(5,3), of rt]
      by (subst close_hook.simps) (simp add: same)
    then show ?thesis using d by blast
  qed
qed



text \<open>
  C16: Closing a socket. On a thread with hooks enabled, \<open>close\<close> returns, the descriptor leaves the
  table of the hooks, the socket is invalid and not connected, a second \<open>close\<close> changes nothing and
  every later send or receive fails without a system call. But the I/O manager is left as it was, so
  a fiber waiting for the socket is not woken; the result is false in all cases; and on a thread
  without hooks \<open>close\<close> never returns.
\<close>

theorem socket_close_effect:
  assumes "t_hook_enable h" "fd_inv (hk_fds h)" "0 \<le> m_sock s" "hk_iom h = Some io" "io_inv io"
  shows "\<exists>h' s'. Socket_close h s rt r = Some (Inr (False, h', s')) \<and> \<not> isValid s' \<and> \<not> isConnected s' \<and>
    fd_abs (hk_fds h') = (fd_abs (hk_fds h))(m_sock s := None) \<and> hk_iom h' = hk_iom h \<and>
    Socket_close h' s' rt' r' = Some (Inr (False, h', s')) \<and>
    Socket_send h' s' w cur as = Some (Inr (-1, h')) \<and> Socket_recv h' s' w cur as = Some (Inr (-1, h')) \<and>
    Socket_close (h\<lparr>t_hook_enable := False\<rparr>) s rt r = None"
proof -
  obtain ds where ds: "close_hook h (m_sock s) rt r = Some (Inr (r, h\<lparr>hk_fds := ds\<rparr>))"
    "fd_abs ds = (fd_abs (hk_fds h))(m_sock s := None)"
    using close_hook_on [OF assms(1,2,3,4,5)] by blast
  have "close_hook (h\<lparr>t_hook_enable := False\<rparr>) (m_sock s) rt r = None"
    using close_hook_enabled [of "h\<lparr>t_hook_enable := False\<rparr>" "m_sock s" rt r]
    by (cases "close_hook (h\<lparr>t_hook_enable := False\<rparr>) (m_sock s) rt r") auto
  then show ?thesis
    using ds assms(3)
    by (simp add: Socket_close_def isValid_def isConnected_def Socket_send_def Socket_recv_def Let_def)
qed

theorem socket_close_effect_witness:
  "\<exists>h h' s'. hk_iom h \<noteq> None \<and>
    Socket_close h (CreateTCPSocket\<lparr>m_sock := 7, m_isConnect := True\<rparr>) 0 0 = Some (Inr (False, h', s')) \<and>
    \<not> isValid s'"
proof -
  obtain io :: "hook_cb iom" where "IOManager 1 True False 5 7 [] 0 99 (3, 4) 6 0 0 0 = Inr io"
    using manager_example by blast
  then have io: "io_inv io" by (rule io_inv_init)
  define h where "h = \<lparr>t_hook_enable = True, s_connect_timeout = 5000, hk_fds = FdManager, hk_flags = (\<lambda>_. 0),
    hk_iom = Some io, hk_tinfo = (\<lambda>_. None), hk_errno = 0\<rparr>"
  let ?s = "CreateTCPSocket\<lparr>m_sock := 7, m_isConnect := True\<rparr>"
  have h: "t_hook_enable h" "fd_inv (hk_fds h)" "hk_iom h = Some io" "0 \<le> m_sock ?s"
    by (simp_all add: h_def fd_inv_new)
  obtain h' s' where "Socket_close h ?s 0 0 = Some (Inr (False, h', s'))" "\<not> isValid s'"
    using socket_close_effect [OF h(1,2,4,3) io, of 0 0] by blast
  then show ?thesis using h(3) by blast
qed

text \<open>
  The outcome of \<open>connect\<close>. It reports success only for an address of the socket's family, and then
  the socket is connected and valid; after a failure it has no descriptor left, unless the family did
  not match. But a remote address cached by an earlier connection survives a successful \<open>connect\<close> to
  another address: \<open>getRemoteAddress\<close> then names the old peer.
\<close>

theorem socket_connect_outcome:
  assumes "sys_ok k" "(sock_step k)\<^sup>*\<^sup>* (h0, Socket f t p) (h, s)"
    "Socket_connect k h s addr timeout so ca = Some (Inr (ok, h', s'))"
  shows "if ok
    then isConnected s' \<and> isValid s' \<and> uint (getFamily addr) = f \<and>
      (\<forall>old. m_remoteAddress s = Some old \<longrightarrow> getRemoteAddress k s' = (old, s'))
    else uint (getFamily addr) = f \<longrightarrow> \<not> isValid s' \<and> \<not> isConnected s'"
proof -
  have ok: "sock_ok s" "m_family s = f"
    using sock_reach_ok [OF assms(2,1)] Socket_ok [of f t p] by (auto simp: same_kind_def Socket_def)
  note c = Socket_connect_ok [OF assms(3) ok(1) assms(1)]
  then have "\<not> isValid s' \<longrightarrow> \<not> isConnected s'" by (auto simp: sock_ok_def isValid_def isConnected_def)
  with c ok(2) show ?thesis by (auto simp: getRemoteAddress_def)
qed

theorem socket_connect_outcome_witness:
  "\<exists>k h ca h' s'. sys_ok k \<and>
    Socket_connect k h (Socket 2 1 0) (IPv4 (IPv4Address SYLAR_LITTLE_ENDIAN 1 80)) 5 (7, 0, None) ca = Some (Inr (True, h', s')) \<and>
    isConnected s' \<and> isValid s'"
proof -
  define k :: sys where "k = \<lparr>sys_setsockopt = (\<lambda>_ _. 0), sys_name = (\<lambda>fd a. None), sys_peer = (\<lambda>fd a. None)\<rparr>"
  have k: "sys_ok k" by (simp add: k_def sys_ok_def)
  define h where "h = \<lparr>t_hook_enable = False, s_connect_timeout = 5000, hk_fds = FdManager, hk_flags = (\<lambda>_. 0),
    hk_iom = None, hk_tinfo = (\<lambda>_. None), hk_errno = 0\<rparr>"
  define ca where "ca = \<lparr>ca_w = 0, ca_cur = 0, ca_n = 0, ca_e = 0, ca_now = 0, ca_timer = 0, ca_rt = 0,
    ca_resumed = h, ca_gs = 0, ca_error = 0, ca_close_rt = 0, ca_close = 0\<rparr>"
  let ?a = "IPv4 (IPv4Address SYLAR_LITTLE_ENDIAN 1 80)"
  have "\<exists>s'. Socket_connect k h (Socket 2 1 0) ?a 5 (7, 0, None) ca = Some (Inr (True, h, s'))"
    by (simp add: Socket_connect_def ensure_sock_def newSock_def socket_hook_def returned_def initSock_def setOption_def
        setsockopt_hook_def isValid_def Socket_def h_def k_def ca_def call_connect_def connect_with_timeout_def
        getFamily_def IPv4Address_def Let_def)
  then obtain s' where s': "Socket_connect k h (Socket 2 1 0) ?a 5 (7, 0, None) ca = Some (Inr (True, h, s'))" by blast
  have "isConnected s' \<and> isValid s'"
    using socket_connect_outcome [OF k rtranclp.rtrancl_refl s'] by simp
  then show ?thesis using k s' by blast
qed

text \<open>A datagram socket that was only bound cannot send or receive: both ask for a connection.\<close>

theorem bound_socket_mute:
  assumes "sys_ok k" "Socket_bind k h (Socket f t p) addr so r = Inr (b, h', s')"
  shows "sendTo h' s' w cur as = Some (Inr (-1, h')) \<and> recvFrom h' s' w cur as = Some (Inr (-1, h'))"
  using Socket_bind_ok [OF assms(2) Socket_ok assms(1)]
  by (auto simp: sendTo_def recvFrom_def isConnected_def Socket_def)

end
