(* ===== verification/Sylar_ByteArray_IO.thy ===== *)
theory Sylar_ByteArray_IO
  imports Sylar_ByteArray
begin

text \<open>
  The ways a buffer's bytes leave and enter it other than by \<open>write\<close> and \<open>read\<close>
  (\<^verbatim>\<open>sylar/bytearray.cpp\<close>): the \<open>iovec\<close> views for scatter/gather system calls, the copies to
  strings, and the transfer to and from files.

  An \<open>iovec\<close> is an address inside a node and a length: the node's index, the offset in it and the
  number of bytes. What a system call does through such a vector (\<open>gather\<close>, \<open>scatter\<close>) is defined
  here beside it. A file is its byte string, or \<open>None\<close> when it cannot be opened.
\<close>

section \<open>Scatter/gather views\<close>

type_synonym iovec = "nat \<times> nat \<times> nat"

text \<open>The loop the three view operations share: one vector per node the range touches.\<close>

function iov_loop :: "bytes list \<Rightarrow> nat option \<Rightarrow> nat \<Rightarrow> nat \<Rightarrow> nat \<Rightarrow> iovec list res" where
  "iov_loop nodes cur len npos ncap =
    (if len = 0 then Inr []
     else case deref nodes cur of
       Inl e \<Rightarrow> Inl e
     | Inr (i, nd) \<Rightarrow>
        (if ncap \<ge> len then Inr [(i, npos, len)]
         else
           case deref nodes (node_next nodes i) of
             Inl e \<Rightarrow> Inl e
           | Inr (j, nd2) \<Rightarrow>
              (case iov_loop nodes (node_next nodes i) (len - ncap) 0 (length nd2) of
                 Inl e \<Rightarrow> Inl e
               | Inr vs \<Rightarrow> Inr ((i, npos, ncap) # vs))))"
  by pat_completeness auto
termination
  by (relation "measure (\<lambda>(nodes, cur, len, npos, ncap). nodes_left nodes cur)")
    (auto intro: deref_next_less)

declare iov_loop.simps [simp del]

text \<open>The vectors are appended to those already in \<open>buffers\<close>.\<close>

definition getReadBuffers :: "bytearray \<Rightarrow> iovec list \<Rightarrow> nat \<Rightarrow> (nat \<times> iovec list) res" where
  "getReadBuffers b buffers len0 =
    (let len = (if len0 > getReadSize b then getReadSize b else len0) in
     if len = 0 then Inr (0, buffers)
     else if m_baseSize b = 0 then Inl Div_by_zero
     else bindE (deref (m_nodes b) (m_cur b)) (\<lambda>(i, nd).
       let npos = m_position b mod m_baseSize b; ncap = length nd - npos in
       bindE (iov_loop (m_nodes b) (m_cur b) len npos ncap) (\<lambda>vs. Inr (len, buffers @ vs))))"

text \<open>\<open>count\<close> steps along the chain from \<open>cur\<close>.\<close>

fun walk :: "bytes list \<Rightarrow> nat option \<Rightarrow> nat \<Rightarrow> nat option res" where
  "walk nodes cur 0 = Inr cur"
| "walk nodes cur (Suc count) =
     bindE (deref nodes cur) (\<lambda>(i, nd). walk nodes (node_next nodes i) count)"

text \<open>
  The overload with a position finds the node by counting from the root, but still bounds the
  length by what is readable from the cursor.
\<close>

definition getReadBuffers_at ::
  "bytearray \<Rightarrow> iovec list \<Rightarrow> nat \<Rightarrow> nat \<Rightarrow> (nat \<times> iovec list) res"
where
  "getReadBuffers_at b buffers len0 position =
    (let len = (if len0 > getReadSize b then getReadSize b else len0) in
     if len = 0 then Inr (0, buffers)
     else if m_baseSize b = 0 then Inl Div_by_zero
     else
       let npos = position mod m_baseSize b; count = position div m_baseSize b in
       bindE (walk (m_nodes b) (Some 0) count) (\<lambda>cur.
       bindE (deref (m_nodes b) cur) (\<lambda>(i, nd).
         let ncap = length nd - npos in
         bindE (iov_loop (m_nodes b) cur len npos ncap) (\<lambda>vs. Inr (len, buffers @ vs)))))"

definition getWriteBuffers ::
  "bytearray \<Rightarrow> iovec list \<Rightarrow> nat \<Rightarrow> (nat \<times> iovec list \<times> bytearray) res"
where
  "getWriteBuffers b buffers len =
    (if len = 0 then Inr (0, buffers, b)
     else bindE (addCapacity b len) (\<lambda>b1.
       if m_baseSize b1 = 0 then Inl Div_by_zero
       else bindE (deref (m_nodes b1) (m_cur b1)) (\<lambda>(i, nd).
         let npos = m_position b1 mod m_baseSize b1; ncap = length nd - npos in
         bindE (iov_loop (m_nodes b1) (m_cur b1) len npos ncap)
           (\<lambda>vs. Inr (len, buffers @ vs, b1)))))"

text \<open>What \<^verbatim>\<open>sendmsg\<close> takes from, and \<^verbatim>\<open>recvmsg\<close> stores through, a list of vectors.\<close>

primrec gather :: "bytes list \<Rightarrow> iovec list \<Rightarrow> bytes" where
  "gather nodes [] = []"
| "gather nodes (v # vs) =
     (case v of (i, off, l) \<Rightarrow> take l (drop off (nodes ! i))) @ gather nodes vs"

primrec scatter :: "bytes list \<Rightarrow> iovec list \<Rightarrow> bytes \<Rightarrow> bytes list" where
  "scatter nodes [] bs = nodes"
| "scatter nodes (v # vs) bs =
     (case v of (i, off, l) \<Rightarrow>
        scatter (nodes[i := overwrite (nodes ! i) off (take l bs)]) vs (drop l bs))"

definition iov_len :: "iovec list \<Rightarrow> nat" where
  "iov_len vs = sum_list (map (\<lambda>(i, off, l). l) vs)"

section \<open>Strings\<close>

definition toString :: "bytearray \<Rightarrow> bytes res" where
  "toString b =
    (if getReadSize b = 0 then Inr [] else ba_read_at b (getReadSize b) (m_position b))"

definition hex_digit :: "nat \<Rightarrow> char" where
  "hex_digit d = (if d < 10 then char_of (48 + d) else char_of (87 + d))"

definition hex_byte :: "u8 \<Rightarrow> string" where
  "hex_byte w = [hex_digit (unat w div 16), hex_digit (unat w mod 16)]"

fun hex_from :: "nat \<Rightarrow> bytes \<Rightarrow> string" where
  "hex_from i [] = []"
| "hex_from i (w # ws) =
     (if i > 0 \<and> i mod 32 = 0 then [CHR 0x0A] else []) @ hex_byte w @ '' '' @
     hex_from (Suc i) ws"

definition toHexString :: "bytearray \<Rightarrow> string res" where
  "toHexString b = bindE (toString b) (\<lambda>str. Inr (hex_from 0 str))"

section \<open>Files\<close>

text \<open>
  The loop of \<open>writeToFile\<close>, in the signed 64-bit arithmetic of the code: \<open>len\<close> can be negative,
  and a write of a negative count has no defined result. It advances one node per round.
\<close>

function to_file_loop ::
  "bytes list \<Rightarrow> nat \<Rightarrow> nat option \<Rightarrow> int \<Rightarrow> int \<Rightarrow> bytes \<Rightarrow> bytes res"
where
  "to_file_loop nodes base cur pos read_size out =
    (if read_size \<le> 0 then Inr out
     else if base = 0 then Inl Div_by_zero
     else case deref nodes cur of
       Inl e \<Rightarrow> Inl e
     | Inr (i, nd) \<Rightarrow>
         let diff = pos mod int base;
             len = (if read_size > int base then int base else read_size) - diff
         in if len < 0 then Inl (Undefined ''write of a negative count'')
            else case node_get nd (nat diff) (nat len) of
              Inl e \<Rightarrow> Inl e
            | Inr bs \<Rightarrow>
                to_file_loop nodes base (node_next nodes i) (pos + len) (read_size - len)
                  (out @ bs))"
  by pat_completeness auto
termination
  by (relation "measure (\<lambda>(nodes, base, cur, pos, read_size, out). nodes_left nodes cur)")
    (auto simp: deref_def nodes_left_def node_next_def split: option.splits if_splits)

declare to_file_loop.simps [simp del]

text \<open>The result is whether the file could be opened, and what it then holds.\<close>

definition writeToFile :: "bytearray \<Rightarrow> bool \<Rightarrow> (bool \<times> bytes) res" where
  "writeToFile b opens =
    (if \<not> opens then Inr (False, [])
     else bindE (to_file_loop (m_nodes b) (m_baseSize b) (m_cur b) (int (m_position b))
                   (int (getReadSize b)) [])
            (\<lambda>out. Inr (True, out)))"

text \<open>
  \<open>ifs.read\<close> takes up to \<open>n\<close> bytes and sets the end-of-file flag when it got fewer. With blocks of
  no bytes the loop of the code would never see the end of the file.
\<close>

function from_file_loop :: "nat \<Rightarrow> bytearray \<Rightarrow> bytes \<Rightarrow> bytearray res" where
  "from_file_loop n b rest =
    (if n = 0 then Inl (Undefined ''the loop does not end'')
     else bindE (ba_write b (take n rest)) (\<lambda>b'.
       if length rest < n then Inr b' else from_file_loop n b' (drop n rest)))"
  by pat_completeness auto
termination
  by (relation "measure (\<lambda>(n, b, rest). length rest)") auto

declare from_file_loop.simps [simp del]

definition readFromFile :: "bytearray \<Rightarrow> bytes option \<Rightarrow> (bool \<times> bytearray) res" where
  "readFromFile b file =
    (case file of
       None \<Rightarrow> Inr (False, b)
     | Some bs \<Rightarrow> bindE (from_file_loop (m_baseSize b) b bs) (\<lambda>b'. Inr (True, b')))"

section \<open>The views cover exactly the requested range\<close>

definition iovs_ok :: "nat \<Rightarrow> nat \<Rightarrow> iovec list \<Rightarrow> bool" where
  "iovs_ok n k vs \<longleftrightarrow> (\<forall>(i, off, l) \<in> set vs. i < k \<and> off + l \<le> n)"

lemma iov_len_simps [simp]:
  "iov_len [] = 0" "iov_len ((i, off, l) # vs) = l + iov_len vs"
  by (simp_all add: iov_len_def)

lemma iovs_ok_simps [simp]:
  "iovs_ok n k []" "iovs_ok n k ((i, off, l) # vs) \<longleftrightarrow> i < k \<and> off + l \<le> n \<and> iovs_ok n k vs"
  by (simp_all add: iovs_ok_def)

lemma iov_loop_end:
  "i < length nodes \<Longrightarrow> len \<le> ncap \<Longrightarrow>
   iov_loop nodes (Some i) len npos ncap = Inr (if len = 0 then [] else [(i, npos, len)])"
  by (subst iov_loop.simps) (simp add: deref_def)

lemma iov_loop_next:
  "Suc i < length nodes \<Longrightarrow> ncap < len \<Longrightarrow>
   iov_loop nodes (Some (Suc i)) (len - ncap) 0 (length (nodes ! Suc i)) = Inr vs \<Longrightarrow>
   iov_loop nodes (Some i) len npos ncap = Inr ((i, npos, ncap) # vs)"
  by (subst iov_loop.simps) (auto simp: deref_def node_next_def)

lemma room_next:
  assumes "i < k" "npos < (n :: nat)" "i * n + npos + len \<le> k * n" "n - npos < len"
  shows "Suc i < k"
proof (rule ccontr)
  assume "\<not> Suc i < k"
  then have "k = Suc i" using assms(1) by simp
  then show False using assms(2,3,4) by simp
qed

text \<open>The vectors \<open>vs\<close> view the \<open>len\<close> bytes from offset \<open>p\<close> of the chain, for reading and writing.\<close>

definition views :: "nat \<Rightarrow> bytes list \<Rightarrow> nat \<Rightarrow> nat \<Rightarrow> iovec list \<Rightarrow> bool" where
  "views n nodes p len vs \<longleftrightarrow>
    iovs_ok n (length nodes) vs \<and> iov_len vs = len \<and>
    gather nodes vs = take len (drop p (concat nodes)) \<and>
    (\<forall>nodes' bs. blocks n nodes' \<longrightarrow> length nodes' = length nodes \<longrightarrow> length bs \<le> len \<longrightarrow>
       concat (scatter nodes' vs bs) = overwrite (concat nodes') p bs \<and>
       blocks n (scatter nodes' vs bs) \<and> length (scatter nodes' vs bs) = length nodes)"

lemma iov_loop_correct:
  assumes "blocks n nodes" "i < length nodes" "npos < n"
    and "i * n + npos + len \<le> length nodes * n"
  shows "\<exists>vs. iov_loop nodes (Some i) len npos (n - npos) = Inr vs \<and>
    views n nodes (i * n + npos) len vs"
  using assms
proof (induction "length nodes - i" arbitrary: i npos len rule: less_induct)
  case less
  have dr: "drop (i * n + npos) (concat nodes) = drop npos (nodes ! i) @ concat (drop (Suc i) nodes)"
    using less.prems by (intro drop_concat_block) simp_all
  show ?case
  proof (cases "len \<le> n - npos")
    case True
    then show ?thesis
      using less.prems dr
      by (cases "len = 0") (auto simp: views_def iov_loop_end concat_overwrite_block)
  next
    case False
    let ?m = "n - npos"
    have room: "Suc i < length nodes" using room_next [OF less.prems(2,3,4)] False by simp
    have shift: "Suc i * n = i * n + npos + ?m" using less.prems(3) by simp
    obtain vs where "iov_loop nodes (Some (Suc i)) (len - ?m) 0 n = Inr vs"
      "views n nodes (Suc i * n) (len - ?m) vs"
      using less.hyps [of "Suc i" 0 "len - ?m"] less.prems room False by force
    then have vs: "iov_loop nodes (Some (Suc i)) (len - ?m) 0 n = Inr vs"
      "iovs_ok n (length nodes) vs" "iov_len vs = len - ?m"
      "gather nodes vs = take (len - ?m) (drop (Suc i * n) (concat nodes))"
      "\<And>nodes' bs. blocks n nodes' \<Longrightarrow> length nodes' = length nodes \<Longrightarrow> length bs \<le> len - ?m \<Longrightarrow>
         concat (scatter nodes' vs bs) = overwrite (concat nodes') (Suc i * n) bs \<and>
         blocks n (scatter nodes' vs bs) \<and> length (scatter nodes' vs bs) = length nodes"
      by (auto simp: views_def)
    have "iov_loop nodes (Some i) len npos ?m = Inr ((i, npos, ?m) # vs)"
      using False room vs(1) less.prems by (intro iov_loop_next) simp_all
    moreover have "gather nodes ((i, npos, ?m) # vs) = take len (drop (i * n + npos) (concat nodes))"
      using vs(4) dr False less.prems drop_concat_block [of n nodes i n] by (simp add: add.commute)
    moreover have "concat (scatter nodes' ((i, npos, ?m) # vs) bs) =
          overwrite (concat nodes') (i * n + npos) bs \<and>
        blocks n (scatter nodes' ((i, npos, ?m) # vs) bs) \<and>
        length (scatter nodes' ((i, npos, ?m) # vs) bs) = length nodes"
      if bl: "blocks n nodes'" "length nodes' = length nodes" "length bs \<le> len" for nodes' bs
    proof -
      let ?t = "take ?m bs"
      let ?N = "nodes'[i := overwrite (nodes' ! i) npos ?t]"
      have N: "blocks n ?N" "concat ?N = overwrite (concat nodes') (i * n + npos) ?t"
        using bl less.prems concat_overwrite_block [of n nodes' i npos ?t] by simp_all
      have "overwrite (concat ?N) (Suc i * n) (drop ?m bs) = overwrite (concat nodes') (i * n + npos) bs"
      proof (cases "?m \<le> length bs")
        case True
        then show ?thesis
          unfolding N(2) shift using bl less.prems
          by (intro overwrite_take_drop) simp_all
      qed (use N(2) in simp)
      then show ?thesis using vs(5) [of ?N "drop ?m bs"] N bl by simp
    qed
    ultimately show ?thesis using vs(2,3) less.prems False by (auto simp: views_def)
  qed
qed

lemma getReadBuffers_ok:
  assumes inv: "ba_inv b"
  shows "\<exists>vs. getReadBuffers b buffers len = Inr (min len (getReadSize b), buffers @ vs) \<and>
    iovs_ok (m_baseSize b) (length (m_nodes b)) vs \<and> iov_len vs = min len (getReadSize b) \<and>
    gather (m_nodes b) vs = take len (drop (m_position b) (contents b))"
proof -
  define l where "l = min len (getReadSize b)"
  have run: "getReadBuffers b buffers len = getReadBuffers b buffers l"
    and lle: "l \<le> getReadSize b"
    by (auto simp: getReadBuffers_def l_def Let_def)
  have tk: "take l (drop (m_position b) (concat (m_nodes b))) =
      take len (drop (m_position b) (contents b))"
    by (simp add: l_def contents_def getReadSize_def drop_take min.commute)
  show ?thesis
  proof (cases "l = 0")
    case True
    then show ?thesis using run tk by (auto simp: getReadBuffers_def l_def)
  next
    case False
    then have pc: "m_position b < m_capacity b" and fits: "m_position b + l \<le> m_capacity b"
      using inv lle by (auto simp: ba_inv_def getReadSize_def)
    note drf = deref_cursor [OF inv pc]
    have base: "0 < m_baseSize b" and blk: "blocks (m_baseSize b) (m_nodes b)"
      and cap: "m_capacity b = length (m_nodes b) * m_baseSize b"
      using inv by (auto simp: ba_inv_def)
    obtain vs where vs: "iov_loop (m_nodes b) (Some (m_position b div m_baseSize b)) l
        (m_position b mod m_baseSize b) (m_baseSize b - m_position b mod m_baseSize b) = Inr vs"
      "views (m_baseSize b) (m_nodes b) (m_position b) l vs"
      using iov_loop_correct [OF blk drf(2) mod_less_divisor [OF base], of "m_position b" l]
        fits cap by auto
    then have "getReadBuffers b buffers l = Inr (l, buffers @ vs)"
      using False lle base drf by (simp add: getReadBuffers_def)
    then show ?thesis using vs(2) run tk by (auto simp: views_def l_def)
  qed
qed

lemma getWriteBuffers_ok:
  assumes inv: "ba_inv b"
  shows "\<exists>vs b1. getWriteBuffers b buffers len = Inr (len, buffers @ vs, b1) \<and> ba_inv b1 \<and>
    contents b1 = contents b \<and> m_position b1 = m_position b \<and> m_size b1 = m_size b \<and>
    m_endian b1 = m_endian b \<and> m_baseSize b1 = m_baseSize b \<and>
    m_position b + len \<le> m_capacity b1 \<and>
    views (m_baseSize b1) (m_nodes b1) (m_position b) len vs"
proof (cases "len = 0")
  case True
  then show ?thesis
    using inv by (auto simp: getWriteBuffers_def views_def ba_inv_def)
next
  case False
  obtain b1 where b1: "addCapacity b len = Inr b1" "ba_inv b1" "contents b1 = contents b"
    "m_position b1 = m_position b" "m_size b1 = m_size b" "m_endian b1 = m_endian b"
    "m_baseSize b1 = m_baseSize b" "m_position b + len \<le> m_capacity b1"
    using addCapacity_correct [OF inv, of len] by blast
  have pc: "m_position b1 < m_capacity b1" using b1(4,8) False by simp
  note drf = deref_cursor [OF b1(2) pc]
  have base: "0 < m_baseSize b1" and blk: "blocks (m_baseSize b1) (m_nodes b1)"
    and cap: "m_capacity b1 = length (m_nodes b1) * m_baseSize b1"
    using b1(2) by (auto simp: ba_inv_def)
  obtain vs where vs: "iov_loop (m_nodes b1) (Some (m_position b1 div m_baseSize b1)) len
      (m_position b1 mod m_baseSize b1) (m_baseSize b1 - m_position b1 mod m_baseSize b1) = Inr vs"
    "views (m_baseSize b1) (m_nodes b1) (m_position b1) len vs"
    using iov_loop_correct [OF blk drf(2) mod_less_divisor [OF base], of "m_position b1" len]
      b1(4,8) cap by auto
  then have "getWriteBuffers b buffers len = Inr (len, buffers @ vs, b1)"
    using False b1(1) base drf by (simp add: getWriteBuffers_def)
  then show ?thesis using vs(2) b1 by auto
qed

text \<open>
  Data received through the write views and committed by \<open>setPosition\<close>, the way
  \<^verbatim>\<open>SocketStream::read\<close> does, is what \<open>write\<close> of the data leaves.
\<close>

lemma scatter_commit:
  assumes inv: "ba_inv b1" and vs: "views (m_baseSize b1) (m_nodes b1) (m_position b1) len vs"
    and cap: "m_position b1 + len \<le> m_capacity b1" and bs: "length bs \<le> len"
  shows "\<exists>b2. setPosition (b1\<lparr>m_nodes := scatter (m_nodes b1) vs bs\<rparr>)
      (m_position b1 + length bs) = Inr b2 \<and> ba_inv b2 \<and>
    contents b2 = overwrite (contents b1) (m_position b1) bs \<and>
    m_position b2 = m_position b1 + length bs \<and> m_endian b2 = m_endian b1"
proof -
  let ?b = "b1\<lparr>m_nodes := scatter (m_nodes b1) vs bs\<rparr>"
  have sc: "concat (m_nodes ?b) = overwrite (concat (m_nodes b1)) (m_position b1) bs"
    "blocks (m_baseSize b1) (m_nodes ?b)" "length (m_nodes ?b) = length (m_nodes b1)"
    using vs bs inv by (auto simp: views_def ba_inv_def)
  have "ba_inv ?b" using inv sc by (auto simp: ba_inv_def)
  then obtain b2 where b2: "setPosition ?b (m_position b1 + length bs) = Inr b2" "ba_inv b2"
    "m_position b2 = m_position b1 + length bs" "m_size b2 = max (m_size b1) (m_position b1 + length bs)"
    "m_nodes b2 = m_nodes ?b" "m_endian b2 = m_endian b1"
    using setPosition_correct [of ?b "m_position b1 + length bs"] cap bs by auto
  have "length (concat (m_nodes b1)) = m_capacity b1" "m_position b1 \<le> m_size b1"
    "m_size b1 \<le> m_capacity b1"
    using inv by (auto simp: ba_inv_def)
  then have "contents b2 = overwrite (contents b1) (m_position b1) bs"
    using take_overwrite_ge [of "m_position b1" bs "concat (m_nodes b1)" "m_size b1"] b2(4,5) sc(1)
      cap bs
    by (simp add: contents_def overwrite_def)
  then show ?thesis using b2 by auto
qed

lemma ba_read_at_cursor:
  "ba_read b n = Inr (bs, b') \<Longrightarrow> m_position b \<le> m_size b \<Longrightarrow>
   ba_read_at b n (m_position b) = Inr bs"
  by (auto simp: ba_read_def ba_read_at_def getReadSize_def size_sub_def Let_def split: if_splits)

lemma toString_ok:
  assumes inv: "ba_inv b"
  shows "toString b = Inr (drop (m_position b) (contents b))"
proof (cases "getReadSize b = 0")
  case True
  then show ?thesis using inv by (simp add: toString_def getReadSize_def)
next
  case False
  then have "m_position b < m_capacity b" "m_position b \<le> m_size b"
    using inv by (auto simp: getReadSize_def ba_inv_def)
  then have "\<exists>b'. ba_read b (getReadSize b) = Inr (drop (m_position b) (contents b), b')"
    using ba_read_correct [OF inv, of "getReadSize b"] inv by (auto simp: getReadSize_def)
  then show ?thesis
    using False \<open>m_position b \<le> m_size b\<close>
    by (auto simp: toString_def dest: ba_read_at_cursor)
qed

lemma from_file_loop_ok:
  assumes "ba_inv b" "0 < n"
  shows "\<exists>b'. from_file_loop n b rest = Inr b' \<and> ba_inv b' \<and>
    contents b' = overwrite (contents b) (m_position b) rest \<and>
    m_position b' = m_position b + length rest \<and> m_baseSize b' = m_baseSize b"
  using assms
proof (induction "length rest" arbitrary: b rest rule: less_induct)
  case less
  obtain b1 where b1: "ba_write b (take n rest) = Inr b1" "ba_inv b1"
    "contents b1 = overwrite (contents b) (m_position b) (take n rest)"
    "m_position b1 = m_position b + length (take n rest)" "m_baseSize b1 = m_baseSize b"
    using ba_write_correct [OF less.prems(1), of "take n rest"] by blast
  show ?case
  proof (cases "length rest < n")
    case True
    then show ?thesis using b1 less.prems by (subst from_file_loop.simps) auto
  next
    case False
    have "m_position b \<le> length (contents b)" using less.prems by (simp add: ba_inv_def)
    moreover obtain b2 where "from_file_loop n b1 (drop n rest) = Inr b2" "ba_inv b2"
      "contents b2 = overwrite (contents b1) (m_position b1) (drop n rest)"
      "m_position b2 = m_position b1 + length (drop n rest)" "m_baseSize b2 = m_baseSize b1"
      using less.hyps [of "drop n rest" b1] False less.prems b1(2) by fastforce
    ultimately show ?thesis
      using False b1 less.prems
        overwrite_overwrite_append [of "m_position b" "contents b" "take n rest" "drop n rest"]
      by (subst from_file_loop.simps) simp
  qed
qed

lemma seek_back:
  assumes "ba_inv b" "v \<le> m_size b"
  shows "\<exists>b'. setPosition b v = Inr b' \<and> ba_inv b' \<and> contents b' = contents b \<and>
    m_position b' = v \<and> m_size b' = m_size b \<and> m_nodes b' = m_nodes b \<and>
    m_baseSize b' = m_baseSize b"
proof -
  have "v \<le> m_capacity b" using assms by (simp add: ba_inv_def)
  then show ?thesis
    using setPosition_correct [OF assms(1), of v] assms(2)
    by (auto simp: contents_def setPosition_def)
qed

lemma to_file_loop_aligned:
  assumes "0 < n" "blocks n nodes" "p mod n = 0" "p + r \<le> length nodes * n"
  shows "to_file_loop nodes n (cursor n (length nodes) p) (int p) (int r) out =
    Inr (out @ take r (drop p (concat nodes)))"
  using assms
proof (induction r arbitrary: p out rule: less_induct)
  case (less r)
  show ?case
  proof (cases "r = 0")
    case True
    then show ?thesis by (simp add: to_file_loop.simps)
  next
    case False
    define i where "i = p div n"
    define m where "m = min n r"
    have m: "0 < m" "m \<le> n" "m \<le> r" using False less.prems(1) by (auto simp: m_def)
    have p: "p = i * n" using less.prems(3) by (auto simp: i_def)
    have cur: "cursor n (length nodes) p = Some i" "i < length nodes"
      using False less.prems(4) cursor_in [of p "length nodes" n] by (auto simp: cursor_def i_def)
    have dr: "drop p (concat nodes) = nodes ! i @ concat (drop (Suc i) nodes)"
      using drop_concat_block [of n nodes i 0] less.prems(2) cur(2) p by simp
    have "int p mod int n = 0" using p by simp
    then have step: "to_file_loop nodes n (Some i) (int p) (int r) out =
        to_file_loop nodes n (node_next nodes i) (int (p + m)) (int (r - m)) (out @ take m (nodes ! i))"
      using False less.prems(1,2) cur m
      by (subst to_file_loop.simps) (auto simp: deref_def node_get_def m_def min_def of_nat_diff Let_def)
    show ?thesis
    proof (cases "m = n")
      case True
      have "node_next nodes i = cursor n (length nodes) (p + m)"
        using cursor_step [of n i "length nodes" 0 m nodes] True less.prems(1) cur(2) p by simp
      moreover have "to_file_loop nodes n (cursor n (length nodes) (p + m)) (int (p + m))
          (int (r - m)) (out @ take m (nodes ! i)) =
        Inr ((out @ take m (nodes ! i)) @ take (r - m) (drop (p + m) (concat nodes)))"
        using less.prems m p True by (intro less.IH) simp_all
      moreover have "drop (p + m) (concat nodes) = concat (drop (Suc i) nodes)"
        using drop_concat_block [of n nodes i n] less.prems(2) cur(2) p True by simp
      ultimately show ?thesis using step cur(1) dr m(3) True less.prems(2) cur(2) by simp
    next
      case False
      then have "m = r" "r \<le> n" by (auto simp: m_def min_def split: if_splits)
      then show ?thesis
        using step cur dr less.prems(2) by (simp add: to_file_loop.simps [of _ _ _ _ 0])
    qed
  qed
qed

lemma writeToFile_ok:
  assumes "ba_inv b" "m_position b mod m_baseSize b = 0"
  shows "writeToFile b True = Inr (True, drop (m_position b) (contents b))"
proof -
  have "m_position b \<le> m_size b" using assms(1) by (simp add: ba_inv_def)
  then have "m_position b + getReadSize b = m_size b" by (simp add: getReadSize_def)
  then have "to_file_loop (m_nodes b) (m_baseSize b) (m_cur b) (int (m_position b))
      (int (getReadSize b)) [] = Inr (take (getReadSize b) (drop (m_position b) (concat (m_nodes b))))"
    using to_file_loop_aligned [of "m_baseSize b" "m_nodes b" "m_position b" "getReadSize b" "[]"]
      assms by (simp add: ba_inv_def)
  then show ?thesis
    by (simp add: writeToFile_def contents_def getReadSize_def drop_take)
qed

section \<open>Properties\<close>

text \<open>
  C7: The write views of a buffer in any valid state are a correct way in: \<open>getWriteBuffers\<close>
  succeeds, leaves contents and position alone, returns vectors that lie inside the nodes and add
  up to the request, and received bytes (all of the room or a prefix of it) stored through them and
  committed with \<open>setPosition\<close> leave exactly the contents and position that \<open>write\<close> would leave.
\<close>

theorem getWriteBuffers_commit:
  assumes "ba_inv b" "length bs \<le> len"
  shows "\<exists>vs b1 b2 b3. getWriteBuffers b [] len = Inr (len, vs, b1) \<and>
    contents b1 = contents b \<and> m_position b1 = m_position b \<and> iov_len vs = len \<and>
    iovs_ok (m_baseSize b1) (length (m_nodes b1)) vs \<and>
    setPosition (b1\<lparr>m_nodes := scatter (m_nodes b1) vs bs\<rparr>) (m_position b + length bs) = Inr b2 \<and>
    ba_inv b2 \<and> ba_write b bs = Inr b3 \<and> contents b2 = contents b3 \<and>
    m_position b2 = m_position b3"
proof -
  obtain vs b1 where b1: "getWriteBuffers b [] len = Inr (len, vs, b1)" "ba_inv b1"
    "contents b1 = contents b" "m_position b1 = m_position b"
    "m_position b + len \<le> m_capacity b1" "views (m_baseSize b1) (m_nodes b1) (m_position b) len vs"
    using getWriteBuffers_ok [OF assms(1), of "[]" len] by auto
  then show ?thesis
    using scatter_commit [OF b1(2), of len vs bs] assms ba_write_correct [OF assms(1), of bs]
    by (auto simp: views_def)
qed

theorem getWriteBuffers_commit_witness:
  "\<exists>vs b1 b2 b3. getWriteBuffers (ByteArray (\<lambda>_ _. 0) 4) [] 6 = Inr (6, vs, b1) \<and>
    contents b1 = contents (ByteArray (\<lambda>_ _. 0) 4) \<and>
    m_position b1 = m_position (ByteArray (\<lambda>_ _. 0) 4) \<and> iov_len vs = 6 \<and>
    iovs_ok (m_baseSize b1) (length (m_nodes b1)) vs \<and>
    setPosition (b1\<lparr>m_nodes := scatter (m_nodes b1) vs [1, 2, 3, 4, 5]\<rparr>)
      (m_position (ByteArray (\<lambda>_ _. 0) 4) + length [1, 2, 3, 4, 5 :: u8]) = Inr b2 \<and>
    ba_inv b2 \<and> ba_write (ByteArray (\<lambda>_ _. 0) 4) [1, 2, 3, 4, 5] = Inr b3 \<and>
    contents b2 = contents b3 \<and> m_position b2 = m_position b3"
  by (rule getWriteBuffers_commit) (simp_all add: ByteArray_inv)

text \<open>
  C31: The read views of a buffer cover exactly what is readable: the vectors lie inside the nodes,
  their lengths add up to the returned count (the request cut to what is left), and the bytes a
  gathering system call takes from them are the next bytes of the contents, the same ones
  \<open>toString\<close> returns when the request covers everything.
\<close>

theorem getReadBuffers_gather:
  assumes "ba_inv b"
  shows "\<exists>vs. getReadBuffers b [] len = Inr (min len (getReadSize b), vs) \<and>
    iovs_ok (m_baseSize b) (length (m_nodes b)) vs \<and> iov_len vs = min len (getReadSize b) \<and>
    bindE (toString b) (\<lambda>str. Inr (take len str)) = Inr (gather (m_nodes b) vs)"
  using getReadBuffers_ok [OF assms, of "[]" len] toString_ok [OF assms] by auto

theorem getReadBuffers_gather_witness:
  "\<exists>b vs. ba_write (ByteArray (\<lambda>_ _. 0) 2) [7, 8, 9] = Inr b \<and>
    getReadBuffers (clear b) [] 5 = Inr (min 5 (getReadSize (clear b)), vs)"
proof -
  obtain b where "ba_write (ByteArray (\<lambda>_ _. 0) 2) [7, 8, 9] = Inr b" "ba_inv b"
    using ba_write_correct [OF ByteArray_inv, of 2 "\<lambda>_ _. 0" "[7, 8, 9]"] by auto
  then show ?thesis
    using getReadBuffers_gather [OF clear_inv, of b 5] by auto
qed



text \<open>
  Away from a block boundary \<open>writeToFile\<close> is wrong: it takes the offset in the block off the
  length it writes, so on every buffer of a single block whose position is not at its start and
  which has something left to read, it either asks the stream to write a negative count or leaves
  data unwritten and follows the null pointer behind the last node.
\<close>

theorem writeToFile_unaligned:
  assumes "ba_inv b" "length (m_nodes b) = 1" "0 < m_position b" "m_position b < m_size b"
  shows "writeToFile b True = Inl Null_deref \<or>
    writeToFile b True = Inl (Undefined ''write of a negative count'')"
proof -
  obtain nd where nd: "m_nodes b = [nd]" "length nd = m_baseSize b"
    using assms(1,2) by (auto simp: ba_inv_def length_Suc_conv)
  have pos: "m_position b < m_baseSize b" "m_size b \<le> m_baseSize b" "m_cur b = Some 0"
    using assms nd by (auto simp: ba_inv_def cursor_def)
  then have md: "int (m_position b) mod int (m_baseSize b) = int (m_position b)" by simp
  have fin: "to_file_loop [nd] (m_baseSize b) None q (int (m_position b)) out = Inl Null_deref"
    for q out
    using assms(3) pos by (subst to_file_loop.simps) (simp add: deref_def)
  show ?thesis
    using assms(3,4) pos nd fin md
    by (subst (1 2) writeToFile_def, subst (1 2) to_file_loop.simps)
      (auto simp: deref_def node_next_def node_get_def getReadSize_def Let_def of_nat_diff
        nat_diff_distrib nat_mult_distrib)
qed

theorem writeToFile_unaligned_witness:
  "\<exists>b. setPosition (ByteArray (\<lambda>_ _. 0) 8) 7 = Inr b \<and>
    (\<exists>b'. setPosition b 2 = Inr b' \<and> (writeToFile b' True = Inl Null_deref \<or>
      writeToFile b' True = Inl (Undefined ''write of a negative count'')))"
proof -
  obtain b where b: "setPosition (ByteArray (\<lambda>_ _. 0) 8) 7 = Inr b" "ba_inv b"
    "m_size b = 7" "m_nodes b = m_nodes (ByteArray (\<lambda>_ _. 0) 8)"
    using setPosition_correct [OF ByteArray_inv, of 8 7 "\<lambda>_ _. 0"] by (auto simp: ByteArray_def)
  then have "2 \<le> m_capacity b" by (simp add: ba_inv_def)
  then obtain b' where "setPosition b 2 = Inr b'" "ba_inv b'" "m_position b' = 2" "m_size b' = 7"
    "m_nodes b' = m_nodes b"
    using setPosition_correct [OF b(2), of 2] b(3) by auto
  then show ?thesis
    using writeToFile_unaligned [of b'] b by (auto simp: ByteArray_def)
qed

end
