(* ===== verification/Sylar_Stream.thy ===== *)
theory Sylar_Stream
  imports Sylar_Socket Sylar_ByteArray_IO
begin

text \<open>
  Streams (\<^verbatim>\<open>sylar/stream.cpp\<close>) and the stream over a socket (\<^verbatim>\<open>sylar/streams/socket_stream.cpp\<close>). The
  transfers of a fixed size are loops over the abstract \<open>read\<close> and \<open>write\<close> of a stream, which are
  arguments; the locales state what a stream promises, and the socket stream is an instance.
\<close>

section \<open>Fixed-size transfers\<close>

text \<open>
  A read gives its return value, the bytes stored, and the stream after it; a read into or a write
  from a \<open>ByteArray\<close> gives the array after it.
\<close>

type_synonym 's reader = "'s \<Rightarrow> nat \<Rightarrow> (int \<times> bytes \<times> 's) run"
type_synonym 's writer = "'s \<Rightarrow> bytes \<Rightarrow> (int \<times> 's) run"
type_synonym 's ba_io = "'s \<Rightarrow> bytearray \<Rightarrow> nat \<Rightarrow> (int \<times> bytearray \<times> 's) run"

text \<open>The loops: the return value that ended one early, if any. \<open>left\<close> is unsigned in the first one.\<close>

partial_function (option) readFix_loop ::
  "'s reader \<Rightarrow> 's \<Rightarrow> int \<Rightarrow> bytes \<Rightarrow> (int option \<times> bytes \<times> 's) run"
where
  "readFix_loop rd st left buf =
    (if left = 0 then Some (Inr (None, buf, st))
     else Option.bind (rd st (nat left)) (\<lambda>r.
       case r of
         Inl e \<Rightarrow> Some (Inl e)
       | Inr (len, d, st') \<Rightarrow>
           if len \<le> 0 then Some (Inr (Some len, buf, st'))
           else readFix_loop rd st' ((left - len) mod 2 ^ 64) (buf @ d)))"

partial_function (option) fixBa_loop ::
  "'s ba_io \<Rightarrow> 's \<Rightarrow> bytearray \<Rightarrow> int \<Rightarrow> (int option \<times> bytearray \<times> 's) run"
where
  "fixBa_loop io st ba left =
    (if left \<le> 0 then Some (Inr (None, ba, st))
     else Option.bind (io st ba (nat left)) (\<lambda>r.
       case r of
         Inl e \<Rightarrow> Some (Inl e)
       | Inr (len, ba', st') \<Rightarrow>
           if len \<le> 0 then Some (Inr (Some len, ba', st')) else fixBa_loop io st' ba' (left - len)))"

partial_function (option) writeFix_loop ::
  "'s writer \<Rightarrow> 's \<Rightarrow> bytes \<Rightarrow> nat \<Rightarrow> int \<Rightarrow> (int option \<times> 's) run"
where
  "writeFix_loop wr st buf offset left =
    (if left \<le> 0 then Some (Inr (None, st))
     else Option.bind (wr st (take (nat left) (drop offset buf))) (\<lambda>r.
       case r of
         Inl e \<Rightarrow> Some (Inl e)
       | Inr (len, st') \<Rightarrow>
           if len \<le> 0 then Some (Inr (Some len, st'))
           else writeFix_loop wr st' buf (offset + nat len) (left - len)))"

text \<open>The \<^verbatim>\<open>size_t\<close> length is returned as an \<^verbatim>\<open>int\<close>.\<close>

definition int_of_size :: "nat \<Rightarrow> int" where
  "int_of_size n = signed_take_bit 31 (int n)"

definition fix_result :: "nat \<Rightarrow> int option \<Rightarrow> int" where
  "fix_result n r = (case r of Some len \<Rightarrow> len | None \<Rightarrow> int_of_size n)"

definition readFixSize :: "'s reader \<Rightarrow> 's \<Rightarrow> nat \<Rightarrow> (int \<times> bytes \<times> 's) run" where
  "readFixSize rd st n =
    bindR (readFix_loop rd st (int n) []) (\<lambda>(r, buf, st'). Some (Inr (fix_result n r, buf, st')))"

definition readFixSize_ba :: "'s ba_io \<Rightarrow> 's \<Rightarrow> bytearray \<Rightarrow> nat \<Rightarrow> (int \<times> bytearray \<times> 's) run" where
  "readFixSize_ba rd st ba n =
    bindR (fixBa_loop rd st ba (int n)) (\<lambda>(r, ba', st'). Some (Inr (fix_result n r, ba', st')))"

definition writeFixSize :: "'s writer \<Rightarrow> 's \<Rightarrow> bytes \<Rightarrow> (int \<times> 's) run" where
  "writeFixSize wr st buf =
    bindR (writeFix_loop wr st buf 0 (int (length buf))) (\<lambda>(r, st'). Some (Inr (fix_result (length buf) r, st')))"

definition writeFixSize_ba :: "'s ba_io \<Rightarrow> 's \<Rightarrow> bytearray \<Rightarrow> nat \<Rightarrow> (int \<times> bytearray \<times> 's) run" where
  "writeFixSize_ba wr st ba n =
    bindR (fixBa_loop wr st ba (int n)) (\<lambda>(r, ba', st'). Some (Inr (fix_result n r, ba', st')))"

section \<open>The stream over a socket\<close>

text \<open>
  The object with the world around it: the state of the hooks, the answers to the coming system calls
  (with the address of the timer info and the fiber of each), the bytes the peer has sent that
  are not yet received, and the bytes sent to it. The kernel receives in order and at most what was
  asked for, and sends at most what it was given.
\<close>

record link =
  ln_hook :: hook
  ln_socket :: "socket option"
  ln_owner :: bool
  ln_calls :: "(nat \<times> nat \<times> io_answer list) list"
  ln_in :: bytes
  ln_out :: bytes

fun at_most :: "nat \<Rightarrow> io_answer \<Rightarrow> io_answer" where
  "at_most n (Sys r e) = Sys (min r (int n)) e"
| "at_most n (Block now a rt h) = Block now a rt h"

definition SocketStream :: "hook \<Rightarrow> socket option \<Rightarrow> bool \<Rightarrow> link" where
  "SocketStream h sock owner =
    \<lparr>ln_hook = h, ln_socket = sock, ln_owner = owner, ln_calls = [], ln_in = [], ln_out = []\<rparr>"

definition ss_isConnected :: "link \<Rightarrow> bool" where
  "ss_isConnected l = (case ln_socket l of Some s \<Rightarrow> isConnected s | None \<Rightarrow> False)"

text \<open>A receiving or sending call on the socket, of at most \<open>n\<close> bytes.\<close>

definition socket_call ::
  "(hook \<Rightarrow> socket \<Rightarrow> nat \<Rightarrow> nat \<Rightarrow> io_answer list \<Rightarrow> (int \<times> hook) run) \<Rightarrow> link \<Rightarrow> nat \<Rightarrow> (int \<times> link) run"
where
  "socket_call f l n =
    (case ln_socket l of
       None \<Rightarrow> Some (Inl Null_deref)
     | Some s \<Rightarrow>
        (case ln_calls l of
           [] \<Rightarrow> None
         | (w, cur, as) # cs \<Rightarrow>
            bindR (f (ln_hook l) s w cur (map (at_most n) as)) (\<lambda>(r, h).
              Some (Inr (r, l\<lparr>ln_hook := h, ln_calls := cs\<rparr>)))))"

definition ss_read :: "link reader" where
  "ss_read l n =
    (if \<not> ss_isConnected l then Some (Inr (-1, [], l))
     else bindR (socket_call Socket_recv l (min n (length (ln_in l)))) (\<lambda>(r, l').
       Some (Inr (r, take (nat r) (ln_in l), l'\<lparr>ln_in := drop (nat r) (ln_in l)\<rparr>))))"

definition ss_write :: "link writer" where
  "ss_write l bs =
    (if \<not> ss_isConnected l then Some (Inr (-1, l))
     else bindR (socket_call Socket_send l (length bs)) (\<lambda>(r, l').
       Some (Inr (r, l'\<lparr>ln_out := ln_out l @ take (nat r) bs\<rparr>))))"

definition ss_read_ba :: "link ba_io" where
  "ss_read_ba l ba n =
    (if \<not> ss_isConnected l then Some (Inr (-1, ba, l))
     else case getWriteBuffers ba [] n of
       Inl e \<Rightarrow> Some (Inl e)
     | Inr (_, iovs, ba1) \<Rightarrow>
        bindR (socket_call Socket_recv_iov l (min (iov_len iovs) (length (ln_in l)))) (\<lambda>(r, l').
          let d = take (nat r) (ln_in l);
              l'' = l'\<lparr>ln_in := drop (nat r) (ln_in l)\<rparr>;
              ba2 = ba1\<lparr>m_nodes := scatter (m_nodes ba1) iovs d\<rparr>
          in if r > 0
             then Some (bindE (setPosition ba2 (m_position ba2 + nat r)) (\<lambda>ba3. Inr (r, ba3, l'')))
             else Some (Inr (r, ba2, l''))))"

definition ss_write_ba :: "link ba_io" where
  "ss_write_ba l ba n =
    (if \<not> ss_isConnected l then Some (Inr (-1, ba, l))
     else case getWriteBuffers ba [] n of
       Inl e \<Rightarrow> Some (Inl e)
     | Inr (_, iovs, ba1) \<Rightarrow>
        bindR (socket_call Socket_send_iov l (iov_len iovs)) (\<lambda>(r, l').
          let l'' = l'\<lparr>ln_out := ln_out l @ take (nat r) (gather (m_nodes ba1) iovs)\<rparr>
          in if r > 0
             then Some (bindE (setPosition ba1 (m_position ba1 + nat r)) (\<lambda>ba2. Inr (r, ba2, l'')))
             else Some (Inr (r, ba1, l''))))"

text \<open>\<open>rt\<close> and \<open>r\<close> are the answers for closing the socket.\<close>

definition ss_close :: "link \<Rightarrow> int \<Rightarrow> int \<Rightarrow> link run" where
  "ss_close l rt r =
    (case ln_socket l of
       None \<Rightarrow> Some (Inr l)
     | Some s \<Rightarrow> bindR (Socket_close (ln_hook l) s rt r) (\<lambda>(_, h, s').
         Some (Inr (l\<lparr>ln_hook := h, ln_socket := Some s'\<rparr>))))"

definition ss_destroy :: "link \<Rightarrow> int \<Rightarrow> int \<Rightarrow> link run" where
  "ss_destroy l rt r = (if ln_owner l then ss_close l rt r else Some (Inr l))"

definition ss_getRemoteAddress :: "sys \<Rightarrow> link \<Rightarrow> address option \<times> link" where
  "ss_getRemoteAddress k l =
    (case ln_socket l of
       Some s \<Rightarrow> (let (a, s') = getRemoteAddress k s in (Some a, l\<lparr>ln_socket := Some s'\<rparr>))
     | None \<Rightarrow> (None, l))"

definition ss_getLocalAddress :: "sys \<Rightarrow> link \<Rightarrow> address option \<times> link" where
  "ss_getLocalAddress k l =
    (case ln_socket l of
       Some s \<Rightarrow> (let (a, s') = getLocalAddress k s in (Some a, l\<lparr>ln_socket := Some s'\<rparr>))
     | None \<Rightarrow> (None, l))"

definition getRemoteAddressString :: "u8 \<Rightarrow> sys \<Rightarrow> link \<Rightarrow> string" where
  "getRemoteAddressString host k l =
    (case fst (ss_getRemoteAddress k l) of Some a \<Rightarrow> address_toString host a | None \<Rightarrow> '''')"

definition getLocalAddressString :: "u8 \<Rightarrow> sys \<Rightarrow> link \<Rightarrow> string" where
  "getLocalAddressString host k l =
    (case fst (ss_getLocalAddress k l) of Some a \<Rightarrow> address_toString host a | None \<Rightarrow> '''')"

section \<open>What a stream promises\<close>

lemma int_of_size_small: "n < 2 ^ 31 \<Longrightarrow> int_of_size n = int n"
  unfolding int_of_size_def by (intro signed_take_bit_int_eq_self) simp_all

lemma left_after:
  assumes "\<not> len \<le> 0" "len \<le> int n"
  obtains k where "int n - len = int k" "k < n" "n = nat len + k"
    "n < 2 ^ 64 \<longrightarrow> (int n - len) mod 2 ^ 64 = int k"
proof
  show eq: "int n - len = int (n - nat len)" "n - nat len < n" "n = nat len + (n - nat len)"
    using assms by (auto simp: of_nat_diff nat_le_iff)
  show "n < 2 ^ 64 \<longrightarrow> (int n - len) mod 2 ^ 64 = int (n - nat len)"
    unfolding eq(1) using eq(2) by (intro impI mod_pos_pos_trivial) auto
qed

text \<open>A read stores at most what was asked for, and the bytes are the next ones of those to come.\<close>

locale byte_source =
  fixes rd :: "'s reader" and coming :: "'s \<Rightarrow> bytes"
  assumes rd_next: "rd st n = Some (Inr (len, d, st')) \<Longrightarrow>
    len \<le> int n \<and> length d = nat len \<and> coming st = d @ coming st'"
begin

lemma readFix_loop_returns:
  assumes "n < 2 ^ 64" "n \<le> k" "ready k st"
    "\<And>j st m. 0 < m \<Longrightarrow> ready (Suc j) st \<Longrightarrow>
      \<exists>x. rd st m = Some x \<and> (\<forall>len d st'. x = Inr (len, d, st') \<longrightarrow> ready j st')"
  shows "readFix_loop rd st (int n) buf \<noteq> None"
  using assms
proof (induction n arbitrary: k st buf rule: less_induct)
  case (less n)
  show ?case
  proof (cases "n = 0")
    case False
    then obtain j where j: "k = Suc j" using less.prems(2) by (cases k) auto
    obtain r where r: "rd st n = Some r" "\<And>len d st'. r = Inr (len, d, st') \<Longrightarrow> ready j st'"
      using less.prems(4) [of n j st] less.prems(3) False j by auto
    show ?thesis
    proof (cases r)
      case (Inl e)
      then show ?thesis using r False by (subst readFix_loop.simps) simp
    next
      case (Inr x)
      obtain len d st' where x: "x = (len, d, st')" by (cases x)
      show ?thesis
      proof (cases "len \<le> 0")
        case True
        then show ?thesis using r Inr x False by (subst readFix_loop.simps) simp
      next
        case pos: False
        then have len: "len \<le> int n" using rd_next r Inr x by blast
        obtain i where m: "int n - len = int i" "i < n" "n = nat len + i"
          "n < 2 ^ 64 \<longrightarrow> (int n - len) mod 2 ^ 64 = int i"
          by (rule left_after [OF pos len])
        have "readFix_loop rd st' (int i) (buf @ d) \<noteq> None"
        proof (rule less.IH [OF m(2) _ _ _ less.prems(4)])
          show "i < 2 ^ 64" "i \<le> j" using less.prems(1,2) m(2) j by linarith+
        qed (use r(2) Inr x in simp_all)
        then show ?thesis using r Inr x False pos m(4) less.prems(1) by (subst readFix_loop.simps) simp
      qed
    qed
  qed (subst readFix_loop.simps, simp)
qed

lemma readFix_loop_next:
  assumes "n < 2 ^ 64" "readFix_loop rd st (int n) buf = Some (Inr (r, buf', st'))"
  shows "\<exists>d. buf' = buf @ d \<and> coming st = d @ coming st' \<and>
    (case r of None \<Rightarrow> length d = n | Some len \<Rightarrow> len \<le> 0 \<and> length d < n)"
  using assms
proof (induction n arbitrary: st buf rule: less_induct)
  case (less n)
  show ?case
  proof (cases "n = 0")
    case True
    then show ?thesis using less.prems(2) by (subst (asm) readFix_loop.simps) auto
  next
    case False
    then obtain len d st1 where rd: "rd st n = Some (Inr (len, d, st1))"
      using less.prems(2) by (subst (asm) readFix_loop.simps) (auto split: bind_splits sum.splits)
    note nx = rd_next [OF rd]
    show ?thesis
    proof (cases "len \<le> 0")
      case True
      then have "r = Some len" "buf' = buf" "st' = st1"
        using less.prems(2) rd False by (subst (asm) readFix_loop.simps, simp)+
      then show ?thesis using nx True False by simp
    next
      case pos: False
      have len: "len \<le> int n" using nx by simp
      obtain k where m: "int n - len = int k" "k < n" "n = nat len + k"
          "n < 2 ^ 64 \<longrightarrow> (int n - len) mod 2 ^ 64 = int k"
          by (rule left_after [OF pos len])
      have "readFix_loop rd st1 (int k) (buf @ d) = Some (Inr (r, buf', st'))"
        using less.prems(2) rd False pos m(4) less.prems(1) by (subst (asm) readFix_loop.simps) simp
      then obtain d2 where "buf' = (buf @ d) @ d2" "coming st1 = d2 @ coming st'"
        "case r of None \<Rightarrow> length d2 = k | Some len' \<Rightarrow> len' \<le> 0 \<and> length d2 < k"
        using less.IH [OF m(2)] less.prems(1) m(2) by fastforce
      then show ?thesis using nx m(3) by (intro exI [of _ "d @ d2"]) (auto split: option.splits)
    qed
  qed
qed

lemma readFixSize_spec:
  assumes "n < 2 ^ 31" "readFixSize rd st n = Some (Inr (r, d, st'))"
  shows "coming st = d @ coming st' \<and> (if length d = n then r = int n \<or> r \<le> 0 \<and> n = 0 else r \<le> 0 \<and> length d < n)"
proof -
  obtain r0 where r0: "readFix_loop rd st (int n) [] = Some (Inr (r0, d, st'))" "r = fix_result n r0"
    using assms(2) by (auto simp: readFixSize_def)
  have n: "n < 2 ^ 64" using assms(1) by simp
  show ?thesis
    using readFix_loop_next [OF n r0(1)] r0(2) int_of_size_small [OF assms(1)] by (auto simp: fix_result_def split: option.splits)
qed

end

text \<open>A write accepts a prefix of what it is given, and that is appended to what was sent.\<close>

locale byte_sink =
  fixes wr :: "'s writer" and sent :: "'s \<Rightarrow> bytes"
  assumes wr_prefix: "wr st bs = Some (Inr (len, st')) \<Longrightarrow>
    len \<le> int (length bs) \<and> sent st' = sent st @ take (nat len) bs"
begin

lemma writeFix_loop_returns:
  assumes "offset + n = length buf" "n \<le> k" "ready k st"
    "\<And>j st bs. bs \<noteq> [] \<Longrightarrow> ready (Suc j) st \<Longrightarrow>
      \<exists>x. wr st bs = Some x \<and> (\<forall>len st'. x = Inr (len, st') \<longrightarrow> ready j st')"
  shows "writeFix_loop wr st buf offset (int n) \<noteq> None"
  using assms
proof (induction n arbitrary: k st offset rule: less_induct)
  case (less n)
  show ?case
  proof (cases "n = 0")
    case False
    let ?bs = "take n (drop offset buf)"
    have bs: "length ?bs = n" using less.prems(1) by simp
    then have ne: "?bs \<noteq> []" using False by auto
    obtain j where j: "k = Suc j" using less.prems(2) False by (cases k) auto
    obtain r where r: "wr st ?bs = Some r" "\<And>len st'. r = Inr (len, st') \<Longrightarrow> ready j st'"
      using less.prems(4) [OF ne, of j st] less.prems(3) j by auto
    show ?thesis
    proof (cases r)
      case (Inl e)
      then show ?thesis using r False by (subst writeFix_loop.simps) simp
    next
      case (Inr x)
      obtain len st' where x: "x = (len, st')" by (cases x)
      show ?thesis
      proof (cases "len \<le> 0")
        case True
        then show ?thesis using r Inr x False by (subst writeFix_loop.simps) simp
      next
        case pos: False
        then have len: "len \<le> int n" using wr_prefix [of st ?bs len st'] r Inr x bs by simp
        obtain i where m: "int n - len = int i" "i < n" "n = nat len + i"
          "n < 2 ^ 64 \<longrightarrow> (int n - len) mod 2 ^ 64 = int i"
          by (rule left_after [OF pos len])
        have "writeFix_loop wr st' buf (offset + nat len) (int i) \<noteq> None"
        proof (rule less.IH [OF m(2) _ _ _ less.prems(4)])
          show "offset + nat len + i = length buf" "i \<le> j" using less.prems(1,2) m(2,3) j by linarith+
        qed (use r(2) Inr x in simp_all)
        then show ?thesis using r Inr x False pos m(1) by (subst writeFix_loop.simps) simp
      qed
    qed
  qed (subst writeFix_loop.simps, simp)
qed

lemma writeFix_loop_prefix:
  assumes "offset + n = length buf" "writeFix_loop wr st buf offset (int n) = Some (Inr (r, st'))"
  shows "\<exists>k. k \<le> n \<and> sent st' = sent st @ take k (drop offset buf) \<and>
    (case r of None \<Rightarrow> k = n | Some len \<Rightarrow> len \<le> 0 \<and> k < n)"
  using assms
proof (induction n arbitrary: st offset rule: less_induct)
  case (less n)
  let ?bs = "take n (drop offset buf)"
  have bs: "length ?bs = n" using less.prems(1) by simp
  show ?case
  proof (cases "n = 0")
    case True
    then show ?thesis using less.prems(2) by (subst (asm) writeFix_loop.simps) auto
  next
    case False
    then obtain len st1 where wr: "wr st ?bs = Some (Inr (len, st1))"
      using less.prems(2) by (subst (asm) writeFix_loop.simps) (auto split: bind_splits sum.splits)
    note pf = wr_prefix [OF wr, unfolded bs]
    show ?thesis
    proof (cases "len \<le> 0")
      case True
      then have "r = Some len" "st' = st1"
        using less.prems(2) wr False by (subst (asm) writeFix_loop.simps, simp)+
      then show ?thesis using pf True False by (intro exI [of _ 0]) simp
    next
      case pos: False
      have len: "len \<le> int n" using pf by simp
      obtain k where m: "int n - len = int k" "k < n" "n = nat len + k"
          "n < 2 ^ 64 \<longrightarrow> (int n - len) mod 2 ^ 64 = int k"
          by (rule left_after [OF pos len])
      have total: "offset + nat len + (k) = length buf" using m(3) less.prems(1) by simp
      have "writeFix_loop wr st1 buf (offset + nat len) (int k) = Some (Inr (r, st'))"
        using less.prems(2) wr False pos m(1) by (subst (asm) writeFix_loop.simps) simp
      then obtain j where j: "j \<le> k" "sent st' = sent st1 @ take j (drop (offset + nat len) buf)"
        "case r of None \<Rightarrow> j = k | Some len' \<Rightarrow> len' \<le> 0 \<and> j < k"
        using less.IH [OF m(2) total] by blast
      have "nat len \<le> n" using m(3) by linarith
      then have "sent st1 = sent st @ take (nat len) (drop offset buf)" using pf by (simp add: min_absorb1)
      then have "sent st' = sent st @ take (nat len + j) (drop offset buf)"
        using j(2) by (simp only: take_add drop_drop append_assoc add.commute [of "nat len" offset])
      then show ?thesis using j(1,3) m(3) by (intro exI [of _ "nat len + j"]) (simp split: option.splits)
    qed
  qed
qed

end

text \<open>The same for transfers between a stream and the bytes of an array from its position on.\<close>

locale array_source =
  fixes rd :: "'s ba_io" and coming :: "'s \<Rightarrow> bytes"
  assumes rd_store: "ba_inv b \<Longrightarrow> rd st b n = Some (Inr (len, b', st')) \<Longrightarrow>
    \<exists>d. len \<le> int n \<and> length d = nat len \<and> coming st = d @ coming st' \<and> ba.wrote b d b'"
begin

lemma fixBa_store:
  assumes "ba_inv b" "fixBa_loop rd st b (int n) = Some (Inr (r, b', st'))"
  shows "\<exists>d. coming st = d @ coming st' \<and> ba.wrote b d b' \<and>
    (case r of None \<Rightarrow> length d = n | Some len \<Rightarrow> len \<le> 0 \<and> length d < n)"
  using assms
proof (induction n arbitrary: st b rule: less_induct)
  case (less n)
  show ?case
  proof (cases "n = 0")
    case True
    then show ?thesis using less.prems ba.wrote_Nil by (subst (asm) fixBa_loop.simps) auto
  next
    case False
    then obtain len b1 st1 where rd: "rd st b n = Some (Inr (len, b1, st1))"
      using less.prems(2) by (subst (asm) fixBa_loop.simps) (auto split: bind_splits sum.splits)
    obtain d where d: "len \<le> int n" "length d = nat len" "coming st = d @ coming st1" "ba.wrote b d b1"
      using rd_store [OF less.prems(1) rd] by blast
    then have inv1: "ba_inv b1" by (simp add: ba.wrote_def)
    show ?thesis
    proof (cases "len \<le> 0")
      case True
      then have "r = Some len" "b' = b1" "st' = st1"
        using less.prems(2) rd False by (subst (asm) fixBa_loop.simps, simp)+
      then show ?thesis using d True False by (intro exI [of _ d]) simp
    next
      case pos: False
      obtain k where m: "int n - len = int k" "k < n" "n = nat len + k" "n < 2 ^ 64 \<longrightarrow> (int n - len) mod 2 ^ 64 = int k"
        by (rule left_after [OF pos d(1)])
      have "fixBa_loop rd st1 b1 (int k) = Some (Inr (r, b', st'))"
        using less.prems(2) rd False pos m(1) by (subst (asm) fixBa_loop.simps) simp
      then obtain d2 where d2: "coming st1 = d2 @ coming st'" "ba.wrote b1 d2 b'"
        "case r of None \<Rightarrow> length d2 = k | Some len' \<Rightarrow> len' \<le> 0 \<and> length d2 < k"
        using less.IH [OF m(2) inv1] by blast
      show ?thesis
        using d d2 m(3) ba.wrote_append [OF d(4) d2(2)]
        by (intro exI [of _ "d @ d2"]) (simp split: option.splits)
    qed
  qed
qed

end

locale array_sink =
  fixes wr :: "'s ba_io" and sent :: "'s \<Rightarrow> bytes"
  assumes wr_take: "ba_inv b \<Longrightarrow> n \<le> getReadSize b \<Longrightarrow> wr st b n = Some (Inr (len, b', st')) \<Longrightarrow>
    len \<le> int n \<and> ba_inv b' \<and> contents b' = contents b \<and> m_position b' = m_position b + nat len \<and>
    sent st' = sent st @ take (nat len) (drop (m_position b) (contents b))"
begin

lemma fixBa_take:
  assumes "ba_inv b" "n \<le> getReadSize b" "fixBa_loop wr st b (int n) = Some (Inr (r, b', st'))"
  shows "\<exists>k. ba_inv b' \<and> contents b' = contents b \<and> m_position b' = m_position b + k \<and>
    sent st' = sent st @ take k (drop (m_position b) (contents b)) \<and>
    (case r of None \<Rightarrow> k = n | Some len \<Rightarrow> len \<le> 0 \<and> k < n)"
  using assms
proof (induction n arbitrary: st b rule: less_induct)
  case (less n)
  show ?case
  proof (cases "n = 0")
    case True
    then show ?thesis using less.prems by (subst (asm) fixBa_loop.simps) auto
  next
    case False
    then obtain len b1 st1 where wr: "wr st b n = Some (Inr (len, b1, st1))"
      using less.prems(3) by (subst (asm) fixBa_loop.simps) (auto split: bind_splits sum.splits)
    note d = wr_take [OF less.prems(1,2) wr]
    show ?thesis
    proof (cases "len \<le> 0")
      case True
      then have "r = Some len" "b' = b1" "st' = st1"
        using less.prems(3) wr False by (subst (asm) fixBa_loop.simps, simp)+
      then show ?thesis using d True False by (intro exI [of _ 0]) simp
    next
      case pos: False
      obtain k where m: "int n - len = int k" "k < n" "n = nat len + k" "n < 2 ^ 64 \<longrightarrow> (int n - len) mod 2 ^ 64 = int k"
        by (rule left_after [OF pos d [THEN conjunct1]])
      have "m_size b1 = m_size b" using d length_contents [of b1] length_contents [OF less.prems(1)] by simp
      then have size: "k \<le> getReadSize b1"
        using d m(3) less.prems(2) by (simp add: getReadSize_def)
      have "fixBa_loop wr st1 b1 (int k) = Some (Inr (r, b', st'))"
        using less.prems(3) wr False pos m(1) by (subst (asm) fixBa_loop.simps) simp
      then obtain j where j: "ba_inv b'" "contents b' = contents b1" "m_position b' = m_position b1 + j"
        "sent st' = sent st1 @ take j (drop (m_position b1) (contents b1))"
        "case r of None \<Rightarrow> j = k | Some len' \<Rightarrow> len' \<le> 0 \<and> j < k"
        using less.IH [OF m(2) _ size] d by blast
      have "sent st' = sent st @ take (nat len + j) (drop (m_position b) (contents b))"
        using j(4) d by (simp only: take_add drop_drop append_assoc add.commute [of "nat len" "m_position b"])
      then show ?thesis using j d m(3) by (intro exI [of _ "nat len + j"]) (simp split: option.splits)
    qed
  qed
qed

end

section \<open>The socket stream keeps the promises\<close>

lemma scatter_Nil: "scatter nodes vs [] = nodes"
  by (induction vs arbitrary: nodes) (simp_all split: prod.splits)

lemma do_io_retry_in:
  "do_io_retry h fd event to w cur as = Some (Inr (r, h')) \<Longrightarrow> r = -1 \<or> (\<exists>e. Sys r e \<in> set as)"
proof (induction h fd event to w cur as rule: do_io_retry.induct)
  case (3 h fd event to w cur n e as)
  then show ?case
    by (auto simp: Let_def do_io_unblock_def split: if_splits list.splits io_answer.splits sum.splits prod.splits
        bool.splits option.splits)
qed simp_all

lemma do_io_in:
  "do_io h fd event so w cur as = Some (Inr (r, h')) \<Longrightarrow> r = -1 \<or> (\<exists>e. Sys r e \<in> set as)"
  using do_io_retry_in
  by (fastforce simp: do_io_def split: sum.splits io_entry.splits list.splits io_answer.splits)

definition io_call :: "(hook \<Rightarrow> socket \<Rightarrow> nat \<Rightarrow> nat \<Rightarrow> io_answer list \<Rightarrow> (int \<times> hook) run) \<Rightarrow> bool" where
  "io_call f \<longleftrightarrow> (\<forall>h s w cur as r h'. f h s w cur as = Some (Inr (r, h')) \<longrightarrow> r = -1 \<or> (\<exists>e. Sys r e \<in> set as))"

lemma io_calls:
  "io_call Socket_recv" "io_call Socket_recv_iov" "io_call Socket_send" "io_call Socket_send_iov"
  unfolding io_call_def Socket_recv_def Socket_recv_iov_def Socket_send_def Socket_send_iov_def
    recv_hook_def recvmsg_hook_def send_hook_def sendmsg_hook_def
  using do_io_in by (fastforce split: if_splits)+

lemma socket_call_bound:
  assumes "io_call f" "socket_call f l n = Some (Inr (r, l'))"
  shows "r \<le> int n \<and> ln_in l' = ln_in l \<and> ln_out l' = ln_out l"
proof -
  obtain s w cur as cs h where f: "f (ln_hook l) s w cur (map (at_most n) as) = Some (Inr (r, h))"
    "l' = l\<lparr>ln_hook := h, ln_calls := cs\<rparr>"
    using assms(2) by (auto simp: socket_call_def split: option.splits list.splits)
  have "r \<le> int n" if mem: "Sys r e \<in> at_most n ` set as" for e
  proof -
    obtain a where "Sys r e = at_most n a" using mem by blast
    then show ?thesis by (cases a) auto
  qed
  moreover have "r = -1 \<or> (\<exists>e. Sys r e \<in> at_most n ` set as)"
    using assms(1) f(1) unfolding io_call_def by fastforce
  ultimately show ?thesis using f(2) by auto
qed

interpretation ss: byte_source ss_read ln_in
proof
  fix l n len d l'
  assume r: "ss_read l n = Some (Inr (len, d, l'))"
  show "len \<le> int n \<and> length d = nat len \<and> ln_in l = d @ ln_in l'"
  proof (cases "ss_isConnected l")
    case True
    then obtain l1 where "socket_call Socket_recv l (min n (length (ln_in l))) = Some (Inr (len, l1))"
      "d = take (nat len) (ln_in l)" "l' = l1\<lparr>ln_in := drop (nat len) (ln_in l)\<rparr>"
      using r by (auto simp: ss_read_def)
    then show ?thesis using socket_call_bound [OF io_calls(1)] by fastforce
  qed (use r in \<open>auto simp: ss_read_def\<close>)
qed

interpretation ss: byte_sink ss_write ln_out
proof
  fix l bs len l'
  assume "ss_write l bs = Some (Inr (len, l'))"
  then show "len \<le> int (length bs) \<and> ln_out l' = ln_out l @ take (nat len) bs"
    using socket_call_bound [OF io_calls(3)] by (fastforce simp: ss_write_def split: if_splits)
qed

interpretation ss_ba: array_source ss_read_ba ln_in
proof
  fix b l n len b' l'
  assume inv: "ba_inv b" and r: "ss_read_ba l b n = Some (Inr (len, b', l'))"
  show "\<exists>d. len \<le> int n \<and> length d = nat len \<and> ln_in l = d @ ln_in l' \<and> ba.wrote b d b'"
  proof (cases "ss_isConnected l")
    case True
    obtain vs b1 where w: "getWriteBuffers b [] n = Inr (n, vs, b1)" "ba_inv b1" "contents b1 = contents b"
      "m_position b1 = m_position b" "m_position b1 + n \<le> m_capacity b1"
      "views (m_baseSize b1) (m_nodes b1) (m_position b1) n vs" "m_endian b1 = m_endian b"
      using getWriteBuffers_ok [OF inv, of "[]" n] by force
    have len: "iov_len vs = n" using w(6) by (simp add: views_def)
    obtain l1 where c: "socket_call Socket_recv_iov l (min n (length (ln_in l))) = Some (Inr (len, l1))"
      using r True w(1) len by (auto simp: ss_read_ba_def Let_def split: if_splits)
    define d where "d = take (nat len) (ln_in l)"
    have bound: "len \<le> int n" "length d = nat len"
      using socket_call_bound [OF io_calls(2) c] by (auto simp: d_def)
    then have dn: "length d \<le> n" by linarith
    obtain b2 where b2: "setPosition (b1\<lparr>m_nodes := scatter (m_nodes b1) vs d\<rparr>) (m_position b1 + length d) = Inr b2"
      "ba.wrote b d b2"
      using scatter_commit [OF w(2,6,5) dn] inv w(3,4,7) by (auto simp: ba.wrote_def)
    show ?thesis
    proof (cases "len > 0")
      case True
      then have "b' = b2" "ln_in l' = drop (nat len) (ln_in l)"
        using r \<open>ss_isConnected l\<close> w(1) len c b2(1) bound(2) by (auto simp: ss_read_ba_def Let_def d_def [symmetric])
      then show ?thesis using bound b2 by (intro exI [of _ d]) (simp add: d_def)
    next
      case False
      then have "d = []" by (simp add: d_def)
      moreover have "scatter (m_nodes b1) vs [] = m_nodes b1" by (simp add: scatter_Nil)
      ultimately have "b' = b1" "ln_in l' = ln_in l"
        using r \<open>ss_isConnected l\<close> w(1) len c False by (auto simp: ss_read_ba_def Let_def d_def [symmetric])
      then show ?thesis using w inv bound(1) False by (intro exI [of _ "[]"]) (simp add: ba.wrote_def)
    qed
  qed (use inv r in \<open>auto simp: ss_read_ba_def ba.wrote_Nil intro!: exI [of _ "[]"]\<close>)
qed

interpretation ss_ba: array_sink ss_write_ba ln_out
proof
  fix b n l len b' l'
  assume inv: "ba_inv b" and n: "n \<le> getReadSize b" and r: "ss_write_ba l b n = Some (Inr (len, b', l'))"
  show "len \<le> int n \<and> ba_inv b' \<and> contents b' = contents b \<and> m_position b' = m_position b + nat len \<and>
    ln_out l' = ln_out l @ take (nat len) (drop (m_position b) (contents b))"
  proof (cases "ss_isConnected l")
    case True
    obtain vs b1 where w: "getWriteBuffers b [] n = Inr (n, vs, b1)" "ba_inv b1" "contents b1 = contents b"
      "m_position b1 = m_position b" "m_size b1 = m_size b" "views (m_baseSize b1) (m_nodes b1) (m_position b1) n vs"
      using getWriteBuffers_ok [OF inv, of "[]" n] by force
    have len: "iov_len vs = n" using w(6) by (simp add: views_def)
    obtain l1 where c: "socket_call Socket_send_iov l n = Some (Inr (len, l1))"
      "ln_out l' = ln_out l @ take (nat len) (gather (m_nodes b1) vs)"
      using r True w(1) len by (auto simp: ss_write_ba_def Let_def split: if_splits)
    have bound: "len \<le> int n" using socket_call_bound [OF io_calls(4) c(1)] by simp
    have "m_position b \<le> m_size b" using inv by (simp add: ba_inv_def)
    then have room: "m_position b + n \<le> m_size b" using n by (simp add: getReadSize_def)
    have "gather (m_nodes b1) vs = take n (drop (m_position b) (contents b))"
    proof -
      have "n \<le> m_size b1 - m_position b1" using room w(4,5) by linarith
      then have "take n (drop (m_position b1) (contents b1)) = take n (drop (m_position b1) (concat (m_nodes b1)))"
        by (simp add: contents_def drop_take min_absorb1)
      then show ?thesis using w(3,4,6) by (simp add: views_def)
    qed
    then have out: "ln_out l' = ln_out l @ take (nat len) (drop (m_position b) (contents b))"
      using c(2) bound by (simp add: min_absorb1)
    have "m_position b1 + nat len \<le> m_size b1" using room bound w(4,5) by linarith
    then obtain b2 where "setPosition b1 (m_position b1 + nat len) = Inr b2" "ba_inv b2" "contents b2 = contents b1"
      "m_position b2 = m_position b1 + nat len"
      using seek_back [OF w(2)] by blast
    then show ?thesis
      using r True w len c(1) bound out by (cases "len > 0") (auto simp: ss_write_ba_def Let_def)
  qed (use inv r in \<open>auto simp: ss_write_ba_def\<close>)
qed

section \<open>Calls that return\<close>

text \<open>
  The kernel answers a call in full: interrupted calls are repeated, calls that would block are
  resumed, and in the end there is a result.
\<close>

fun answered :: "io_answer list \<Rightarrow> bool" where
  "answered (Sys n e # as) =
    (if n = -1 \<and> e = EINTR then answered as
     else if n = -1 \<and> e = EAGAIN then
       (case as of Block now a rt h # as' \<Rightarrow> answered as' | _ \<Rightarrow> False)
     else True)"
| "answered _ = False"

lemma answered_retry: "answered as \<Longrightarrow> do_io_retry h fd event to w cur as \<noteq> None"
proof (induction h fd event to w cur as rule: do_io_retry.induct)
  case (3 h fd event to w cur n e as)
  then show ?case
    by (auto simp: Let_def split: if_splits list.splits io_answer.splits sum.splits prod.splits
        bool.splits option.splits)
qed simp_all

lemma answered_do_io:
  assumes "answered as"
  shows "do_io h fd event so w cur as \<noteq> None"
proof -
  obtain n e as' where "as = Sys n e # as'" using assms by (cases as rule: answered.cases) auto
  then show ?thesis
    using answered_retry [OF assms] by (auto simp: do_io_def simp del: do_io_retry.simps split: sum.splits io_entry.splits)
qed

lemma answered_at_most [simp]: "answered (map (at_most n) as) = answered as"
proof (induction as rule: answered.induct)
  case (1 n' e as)
  show ?case
  proof (cases "n' = -1")
    case True
    then show ?thesis using 1 by (auto split: list.splits io_answer.splits)
  next
    case False
    then have "min n' (int n) \<noteq> -1" by (auto simp: min_def)
    then show ?thesis using False by simp
  qed
qed simp_all

definition ready :: "nat \<Rightarrow> link \<Rightarrow> bool" where
  "ready k l \<longleftrightarrow> ln_socket l \<noteq> None \<and> k \<le> length (ln_calls l) \<and> (\<forall>(w, cur, as) \<in> set (ln_calls l). answered as)"

lemma socket_call_ready:
  assumes "ready (Suc k) l" "f = Socket_recv \<or> f = Socket_send \<or> f = Socket_recv_iov \<or> f = Socket_send_iov"
  shows "\<exists>x. socket_call f l n = Some x \<and> (\<forall>r l'. x = Inr (r, l') \<longrightarrow> ready k l')"
proof -
  obtain s w cur as cs where l: "ln_socket l = Some s" "ln_calls l = (w, cur, as) # cs" "answered as"
    using assms(1) by (cases "ln_calls l") (auto simp: ready_def)
  have "f h s w cur as' \<noteq> None" if "answered as'" for h as'
    using assms(2) answered_do_io [OF that]
    by (auto simp: Socket_recv_def Socket_recv_iov_def Socket_send_def Socket_send_iov_def
        recv_hook_def recvmsg_hook_def send_hook_def sendmsg_hook_def)
  then obtain x where "f (ln_hook l) s w cur (map (at_most n) as) = Some x" using l(3) by fastforce
  then show ?thesis
    using l assms(1) by (cases x) (auto simp: socket_call_def ready_def)
qed

lemma ready_upd [simp]:
  "ready k (l\<lparr>ln_in := d\<rparr>) = ready k l" "ready k (l\<lparr>ln_out := d\<rparr>) = ready k l"
  by (simp_all add: ready_def)

lemma ready_Suc: "ready (Suc k) l \<Longrightarrow> ready k l"
  by (simp add: ready_def)

lemma ss_read_ready:
  "ready (Suc k) l \<Longrightarrow> \<exists>x. ss_read l n = Some x \<and> (\<forall>r d l'. x = Inr (r, d, l') \<longrightarrow> ready k l')"
  using socket_call_ready [of k l Socket_recv "min n (length (ln_in l))"] ready_Suc [of k l]
  by (auto simp: ss_read_def bindR_def split: option.splits sum.splits)

lemma ss_write_ready:
  "ready (Suc k) l \<Longrightarrow> \<exists>x. ss_write l bs = Some x \<and> (\<forall>r l'. x = Inr (r, l') \<longrightarrow> ready k l')"
  using socket_call_ready [of k l Socket_send "length bs"] ready_Suc [of k l]
  by (auto simp: ss_write_def bindR_def split: option.splits sum.splits)

lemma ss_read_ba_ready:
  assumes "ready (Suc k) l"
  shows "\<exists>x. ss_read_ba l b n = Some x \<and> (\<forall>r b' l'. x = Inr (r, b', l') \<longrightarrow> ready k l')"
proof (cases "ss_isConnected l")
  case True
  show ?thesis
  proof (cases "getWriteBuffers b [] n")
    case (Inr y)
    obtain m vs b1 where y: "y = (m, vs, b1)" by (cases y)
    obtain x where "socket_call Socket_recv_iov l (min (iov_len vs) (length (ln_in l))) = Some x" "\<And>r l'. x = Inr (r, l') \<Longrightarrow> ready k l'"
      using socket_call_ready [OF assms, of Socket_recv_iov] by blast
    then show ?thesis
      using True Inr y by (cases x) (auto simp: ss_read_ba_def Let_def)
  qed (use True in \<open>simp add: ss_read_ba_def\<close>)
qed (use ready_Suc [OF assms] in \<open>simp add: ss_read_ba_def\<close>)

lemma ss_write_ba_ready:
  assumes "ready (Suc k) l"
  shows "\<exists>x. ss_write_ba l b n = Some x \<and> (\<forall>r b' l'. x = Inr (r, b', l') \<longrightarrow> ready k l')"
proof (cases "ss_isConnected l")
  case True
  show ?thesis
  proof (cases "getWriteBuffers b [] n")
    case (Inr y)
    obtain m vs b1 where y: "y = (m, vs, b1)" by (cases y)
    obtain x where "socket_call Socket_send_iov l (iov_len vs) = Some x" "\<And>r l'. x = Inr (r, l') \<Longrightarrow> ready k l'"
      using socket_call_ready [OF assms, of Socket_send_iov] by blast
    then show ?thesis
      using True Inr y by (cases x) (auto simp: ss_write_ba_def Let_def)
  qed (use True in \<open>simp add: ss_write_ba_def\<close>)
qed (use ready_Suc [OF assms] in \<open>simp add: ss_write_ba_def\<close>)

lemma fixBa_returns:
  assumes "n \<le> k" "ready k l"
    "\<And>j l b m. ready (Suc j) l \<Longrightarrow> \<exists>x. io l b m = Some x \<and> (\<forall>len b' l'. x = Inr (len, b', l') \<longrightarrow> ready j l')"
  shows "left \<le> int n \<Longrightarrow> fixBa_loop io l b left \<noteq> None"
  using assms(1,2)
proof (induction n arbitrary: k l b left)
  case 0
  then show ?case by (subst fixBa_loop.simps) simp
next
  case (Suc n)
  then obtain j where j: "k = Suc j" by (cases k) auto
  obtain x where x: "io l b (nat left) = Some x" "\<And>len b' l'. x = Inr (len, b', l') \<Longrightarrow> ready j l'"
    using assms(3) [of j l b "nat left"] Suc.prems(3) j by auto
  have "fixBa_loop io l' b' (left - len) \<noteq> None" if "x = Inr (len, b', l')" "0 < len" for len b' l'
    using Suc.IH [of "left - len" j l' b'] Suc.prems x(2) that j by auto
  then show ?case using x(1) by (subst fixBa_loop.simps) (auto split: sum.splits)
qed

section \<open>Properties\<close>

text \<open>
  C21: Transfers of a fixed size over a socket. When the kernel answers every call, \<open>readFixSize\<close> and
  \<open>writeFixSize\<close> return: a read either delivers exactly the next \<open>n\<close> bytes the peer sent, in order, or fails
  with the value of the call that failed, and then the bytes taken from the connection are still the
  next ones, fewer than \<open>n\<close>; a write sends exactly its buffer, or a proper prefix of it and fails. (\<open>n\<close> fits the
  \<^verbatim>\<open>int\<close> that is returned.)
\<close>

theorem stream_fixed_transfer:
  assumes "n < 2 ^ 31" "length bs < 2 ^ 31" "ready (max n (length bs)) l"
  shows "(\<exists>x. readFixSize ss_read l n = Some x \<and> (\<forall>r d l'. x = Inr (r, d, l') \<longrightarrow>
      ln_in l = d @ ln_in l' \<and> (r = int n \<and> length d = n \<or> r \<le> 0 \<and> length d < n))) \<and>
    (\<exists>x. writeFixSize ss_write l bs = Some x \<and> (\<forall>r l'. x = Inr (r, l') \<longrightarrow>
      (\<exists>k. ln_out l' = ln_out l @ take k bs \<and>
        (r = int (length bs) \<and> k = length bs \<or> r \<le> 0 \<and> k < length bs))))"
proof -
  have n64: "n < 2 ^ 64" using assms(1) by simp
  have "readFix_loop ss_read l (int n) [] \<noteq> None"
    using ss.readFix_loop_returns [of n _ ready, OF n64 _ assms(3)] ss_read_ready by auto
  then obtain x where x: "readFix_loop ss_read l (int n) [] = Some x" by auto
  have "writeFix_loop ss_write l bs 0 (int (length bs)) \<noteq> None"
    using ss.writeFix_loop_returns [of 0 "length bs" bs _ ready, OF _ _ assms(3)] ss_write_ready by auto
  then obtain y where y: "writeFix_loop ss_write l bs 0 (int (length bs)) = Some y" by auto
  have "\<exists>k. ln_out l' = ln_out l @ take k bs \<and>
      (fix_result (length bs) r = int (length bs) \<and> k = length bs \<or> fix_result (length bs) r \<le> 0 \<and> k < length bs)"
    if "y = Inr (r, l')" for r l'
    using ss.writeFix_loop_prefix [OF _ y [unfolded that]] int_of_size_small [OF assms(2)]
    by (fastforce simp: fix_result_def split: option.splits)
  then have w: "\<exists>x. writeFixSize ss_write l bs = Some x \<and> (\<forall>r l'. x = Inr (r, l') \<longrightarrow>
      (\<exists>k. ln_out l' = ln_out l @ take k bs \<and>
        (r = int (length bs) \<and> k = length bs \<or> r \<le> 0 \<and> k < length bs)))"
    using y by (cases y) (auto simp: writeFixSize_def)
  have "ln_in l = d @ ln_in l' \<and> (fix_result n r = int n \<and> length d = n \<or> fix_result n r \<le> 0 \<and> length d < n)"
    if "x = Inr (r, d, l')" for r d l'
    using ss.readFix_loop_next [OF n64 x [unfolded that]] int_of_size_small [OF assms(1)]
    by (auto simp: fix_result_def split: option.splits)
  then show ?thesis
    using x w by (cases x) (auto simp: readFixSize_def)
qed


text \<open>A connected socket on a thread without hooks, three coming calls of two bytes each.\<close>

definition example_link :: link where
  "example_link =
    (SocketStream \<lparr>t_hook_enable = False, s_connect_timeout = 5000, hk_fds = FdManager, hk_flags = (\<lambda>_. 0),
       hk_iom = None, hk_tinfo = (\<lambda>_. None), hk_errno = 0\<rparr>
      (Some ((Socket 2 1 0)\<lparr>m_sock := 7, m_isConnect := True\<rparr>)) True)
    \<lparr>ln_calls := replicate 3 (0, 0, [Sys 2 0]), ln_in := [1, 2, 3, 4]\<rparr>"

lemma example_ready: "ready 3 example_link"
  by (simp add: example_link_def ready_def SocketStream_def)

theorem stream_fixed_transfer_witness:
  "(\<exists>x. readFixSize ss_read example_link 3 = Some x) \<and> (\<exists>y. writeFixSize ss_write example_link [5, 6, 7] = Some y)"
  using stream_fixed_transfer [of 3 "[5, 6, 7]" example_link] example_ready by (auto simp: numeral_3_eq_3)


text \<open>
  Asked for more than the readable bytes, \<open>write\<close> of an array sends bytes that were never written to it
  and makes them part of the array.
\<close>

theorem write_ba_garbage:
  assumes "ba_inv b" "getReadSize b < n" "ss_write_ba l b n = Some (Inr (int n, b', l'))"
  shows "length (ln_out l') = length (ln_out l) + n \<and> m_size b < m_size b'"
proof -
  have pos: "m_position b \<le> m_size b" using assms(1) by (simp add: ba_inv_def)
  obtain vs b1 where w: "getWriteBuffers b [] n = Inr (n, vs, b1)" "m_position b1 = m_position b" "m_size b1 = m_size b"
    "m_position b + n \<le> m_capacity b1" "ba_inv b1" "views (m_baseSize b1) (m_nodes b1) (m_position b) n vs"
    using getWriteBuffers_ok [OF assms(1), of "[]" n] by force
  have con: "ss_isConnected l" using assms(3) by (auto simp: ss_write_ba_def split: if_splits)
  then obtain l1 where c: "socket_call Socket_send_iov l (iov_len vs) = Some (Inr (int n, l1))"
    "l' = l1\<lparr>ln_out := ln_out l @ take n (gather (m_nodes b1) vs)\<rparr>" "setPosition b1 (m_position b + n) = Inr b'"
    using assms(2,3) w by (auto simp: ss_write_ba_def Let_def split: if_splits)
  have "length (gather (m_nodes b1) vs) = n"
  proof -
    have "length (concat (m_nodes b1)) = m_capacity b1" using w(5) by (simp add: ba_inv_def)
    then show ?thesis using w(4,6) by (simp add: views_def)
  qed
  moreover have "m_size b' = max (m_size b) (m_position b + n)"
    using c(3) w(3) by (auto simp: setPosition_def Let_def split: if_splits)
  ultimately show ?thesis using c(2) assms(2) pos by (simp add: getReadSize_def)
qed

section \<open>One call is enough\<close>

text \<open>On a thread without hooks a connected socket passes each call to the kernel; if that moves everything, the transfer is done.\<close>

definition direct :: "link \<Rightarrow> nat \<Rightarrow> bool" where
  "direct l n \<longleftrightarrow> ss_isConnected l \<and> \<not> t_hook_enable (ln_hook l) \<and> (\<exists>w cur cs. ln_calls l = (w, cur, [Sys (int n) 0]) # cs)"

lemma direct_call:
  assumes "direct l n" "f = Socket_recv_iov \<or> f = Socket_send_iov"
  shows "\<exists>l'. socket_call f l n = Some (Inr (int n, l'))"
proof -
  obtain s where "ln_socket l = Some s" "isConnected s"
    using assms(1) by (auto simp: direct_def ss_isConnected_def split: option.splits)
  then show ?thesis
    using assms
    by (auto simp: direct_def socket_call_def Socket_recv_iov_def Socket_send_iov_def recvmsg_hook_def sendmsg_hook_def
        do_io_def do_io_enter_def returned_def)
qed

lemma fixBa_once:
  assumes "0 < n" "io l b n = Some (Inr (int n, b', l'))"
  shows "fixBa_loop io l b (int n) = Some (Inr (None, b', l'))"
proof -
  have "fixBa_loop io l' b' 0 = Some (Inr (None, b', l'))" by (subst fixBa_loop.simps) simp
  then show ?thesis using assms by (subst fixBa_loop.simps) simp
qed

lemma direct_write:
  assumes "ba_inv b" "direct l n" "0 < n" "n < 2 ^ 31"
  shows "\<exists>b' l'. writeFixSize_ba ss_write_ba l b n = Some (Inr (int n, b', l'))"
proof -
  obtain vs b1 where w: "getWriteBuffers b [] n = Inr (n, vs, b1)" "m_position b1 + n \<le> m_capacity b1" "ba_inv b1" "iov_len vs = n"
    using getWriteBuffers_ok [OF assms(1), of "[]" n] by (force simp: views_def)
  obtain l1 where l1: "socket_call Socket_send_iov l n = Some (Inr (int n, l1))"
    using direct_call [OF assms(2)] by blast
  obtain b2 where "setPosition b1 (m_position b1 + n) = Inr b2"
    using setPosition_correct [OF w(3,2)] by blast
  then obtain l2 where "ss_write_ba l b n = Some (Inr (int n, b2, l2))"
    using assms(2,3) w(1,4) l1 by (simp add: ss_write_ba_def direct_def Let_def)
  note once = fixBa_once [of n ss_write_ba l b, OF assms(3) this]
  show ?thesis
    using int_of_size_small [OF assms(4)] by (simp add: writeFixSize_ba_def fix_result_def once)
qed

lemma direct_read:
  assumes "ba_inv b" "direct l n" "0 < n" "n < 2 ^ 31" "n \<le> length (ln_in l)"
  shows "\<exists>b' l'. readFixSize_ba ss_read_ba l b n = Some (Inr (int n, b', l'))"
proof -
  obtain vs b1 where w: "getWriteBuffers b [] n = Inr (n, vs, b1)" "m_position b1 + n \<le> m_capacity b1" "ba_inv b1" "iov_len vs = n"
    "views (m_baseSize b1) (m_nodes b1) (m_position b1) n vs"
    using getWriteBuffers_ok [OF assms(1), of "[]" n] by (force simp: views_def)
  obtain l1 where l1: "socket_call Socket_recv_iov l n = Some (Inr (int n, l1))"
    using direct_call [OF assms(2)] by blast
  have "length (take n (ln_in l)) = n" using assms(5) by simp
  then obtain b2 where "setPosition (b1\<lparr>m_nodes := scatter (m_nodes b1) vs (take n (ln_in l))\<rparr>) (m_position b1 + n) = Inr b2"
    using scatter_commit [OF w(3,5,2), of "take n (ln_in l)"] by auto
  then obtain l2 where "ss_read_ba l b n = Some (Inr (int n, b2, l2))"
    using assms(2,3,5) w(1,4) l1 by (simp add: ss_read_ba_def direct_def Let_def min_absorb1)
  note once = fixBa_once [of n ss_read_ba l b, OF assms(3) this]
  show ?thesis
    using int_of_size_small [OF assms(4)] by (simp add: readFixSize_ba_def fix_result_def once)
qed

end
