(* ===== verification/Sylar_Http.thy ===== *)
theory Sylar_Http
  imports Sylar_Text
begin

text \<open>
  HTTP messages (\<^verbatim>\<open>sylar/http/http.h\<close>, \<^verbatim>\<open>sylar/http/http.cpp\<close>): methods and status codes, the
  case-insensitive maps of headers, parameters and cookies, requests and responses and their text.
  A status is its number, since any number can be cast to one. \<^verbatim>\<open>boost::lexical_cast\<close> is an argument:
  \<open>None\<close> when it throws.
\<close>

unbundle bit_operations_syntax

section \<open>Methods and status codes\<close>

datatype HttpMethod =
    DELETE | GET | HEAD | POST | PUT | CONNECT | OPTIONS | TRACE | COPY | LOCK | MKCOL
  | MOVE | PROPFIND | PROPPATCH | SEARCH | UNLOCK | BIND | REBIND | UNBIND | ACL
  | REPORT | MKACTIVITY | CHECKOUT | MERGE | MSEARCH | NOTIFY | SUBSCRIBE
  | UNSUBSCRIBE | PATCH | PURGE | MKCALENDAR | LINK | UNLINK | SOURCE
  | INVALID_METHOD

definition HTTP_METHOD_MAP :: "(nat \<times> HttpMethod \<times> string) list" where
  "HTTP_METHOD_MAP =
    [(0, DELETE, ''DELETE''), (1, GET, ''GET''), (2, HEAD, ''HEAD''), (3, POST, ''POST''),
     (4, PUT, ''PUT''), (5, CONNECT, ''CONNECT''), (6, OPTIONS, ''OPTIONS''),
     (7, TRACE, ''TRACE''), (8, COPY, ''COPY''), (9, LOCK, ''LOCK''), (10, MKCOL, ''MKCOL''),
     (11, MOVE, ''MOVE''), (12, PROPFIND, ''PROPFIND''), (13, PROPPATCH, ''PROPPATCH''),
     (14, SEARCH, ''SEARCH''), (15, UNLOCK, ''UNLOCK''), (16, BIND, ''BIND''),
     (17, REBIND, ''REBIND''), (18, UNBIND, ''UNBIND''), (19, ACL, ''ACL''),
     (20, REPORT, ''REPORT''), (21, MKACTIVITY, ''MKACTIVITY''), (22, CHECKOUT, ''CHECKOUT''),
     (23, MERGE, ''MERGE''), (24, MSEARCH, ''M - SEARCH''), (25, NOTIFY, ''NOTIFY''),
     (26, SUBSCRIBE, ''SUBSCRIBE''), (27, UNSUBSCRIBE, ''UNSUBSCRIBE''), (28, PATCH, ''PATCH''),
     (29, PURGE, ''PURGE''), (30, MKCALENDAR, ''MKCALENDAR''), (31, LINK, ''LINK''),
     (32, UNLINK, ''UNLINK''), (33, SOURCE, ''SOURCE'')]"

definition HTTP_STATUS_MAP :: "(int \<times> string) list" where
  "HTTP_STATUS_MAP =
    [(100, ''Continue''), (101, ''Switching Protocols''), (102, ''Processing''), (200, ''OK''),
     (201, ''Created''), (202, ''Accepted''), (203, ''Non - Authoritative Information''),
     (204, ''No Content''), (205, ''Reset Content''), (206, ''Partial Content''),
     (207, ''Multi - Status''), (208, ''Already Reported''), (226, ''IM Used''),
     (300, ''Multiple Choices''), (301, ''Moved Permanently''), (302, ''Found''),
     (303, ''See Other''), (304, ''Not Modified''), (305, ''Use Proxy''),
     (307, ''Temporary Redirect''), (308, ''Permanent Redirect''), (400, ''Bad Request''),
     (401, ''Unauthorized''), (402, ''Payment Required''), (403, ''Forbidden''),
     (404, ''Not Found''), (405, ''Method Not Allowed''), (406, ''Not Acceptable''),
     (407, ''Proxy Authentication Required''), (408, ''Request Timeout''), (409, ''Conflict''),
     (410, ''Gone''), (411, ''Length Required''), (412, ''Precondition Failed''),
     (413, ''Payload Too Large''), (414, ''URI Too Long''), (415, ''Unsupported Media Type''),
     (416, ''Range Not Satisfiable''), (417, ''Expectation Failed''),
     (421, ''Misdirected Request''), (422, ''Unprocessable Entity''), (423, ''Locked''),
     (424, ''Failed Dependency''), (426, ''Upgrade Required''),
     (428, ''Precondition Required''), (429, ''Too Many Requests''),
     (431, ''Request Header Fields Too Large''), (451, ''Unavailable For Legal Reasons''),
     (500, ''Internal Server Error''), (501, ''Not Implemented''), (502, ''Bad Gateway''),
     (503, ''Service Unavailable''), (504, ''Gateway Timeout''),
     (505, ''HTTP Version Not Supported''), (506, ''Variant Also Negotiates''),
     (507, ''Insufficient Storage''), (508, ''Loop Detected''), (510, ''Not Extended''),
     (511, ''Network Authentication Required'')]"

abbreviation OK :: int where "OK \<equiv> 200"
abbreviation FOUND :: int where "FOUND \<equiv> 302"
abbreviation NOT_FOUND :: int where "NOT_FOUND \<equiv> 404"

definition StringToHttpMethod :: "string \<Rightarrow> HttpMethod" where
  "StringToHttpMethod m =
    (case find (\<lambda>(num, name, str). str = cstr m) HTTP_METHOD_MAP of
       Some (num, name, str) \<Rightarrow> name | None \<Rightarrow> INVALID_METHOD)"

text \<open>The argument is the memory from the pointer on; only as much as each name is compared.\<close>

definition CharsToHttpMethod :: "string \<Rightarrow> HttpMethod" where
  "CharsToHttpMethod m =
    (case find (\<lambda>(num, name, str). take (length str) m = str) HTTP_METHOD_MAP of
       Some (num, name, str) \<Rightarrow> name | None \<Rightarrow> INVALID_METHOD)"

definition s_method_string :: "string list" where
  "s_method_string = map (\<lambda>(num, name, str). str) HTTP_METHOD_MAP"

text \<open>The number of an enumerator: the last one follows those of the table.\<close>

definition method_num :: "HttpMethod \<Rightarrow> nat" where
  "method_num m =
    (case find (\<lambda>(num, name, str). name = m) HTTP_METHOD_MAP of
       Some (num, name, str) \<Rightarrow> num | None \<Rightarrow> length HTTP_METHOD_MAP)"

definition HttpMethodToString :: "HttpMethod \<Rightarrow> string res" where
  "HttpMethodToString m =
    (let idx = method_num m in
     if idx > length s_method_string then Inr ''<unknown>''
     else if idx < length s_method_string then Inr (s_method_string ! idx)
     else Inl Out_of_bounds)"

definition HttpStatusToString :: "int \<Rightarrow> string" where
  "HttpStatusToString s = (case map_of HTTP_STATUS_MAP s of Some msg \<Rightarrow> msg | None \<Rightarrow> ''<unknown>'')"

section \<open>Maps of header fields\<close>

definition CaseInsensitiveLess :: "string \<Rightarrow> string \<Rightarrow> bool" where
  "CaseInsensitiveLess lhs rhs = lex_less (\<lambda>c. of_char (tolower c)) (cstr lhs) (cstr rhs)"

text \<open>\<^verbatim>\<open>strcasecmp(lhs, rhs) == 0\<close>\<close>

definition same_key :: "string \<Rightarrow> string \<Rightarrow> bool" where
  "same_key lhs rhs \<longleftrightarrow> map tolower (cstr lhs) = map tolower (cstr rhs)"

type_synonym MapType = "(string \<times> string) list"

definition checkGetAs :: "(string \<Rightarrow> 'a option) \<Rightarrow> MapType \<Rightarrow> string \<Rightarrow> 'a \<Rightarrow> bool \<times> 'a" where
  "checkGetAs cast m key d =
    (case omap_get CaseInsensitiveLess key m of
       None \<Rightarrow> (False, d)
     | Some s \<Rightarrow> (case cast s of Some v \<Rightarrow> (True, v) | None \<Rightarrow> (False, d)))"

definition getAs :: "(string \<Rightarrow> 'a option) \<Rightarrow> MapType \<Rightarrow> string \<Rightarrow> 'a \<Rightarrow> 'a" where
  "getAs cast m key d =
    (case omap_get CaseInsensitiveLess key m of
       None \<Rightarrow> d
     | Some s \<Rightarrow> (case cast s of Some v \<Rightarrow> v | None \<Rightarrow> d))"

section \<open>Requests\<close>

record HttpRequest =
  rq_method :: HttpMethod
  rq_version :: u8
  rq_close :: bool
  rq_websocket :: bool
  rq_path :: string
  rq_query :: string
  rq_fragment :: string
  rq_body :: string
  rq_headers :: MapType
  rq_params :: MapType
  rq_cookies :: MapType

definition new_HttpRequest :: "u8 \<Rightarrow> bool \<Rightarrow> HttpRequest" where
  "new_HttpRequest version close =
    \<lparr>rq_method = GET, rq_version = version, rq_close = close, rq_websocket = False, rq_path = ''/'',
     rq_query = [], rq_fragment = [], rq_body = [], rq_headers = [], rq_params = [], rq_cookies = []\<rparr>"

definition setMethod :: "HttpRequest \<Rightarrow> HttpMethod \<Rightarrow> HttpRequest" where "setMethod r v = r\<lparr>rq_method := v\<rparr>"
definition setVersion :: "HttpRequest \<Rightarrow> u8 \<Rightarrow> HttpRequest" where "setVersion r v = r\<lparr>rq_version := v\<rparr>"
definition setPath :: "HttpRequest \<Rightarrow> string \<Rightarrow> HttpRequest" where "setPath r v = r\<lparr>rq_path := v\<rparr>"
definition setQuery :: "HttpRequest \<Rightarrow> string \<Rightarrow> HttpRequest" where "setQuery r v = r\<lparr>rq_query := v\<rparr>"
definition setFragment :: "HttpRequest \<Rightarrow> string \<Rightarrow> HttpRequest" where "setFragment r v = r\<lparr>rq_fragment := v\<rparr>"
definition setBody :: "HttpRequest \<Rightarrow> string \<Rightarrow> HttpRequest" where "setBody r v = r\<lparr>rq_body := v\<rparr>"
definition setClose :: "HttpRequest \<Rightarrow> bool \<Rightarrow> HttpRequest" where "setClose r v = r\<lparr>rq_close := v\<rparr>"
definition setWebsocket :: "HttpRequest \<Rightarrow> bool \<Rightarrow> HttpRequest" where "setWebsocket r v = r\<lparr>rq_websocket := v\<rparr>"
definition setHeaders :: "HttpRequest \<Rightarrow> MapType \<Rightarrow> HttpRequest" where "setHeaders r v = r\<lparr>rq_headers := v\<rparr>"
definition setParams :: "HttpRequest \<Rightarrow> MapType \<Rightarrow> HttpRequest" where "setParams r v = r\<lparr>rq_params := v\<rparr>"
definition setCookies :: "HttpRequest \<Rightarrow> MapType \<Rightarrow> HttpRequest" where "setCookies r v = r\<lparr>rq_cookies := v\<rparr>"

text \<open>The value of a key, or a default.\<close>

definition getHeader :: "HttpRequest \<Rightarrow> string \<Rightarrow> string \<Rightarrow> string" where
  "getHeader r key d = (case omap_get CaseInsensitiveLess key (rq_headers r) of None \<Rightarrow> d | Some v \<Rightarrow> v)"

definition getParam :: "HttpRequest \<Rightarrow> string \<Rightarrow> string \<Rightarrow> string" where
  "getParam r key d = (case omap_get CaseInsensitiveLess key (rq_params r) of None \<Rightarrow> d | Some v \<Rightarrow> v)"

definition getCookie :: "HttpRequest \<Rightarrow> string \<Rightarrow> string \<Rightarrow> string" where
  "getCookie r key d = (case omap_get CaseInsensitiveLess key (rq_cookies r) of None \<Rightarrow> d | Some v \<Rightarrow> v)"

definition setHeader :: "HttpRequest \<Rightarrow> string \<Rightarrow> string \<Rightarrow> HttpRequest" where
  "setHeader r key val = r\<lparr>rq_headers := omap_put CaseInsensitiveLess key val (rq_headers r)\<rparr>"

definition setParam :: "HttpRequest \<Rightarrow> string \<Rightarrow> string \<Rightarrow> HttpRequest" where
  "setParam r key val = r\<lparr>rq_params := omap_put CaseInsensitiveLess key val (rq_params r)\<rparr>"

definition setCookie :: "HttpRequest \<Rightarrow> string \<Rightarrow> string \<Rightarrow> HttpRequest" where
  "setCookie r key val = r\<lparr>rq_cookies := omap_put CaseInsensitiveLess key val (rq_cookies r)\<rparr>"

definition delHeader :: "HttpRequest \<Rightarrow> string \<Rightarrow> HttpRequest" where
  "delHeader r key = r\<lparr>rq_headers := omap_del CaseInsensitiveLess key (rq_headers r)\<rparr>"

definition delParam :: "HttpRequest \<Rightarrow> string \<Rightarrow> HttpRequest" where
  "delParam r key = r\<lparr>rq_params := omap_del CaseInsensitiveLess key (rq_params r)\<rparr>"

definition delCookie :: "HttpRequest \<Rightarrow> string \<Rightarrow> HttpRequest" where
  "delCookie r key = r\<lparr>rq_cookies := omap_del CaseInsensitiveLess key (rq_cookies r)\<rparr>"

text \<open>Whether a key is present, and its value.\<close>

definition hasHeader :: "HttpRequest \<Rightarrow> string \<Rightarrow> string option" where
  "hasHeader r key = omap_get CaseInsensitiveLess key (rq_headers r)"

definition hasParam :: "HttpRequest \<Rightarrow> string \<Rightarrow> string option" where
  "hasParam r key = omap_get CaseInsensitiveLess key (rq_params r)"

definition hasCookie :: "HttpRequest \<Rightarrow> string \<Rightarrow> string option" where
  "hasCookie r key = omap_get CaseInsensitiveLess key (rq_cookies r)"

definition checkGetHeaderAs where "checkGetHeaderAs cast r key d = checkGetAs cast (rq_headers r) key d"
definition getHeaderAs where "getHeaderAs cast r key d = getAs cast (rq_headers r) key d"
definition checkGetParamAs where "checkGetParamAs cast r key d = checkGetAs cast (rq_params r) key d"
definition getParamAs where "getParamAs cast r key d = getAs cast (rq_params r) key d"
definition checkGetCookieAs where "checkGetCookieAs cast r key d = checkGetAs cast (rq_cookies r) key d"
definition getCookieAs where "getCookieAs cast r key d = getAs cast (rq_cookies r) key d"

definition rq_init :: "HttpRequest \<Rightarrow> HttpRequest" where
  "rq_init r =
    (let conn = getHeader r ''connection'' '''' in
     if conn \<noteq> [] then r\<lparr>rq_close := \<not> same_key conn ''keep-alive''\<rparr> else r)"

text \<open>The text of a message. A header named \<open>connection\<close> gives way to the flag.\<close>

definition CRLF :: string where "CRLF = [CHR 0x0D, CHR 0x0A]"

definition connection_line :: "bool \<Rightarrow> string" where
  "connection_line close = ''connection: '' @ (if close then ''close'' else ''keep-alive'')"

definition dumped_headers :: "bool \<Rightarrow> MapType \<Rightarrow> MapType" where
  "dumped_headers websocket m = filter (\<lambda>(k, v). \<not> (\<not> websocket \<and> same_key k ''connection'')) m"

definition dump_body :: "string \<Rightarrow> string" where
  "dump_body body =
    (if body \<noteq> [] then ''content-length: '' @ dec (length body) @ CRLF @ CRLF @ body else CRLF)"

definition rq_dump :: "HttpRequest \<Rightarrow> string res" where
  "rq_dump r =
    bindE (HttpMethodToString (rq_method r)) (\<lambda>mtext.
      Inr (mtext @ '' '' @ rq_path r @ (if rq_query r = [] then '''' else ''?'') @ rq_query r @
        (if rq_fragment r = [] then '''' else ''#'') @ rq_fragment r @ '' HTTP/'' @
        dec (unat (drop_bit 4 (rq_version r))) @ ''.'' @ dec (unat (rq_version r AND 0x0F)) @ CRLF @
        (if \<not> rq_websocket r then connection_line (rq_close r) @ CRLF else '''') @
        concat (map (\<lambda>(k, v). k @ '':'' @ v @ CRLF) (dumped_headers (rq_websocket r) (rq_headers r))) @
        dump_body (rq_body r)))"

section \<open>Responses\<close>

record HttpResponse =
  rs_status :: int
  rs_version :: u8
  rs_close :: bool
  rs_websocket :: bool
  rs_body :: string
  rs_reason :: string
  rs_headers :: MapType
  rs_cookies :: "string list"

definition new_HttpResponse :: "u8 \<Rightarrow> bool \<Rightarrow> HttpResponse" where
  "new_HttpResponse version close =
    \<lparr>rs_status = OK, rs_version = version, rs_close = close, rs_websocket = False, rs_body = [], rs_reason = [],
     rs_headers = [], rs_cookies = []\<rparr>"

definition createResponse :: "HttpRequest \<Rightarrow> HttpResponse" where
  "createResponse r = new_HttpResponse (rq_version r) (rq_close r)"

definition rs_setStatus :: "HttpResponse \<Rightarrow> int \<Rightarrow> HttpResponse" where "rs_setStatus r v = r\<lparr>rs_status := v\<rparr>"
definition rs_setVersion :: "HttpResponse \<Rightarrow> u8 \<Rightarrow> HttpResponse" where "rs_setVersion r v = r\<lparr>rs_version := v\<rparr>"
definition rs_setBody :: "HttpResponse \<Rightarrow> string \<Rightarrow> HttpResponse" where "rs_setBody r v = r\<lparr>rs_body := v\<rparr>"
definition rs_setReason :: "HttpResponse \<Rightarrow> string \<Rightarrow> HttpResponse" where "rs_setReason r v = r\<lparr>rs_reason := v\<rparr>"
definition rs_setHeaders :: "HttpResponse \<Rightarrow> MapType \<Rightarrow> HttpResponse" where "rs_setHeaders r v = r\<lparr>rs_headers := v\<rparr>"
definition rs_setClose :: "HttpResponse \<Rightarrow> bool \<Rightarrow> HttpResponse" where "rs_setClose r v = r\<lparr>rs_close := v\<rparr>"
definition rs_setWebsocket :: "HttpResponse \<Rightarrow> bool \<Rightarrow> HttpResponse" where "rs_setWebsocket r v = r\<lparr>rs_websocket := v\<rparr>"

definition rs_getHeader :: "HttpResponse \<Rightarrow> string \<Rightarrow> string \<Rightarrow> string" where
  "rs_getHeader r key d = (case omap_get CaseInsensitiveLess key (rs_headers r) of None \<Rightarrow> d | Some v \<Rightarrow> v)"

definition rs_setHeader :: "HttpResponse \<Rightarrow> string \<Rightarrow> string \<Rightarrow> HttpResponse" where
  "rs_setHeader r key val = r\<lparr>rs_headers := omap_put CaseInsensitiveLess key val (rs_headers r)\<rparr>"

definition rs_delHeader :: "HttpResponse \<Rightarrow> string \<Rightarrow> HttpResponse" where
  "rs_delHeader r key = r\<lparr>rs_headers := omap_del CaseInsensitiveLess key (rs_headers r)\<rparr>"

definition rs_checkGetHeaderAs where "rs_checkGetHeaderAs cast r key d = checkGetAs cast (rs_headers r) key d"
definition rs_getHeaderAs where "rs_getHeaderAs cast r key d = getAs cast (rs_headers r) key d"

definition setRedirect :: "HttpResponse \<Rightarrow> string \<Rightarrow> HttpResponse" where
  "setRedirect r uri = rs_setHeader (r\<lparr>rs_status := FOUND\<rparr>) ''Location'' uri"

text \<open>The status is printed as an unsigned 32-bit number.\<close>

definition rs_dump :: "HttpResponse \<Rightarrow> string" where
  "rs_dump r =
    ''HTTP/'' @ dec (unat (drop_bit 4 (rs_version r))) @ '','' @ dec (unat (rs_version r AND 0x0F)) @ '' '' @
    dec (nat (rs_status r mod 2 ^ 32)) @ '' '' @
    (if rs_reason r = [] then HttpStatusToString (rs_status r) else rs_reason r) @ CRLF @
    concat (map (\<lambda>(k, v). k @ '': '' @ v @ CRLF) (dumped_headers (rs_websocket r) (rs_headers r))) @
    concat (map (\<lambda>c. ''Set-Cookie: '' @ c @ CRLF) (rs_cookies r)) @
    (if \<not> rs_websocket r then connection_line (rs_close r) @ CRLF else '''') @
    dump_body (rs_body r)"

section \<open>Keys are compared without case\<close>

lemma tolower_inj: "of_char (tolower a) = (of_char (tolower b) :: nat) \<longleftrightarrow> tolower a = tolower b"
  by (simp add: of_char_eq_iff)

interpretation headers: strict_weak CaseInsensitiveLess
proof
  fix x y z
  show "\<not> CaseInsensitiveLess x x" by (simp add: CaseInsensitiveLess_def lex.lt_irrefl)
  show "CaseInsensitiveLess x y \<Longrightarrow> CaseInsensitiveLess y z \<Longrightarrow> CaseInsensitiveLess x z"
    unfolding CaseInsensitiveLess_def by (rule lex.lt_trans)
  show "CaseInsensitiveLess x z \<Longrightarrow> CaseInsensitiveLess x y \<or> CaseInsensitiveLess y z"
    unfolding CaseInsensitiveLess_def by (rule lex.lt_cotrans)
qed

lemma headers_eqv: "headers.eqv x y \<longleftrightarrow> same_key x y"
proof -
  have "map (\<lambda>c. of_char (tolower c) :: nat) xs = map (\<lambda>c. of_char (tolower c)) ys \<longleftrightarrow> map tolower xs = map tolower ys"
    for xs ys
    by (induction xs arbitrary: ys) (auto simp: map_eq_Cons_conv Cons_eq_map_conv tolower_inj)
  then show ?thesis
    using lex_eqv [of "\<lambda>c. of_char (tolower c)" "cstr x" "cstr y"]
    by (simp add: headers.eqv_def lex.eqv_def CaseInsensitiveLess_def same_key_def)
qed

section \<open>Reading the text of a message\<close>

text \<open>Lines up to an empty one, and what follows it.\<close>

fun read_line :: "string \<Rightarrow> string \<times> string" where
  "read_line (c # d # s) =
    (if c = CHR 0x0D \<and> d = CHR 0x0A then ([], s) else (let (l, r) = read_line (d # s) in (c # l, r)))"
| "read_line s = (s, [])"

lemma read_line_length: "snd (read_line s) \<noteq> [] \<Longrightarrow> length (snd (read_line s)) < length s"
  by (induction s rule: read_line.induct) (auto simp: Let_def split: prod.splits)

lemma read_line_less: "s \<noteq> [] \<Longrightarrow> length (snd (read_line s)) < length s"
  using read_line_length [of s] by (cases "snd (read_line s) = []") auto

function read_head :: "string \<Rightarrow> string list \<times> string" where
  "read_head s =
    (case read_line s of (l, r) \<Rightarrow>
       if l = [] then ([], r) else (case read_head r of (ls, b) \<Rightarrow> (l # ls, b)))"
  by auto
termination
proof (relation "measure length")
  fix s l r
  assume "(l, r) = read_line s" "l \<noteq> []"
  then show "(r, s) \<in> measure length"
    using read_line_less [of s] by (cases s) (auto dest: sym)
qed simp

declare read_head.simps [simp del]

lemma read_line_CRLF: "CHR 0x0D \<notin> set l \<Longrightarrow> read_line (l @ CRLF @ r) = (l, r)"
proof (induction l)
  case Nil
  then show ?case by (simp add: CRLF_def)
next
  case (Cons c l)
  then show ?case by (cases l) (auto simp: CRLF_def)
qed

lemma read_head_lines:
  "\<forall>l \<in> set ls. l \<noteq> [] \<and> CHR 0x0D \<notin> set l \<Longrightarrow> read_head (concat (map (\<lambda>l. l @ CRLF) ls) @ CRLF @ b) = (ls, b)"
proof (induction ls)
  case Nil
  then show ?case using read_line_CRLF [of "[]" b] by (subst read_head.simps) simp
next
  case (Cons l ls)
  then show ?case
    using read_line_CRLF [of l "concat (map (\<lambda>l. l @ CRLF) ls) @ CRLF @ b"]
    by (subst read_head.simps) simp
qed

text \<open>A line \<open>name:value\<close>.\<close>

definition read_field :: "string \<Rightarrow> string \<times> string" where
  "read_field l = (before (CHR '':'') l, drop (Suc (length (before (CHR '':'') l))) l)"

lemma read_field_line: "CHR '':'' \<notin> set k \<Longrightarrow> read_field (k @ '':'' @ v) = (k, v)"
  using before_append [of "CHR '':''" k v] by (simp add: read_field_def)

definition clean :: "string \<Rightarrow> bool" where
  "clean s \<longleftrightarrow> CHR 0x0D \<notin> set s"

definition clean_map :: "MapType \<Rightarrow> bool" where
  "clean_map m \<longleftrightarrow> (\<forall>(k, v) \<in> set m. clean k \<and> clean v \<and> CHR '':'' \<notin> set k)"

lemma clean_simps [simp]:
  "clean []" "clean (c # s) \<longleftrightarrow> c \<noteq> CHR 0x0D \<and> clean s" "clean (s @ t) \<longleftrightarrow> clean s \<and> clean t"
  by (auto simp: clean_def)

lemma clean_dec [simp]: "clean (dec n)"
proof -
  have "\<not> is_digit 10 (CHR 0x0D)"
  proof
    assume "is_digit 10 (CHR 0x0D)"
    then obtain d :: nat where d: "d < 10" "CHR 0x0D = char_of (48 + d)" by (auto simp: is_digit_def digit_def)
    have "of_char (CHR 0x0D) = (48 + d) mod 256" unfolding d(2) by (rule of_char_of)
    then show False using d(1) by simp
  qed
  then show ?thesis using show_nat_digits [of 10 "CHR 0x0D" n] by (auto simp: clean_def)
qed

lemma clean_connection [simp]: "clean (connection_line c)"
  by (simp add: connection_line_def)

lemma clean_method: "HttpMethodToString m = Inr s \<Longrightarrow> clean s"
  by (cases m) (auto simp: HttpMethodToString_def method_num_def s_method_string_def HTTP_METHOD_MAP_def Let_def)

definition body_lines :: "string \<Rightarrow> string list" where
  "body_lines body = (if body \<noteq> [] then [''content-length: '' @ dec (length body)] else [])"

lemma dump_body_lines: "dump_body body = concat (map (\<lambda>l. l @ CRLF) (body_lines body)) @ CRLF @ body"
  by (simp add: dump_body_def body_lines_def)

lemma http_method_total: "m \<noteq> INVALID_METHOD \<Longrightarrow> \<exists>s. HttpMethodToString m = Inr s"
  by (cases m) (simp_all add: HttpMethodToString_def method_num_def s_method_string_def HTTP_METHOD_MAP_def)

text \<open>The lines of the header fields.\<close>

definition field_lines :: "string \<Rightarrow> MapType \<Rightarrow> string list" where
  "field_lines sep m = map (\<lambda>(k, v). k @ sep @ v) m"

lemma clean_fields:
  assumes "clean_map m" "clean sep" "sep \<noteq> []" "l \<in> set (field_lines sep (dumped_headers w m))"
  shows "l \<noteq> [] \<and> clean l"
  using assms by (fastforce simp: clean_map_def dumped_headers_def field_lines_def)

lemma read_field_lines:
  assumes "clean_map m"
  shows "map read_field (field_lines ('':'' @ sep) (dumped_headers w m)) = map (\<lambda>(k, v). (k, sep @ v)) (dumped_headers w m)"
  using assms
  by (auto simp: field_lines_def dumped_headers_def clean_map_def intro!: read_field_line [simplified])

lemma concat_fields: "concat (map (\<lambda>(k, v). k @ sep @ v @ CRLF) m) = concat (map (\<lambda>l. l @ CRLF) (field_lines sep m))"
  by (simp add: field_lines_def comp_def case_prod_unfold)

lemma read_lines:
  assumes "\<forall>l \<in> set ls. l \<noteq> [] \<and> clean l"
  shows "read_head (concat (map (\<lambda>l. l @ CRLF) ls) @ CRLF @ b) = (ls, b)"
  using assms by (intro read_head_lines) (auto simp: clean_def)

definition request_line :: "HttpRequest \<Rightarrow> string \<Rightarrow> string" where
  "request_line r mtext = mtext @ '' '' @ rq_path r @ (if rq_query r = [] then [] else ''?'' @ rq_query r) @
    (if rq_fragment r = [] then [] else ''#'' @ rq_fragment r) @ '' HTTP/'' @
    dec (unat (drop_bit 4 (rq_version r))) @ ''.'' @ dec (unat (rq_version r AND 0x0F))"

definition clean_request :: "HttpRequest \<Rightarrow> bool" where
  "clean_request r \<longleftrightarrow> rq_method r \<noteq> INVALID_METHOD \<and> \<not> rq_websocket r \<and> clean (rq_path r) \<and> clean (rq_query r) \<and>
    clean (rq_fragment r) \<and> clean_map (rq_headers r)"

lemma request_read:
  assumes "clean_request r"
  shows "\<exists>mtext txt. HttpMethodToString (rq_method r) = Inr mtext \<and> rq_dump r = Inr txt \<and>
    read_head txt = ((request_line r mtext # connection_line (rq_close r) #
      field_lines '':'' (dumped_headers False (rq_headers r))) @ body_lines (rq_body r), rq_body r)"
proof -
  obtain mtext where m: "HttpMethodToString (rq_method r) = Inr mtext"
    using assms http_method_total by (auto simp: clean_request_def)
  let ?fs = "field_lines '':'' (dumped_headers False (rq_headers r))"
  let ?ls = "(request_line r mtext # connection_line (rq_close r) # ?fs) @ body_lines (rq_body r)"
  have "rq_dump r = Inr (concat (map (\<lambda>l. l @ CRLF) ?ls) @ CRLF @ rq_body r)"
    using m assms concat_fields [of "'':''"]
    by (simp add: rq_dump_def request_line_def dump_body_lines clean_request_def)
  moreover have "clean (request_line r mtext)" "request_line r mtext \<noteq> []" "connection_line (rq_close r) \<noteq> []"
    using assms clean_method [OF m] by (simp_all add: request_line_def connection_line_def clean_request_def)
  then have "\<forall>l \<in> set ?ls. l \<noteq> [] \<and> clean l"
    using assms clean_fields [of "rq_headers r" "'':''" _ False] by (auto simp: body_lines_def clean_request_def)
  ultimately show ?thesis using m read_lines [of ?ls "rq_body r"] by auto
qed

definition status_line :: "HttpResponse \<Rightarrow> string" where
  "status_line r = ''HTTP/'' @ dec (unat (drop_bit 4 (rs_version r))) @ '','' @ dec (unat (rs_version r AND 0x0F)) @ '' '' @
    dec (nat (rs_status r mod 2 ^ 32)) @ '' '' @ (if rs_reason r = [] then HttpStatusToString (rs_status r) else rs_reason r)"

definition clean_response :: "HttpResponse \<Rightarrow> bool" where
  "clean_response r \<longleftrightarrow> \<not> rs_websocket r \<and> clean (rs_reason r) \<and> clean_map (rs_headers r) \<and> (\<forall>c \<in> set (rs_cookies r). clean c)"

lemma clean_status: "clean (HttpStatusToString s)"
proof -
  have "\<forall>(c, m) \<in> set HTTP_STATUS_MAP. clean m" by (simp add: HTTP_STATUS_MAP_def)
  then show ?thesis by (auto simp: HttpStatusToString_def split: option.splits dest: map_of_SomeD)
qed

section \<open>Properties\<close>

text \<open>
  Headers, parameters and cookies are maps whose keys ignore case. From any map that is in order, as
  every one is that was built by these operations: after setting a key, exactly the keys equal to it up
  to case have the new value; after deleting it, exactly these are gone; and the maps stay in order.
\<close>

theorem http_headers_map:
  assumes "headers.okeys (rq_headers r)"
  shows "headers.okeys (rq_headers (new_HttpRequest v c)) \<and>
    headers.okeys (rq_headers (setHeader r k x)) \<and> headers.okeys (rq_headers (delHeader r k)) \<and>
    getHeader (setHeader r k x) k' d = (if same_key k' k then x else getHeader r k' d) \<and>
    getHeader (delHeader r k) k' d = (if same_key k' k then d else getHeader r k' d) \<and>
    hasHeader (setHeader r k x) k' = (if same_key k' k then Some x else hasHeader r k') \<and>
    (same_key k' k \<longrightarrow> getHeader r k' d = getHeader r k d)"
  using assms headers.omap_get_eqv [of k' k "rq_headers r"]
  by (simp add: new_HttpRequest_def setHeader_def delHeader_def getHeader_def hasHeader_def headers.okeys_put
      headers.okeys_del headers_eqv headers.omap_get_put [OF assms] headers.omap_get_del [OF assms])

theorem http_headers_map_witness:
  "getHeader (setHeader (setHeader (new_HttpRequest 0x11 True) ''Host'' ''a'') ''content-type'' ''b'') ''HOST'' [] = ''a''"
proof -
  have k: "same_key ''HOST'' ''Host''" "\<not> same_key ''HOST'' ''content-type''" by code_simp+
  have "headers.okeys (rq_headers (new_HttpRequest 0x11 True))" by (simp add: new_HttpRequest_def)
  note 1 = http_headers_map [OF this, where k = "''Host''" and x = "''a''" and k' = "''HOST''" and d = "[]"]
  then have "headers.okeys (rq_headers (setHeader (new_HttpRequest 0x11 True) ''Host'' ''a''))" by blast
  note 2 = http_headers_map [OF this, where k = "''content-type''" and x = "''b''" and k' = "''HOST''" and d = "[]"]
  from 1 2 k show ?thesis by simp
qed

text \<open>
  Method names round-trip: the name of every method is read back as that method, by
  \<open>StringToHttpMethod\<close> and at the front of any text by \<open>CharsToHttpMethod\<close> (which therefore also takes
  \<open>GETAWAY\<close> for \<open>GET\<close>). The name of the invalid method is read past the end of the table.
\<close>

theorem http_method_names:
  "(m \<noteq> INVALID_METHOD \<longrightarrow> (\<exists>s. HttpMethodToString m = Inr s \<and> StringToHttpMethod s = m \<and> CharsToHttpMethod (s @ rest) = m)) \<and>
   HttpMethodToString INVALID_METHOD = Inl Out_of_bounds"
proof -
  have "\<exists>s. HttpMethodToString m = Inr s \<and> StringToHttpMethod s = m \<and> CharsToHttpMethod (s @ rest) = m"
    if "m \<noteq> INVALID_METHOD"
    using that
    by (cases m) (simp_all add: HttpMethodToString_def StringToHttpMethod_def CharsToHttpMethod_def method_num_def
        s_method_string_def HTTP_METHOD_MAP_def cstr_def)
  moreover have "HttpMethodToString INVALID_METHOD = Inl Out_of_bounds"
    by (simp add: HttpMethodToString_def method_num_def s_method_string_def HTTP_METHOD_MAP_def)
  ultimately show ?thesis by blast
qed

theorem http_method_names_witness:
  "\<exists>s. HttpMethodToString GET = Inr s \<and> CharsToHttpMethod (s @ ''AWAY'') = GET"
  using http_method_names [of GET "''AWAY''"] by auto





text \<open>A request with a body and a \<open>content-length\<close> header of its own is sent with two such headers.\<close>

theorem content_length_twice:
  assumes "clean_request r" "rq_body r \<noteq> []" "(k, v) \<in> set (rq_headers r)" "same_key k ''content-length''"
  shows "\<exists>txt ls. rq_dump r = Inr txt \<and> read_head txt = (ls, rq_body r) \<and>
    2 \<le> length (filter (\<lambda>l. same_key (fst (read_field l)) ''content-length'') ls)"
proof -
  let ?fs = "field_lines '':'' (dumped_headers False (rq_headers r))"
  let ?P = "\<lambda>l. same_key (fst (read_field l)) ''content-length''"
  have "\<not> same_key k ''connection''"
    using assms(4) by (simp add: same_key_def cstr_def tolower_def)
  then have "k @ '':'' @ v \<in> set ?fs"
    using assms(3) by (force simp: field_lines_def dumped_headers_def)
  moreover have "?P (k @ '':'' @ v)"
    using assms(1,3,4) read_field_line [of k v] by (auto simp: clean_request_def clean_map_def)
  ultimately have "filter ?P ?fs \<noteq> []" by (metis filter_empty_conv)
  then have fs: "1 \<le> length (filter ?P ?fs)" by (cases "filter ?P ?fs") auto
  have "read_field (''content-length'' @ '':'' @ ('' '' @ dec (length (rq_body r)))) =
      (''content-length'', '' '' @ dec (length (rq_body r)))"
    by (rule read_field_line) simp
  then have "filter ?P (body_lines (rq_body r)) \<noteq> []"
    using assms(2) by (simp add: body_lines_def same_key_def)
  then have "1 \<le> length (filter ?P (body_lines (rq_body r)))" by (cases "filter ?P (body_lines (rq_body r))") auto
  then have "2 \<le> length (filter ?P ((a # b # ?fs) @ body_lines (rq_body r)))" for a b using fs by simp
  then show ?thesis using request_read [OF assms(1)] by blast
qed

end
