(* ===== verification/Sylar_HttpParser.thy ===== *)
theory Sylar_HttpParser
  imports Sylar_Http
begin

text \<open>
  The HTTP parsers (\<^verbatim>\<open>sylar/http/http_parser.cpp\<close>, \<^verbatim>\<open>http11_parser.rl\<close>, \<^verbatim>\<open>httpclient_parser.rl\<close>). The state
  tables that Ragel generates from the grammars are outside of the sources and an argument: the start,
  error and final states and, for a state and a character, the actions of the transition in order and the
  next state. The actions, the functions around the generated loop and the callbacks are modelled as they
  are written. A pointer into the buffer is an offset; the text at an offset is read in bounds or the
  result is an error.
\<close>

text \<open>The string of \<open>len\<close> characters at an offset.\<close>

definition text_at :: "string \<Rightarrow> nat \<Rightarrow> int \<Rightarrow> string res" where
  "text_at buf at len =
    (if len < 0 then Inl (Logic_error ''basic_string::_M_create'')
     else if at + nat len \<le> length buf then Inr (take (nat len) (drop at buf)) else Inl Out_of_bounds)"

section \<open>The request parser\<close>

datatype http_action =
    Mark | Start_field | Write_field | Start_value | Write_value | Request_method | Request_uri | Fragment
  | Start_query | Query_string | Http_version | Request_path | Done | Xml | Json

record http_parser =
  hp_cs :: int
  hp_body_start :: nat
  hp_content_len :: int
  hp_nread :: nat
  hp_mark :: nat
  hp_field_start :: nat
  hp_field_len :: int
  hp_query_start :: nat
  hp_xml_sent :: bool
  hp_json_sent :: bool

record 'a ragel =
  rg_start :: int
  rg_error :: int
  rg_first_final :: int
  rg_step :: "int \<Rightarrow> char \<Rightarrow> 'a list \<times> int"

text \<open>\<open>query_start\<close> is left as it is.\<close>

definition http_parser_init :: "http_action ragel \<Rightarrow> http_parser \<Rightarrow> http_parser" where
  "http_parser_init m p =
    p\<lparr>hp_cs := rg_start m, hp_body_start := 0, hp_content_len := 0, hp_mark := 0, hp_nread := 0, hp_field_len := 0,
      hp_field_start := 0, hp_xml_sent := False, hp_json_sent := False\<rparr>"

definition http_parser_has_error :: "http_action ragel \<Rightarrow> http_parser \<Rightarrow> bool" where
  "http_parser_has_error m p \<longleftrightarrow> hp_cs p = rg_error m"

definition http_parser_is_finished :: "http_action ragel \<Rightarrow> http_parser \<Rightarrow> bool" where
  "http_parser_is_finished m p \<longleftrightarrow> hp_cs p \<ge> rg_first_final m"

definition http_parser_finish :: "http_action ragel \<Rightarrow> http_parser \<Rightarrow> int" where
  "http_parser_finish m p =
    (if http_parser_has_error m p then -1 else if http_parser_is_finished m p then 1 else 0)"

record HttpRequestParser =
  rp_parser :: http_parser
  rp_data :: HttpRequest
  rp_error :: int

definition rp_setError :: "HttpRequestParser \<Rightarrow> int \<Rightarrow> HttpRequestParser" where
  "rp_setError s v = s\<lparr>rp_error := v\<rparr>"

text \<open>The callbacks: \<open>at\<close> is the buffer from the pointer on, \<open>s\<close> the string of the given length there.\<close>

definition on_request_method :: "HttpRequestParser \<Rightarrow> string \<Rightarrow> HttpRequestParser" where
  "on_request_method p at =
    (let m = CharsToHttpMethod at in
     if m = INVALID_METHOD then rp_setError p 1000 else p\<lparr>rp_data := setMethod (rp_data p) m\<rparr>)"

definition on_request_uri :: "HttpRequestParser \<Rightarrow> HttpRequestParser" where "on_request_uri p = p"

definition on_request_fragement :: "HttpRequestParser \<Rightarrow> string \<Rightarrow> HttpRequestParser" where
  "on_request_fragement p s = p\<lparr>rp_data := setFragment (rp_data p) s\<rparr>"

definition on_request_path :: "HttpRequestParser \<Rightarrow> string \<Rightarrow> HttpRequestParser" where
  "on_request_path p s = p\<lparr>rp_data := setPath (rp_data p) s\<rparr>"

definition on_request_query :: "HttpRequestParser \<Rightarrow> string \<Rightarrow> HttpRequestParser" where
  "on_request_query p s = p\<lparr>rp_data := setQuery (rp_data p) s\<rparr>"

definition version_of :: "string \<Rightarrow> nat \<Rightarrow> u8 option" where
  "version_of at len =
    (if strncmp_eq at ''HTTP/1.1'' len then Some 0x11
     else if strncmp_eq at ''HTTP/1.0'' len then Some 0x11 else None)"

definition on_request_version :: "HttpRequestParser \<Rightarrow> string \<Rightarrow> nat \<Rightarrow> HttpRequestParser" where
  "on_request_version p at len =
    (case version_of at len of
       Some v \<Rightarrow> p\<lparr>rp_data := setVersion (rp_data p) v\<rparr>
     | None \<Rightarrow> rp_setError p 1001)"

definition on_request_header_done :: "HttpRequestParser \<Rightarrow> HttpRequestParser" where "on_request_header_done p = p"

definition on_request_http_field :: "HttpRequestParser \<Rightarrow> string \<Rightarrow> string \<Rightarrow> HttpRequestParser" where
  "on_request_http_field p field val =
    (if field = [] then p else p\<lparr>rp_data := setHeader (rp_data p) field val\<rparr>)"

definition upd_parser :: "HttpRequestParser \<Rightarrow> (http_parser \<Rightarrow> http_parser) \<Rightarrow> HttpRequestParser" where
  "upd_parser s f = s\<lparr>rp_parser := f (rp_parser s)\<rparr>"

text \<open>The text from a mark to the current position, for a callback.\<close>

definition element :: "string \<Rightarrow> nat \<Rightarrow> nat \<Rightarrow> (string \<Rightarrow> HttpRequestParser) \<Rightarrow> HttpRequestParser res" where
  "element buf at fpc f = bindE (text_at buf at (int fpc - int at)) (\<lambda>s. Inr (f s))"

text \<open>The actions of the grammar, at position \<open>fpc\<close> of the buffer.\<close>

fun run_action :: "string \<Rightarrow> nat \<Rightarrow> http_action \<Rightarrow> HttpRequestParser \<Rightarrow> HttpRequestParser res" where
  "run_action buf fpc Mark s = Inr (upd_parser s (\<lambda>p. p\<lparr>hp_mark := fpc\<rparr>))"
| "run_action buf fpc Start_field s = Inr (upd_parser s (\<lambda>p. p\<lparr>hp_field_start := fpc\<rparr>))"
| "run_action buf fpc Write_field s =
     Inr (upd_parser s (\<lambda>p. p\<lparr>hp_field_len := int fpc - int (hp_field_start p)\<rparr>))"
| "run_action buf fpc Start_value s = Inr (upd_parser s (\<lambda>p. p\<lparr>hp_mark := fpc\<rparr>))"
| "run_action buf fpc Write_value s =
     (let p = rp_parser s in
      bindE (text_at buf (hp_field_start p) (hp_field_len p)) (\<lambda>field.
      bindE (text_at buf (hp_mark p) (int fpc - int (hp_mark p))) (\<lambda>val.
        Inr (on_request_http_field s field val))))"
| "run_action buf fpc Request_method s =
     Inr (on_request_method s (drop (hp_mark (rp_parser s)) buf))"
| "run_action buf fpc Request_uri s = Inr (on_request_uri s)"
| "run_action buf fpc Fragment s = element buf (hp_mark (rp_parser s)) fpc (on_request_fragement s)"
| "run_action buf fpc Start_query s = Inr (upd_parser s (\<lambda>p. p\<lparr>hp_query_start := fpc\<rparr>))"
| "run_action buf fpc Query_string s = element buf (hp_query_start (rp_parser s)) fpc (on_request_query s)"
| "run_action buf fpc Http_version s =
     (let mk = hp_mark (rp_parser s) in Inr (on_request_version s (drop mk buf) (fpc - mk)))"
| "run_action buf fpc Request_path s = element buf (hp_mark (rp_parser s)) fpc (on_request_path s)"
| "run_action buf fpc Done s =
     (let p = rp_parser s in
      if hp_xml_sent p \<or> hp_json_sent p then
        Inr (upd_parser s (\<lambda>p. p\<lparr>hp_body_start := hp_mark p, hp_content_len := int fpc - int (hp_mark p) + 1\<rparr>))
      else Inr (on_request_header_done (upd_parser s (\<lambda>p. p\<lparr>hp_body_start := fpc + 1\<rparr>))))"
| "run_action buf fpc Xml s = Inr (upd_parser s (\<lambda>p. p\<lparr>hp_xml_sent := True\<rparr>))"
| "run_action buf fpc Json s = Inr (upd_parser s (\<lambda>p. p\<lparr>hp_json_sent := True\<rparr>))"

text \<open>The actions of one transition, in order; \<open>Done\<close> leaves the loop.\<close>

fun run_actions :: "string \<Rightarrow> nat \<Rightarrow> http_action list \<Rightarrow> HttpRequestParser \<Rightarrow> (bool \<times> HttpRequestParser) res" where
  "run_actions buf fpc [] s = Inr (False, s)"
| "run_actions buf fpc (a # as) s =
     bindE (run_action buf fpc a s) (\<lambda>s'. if a = Done then Inr (True, s') else run_actions buf fpc as s')"

text \<open>The generated loop: the position it stops at, the state reached.\<close>

fun exec_loop ::
  "http_action ragel \<Rightarrow> string \<Rightarrow> nat \<Rightarrow> string \<Rightarrow> int \<Rightarrow> HttpRequestParser \<Rightarrow> (nat \<times> int \<times> HttpRequestParser) res"
where
  "exec_loop m buf p [] cs s = Inr (p, cs, s)"
| "exec_loop m buf p (c # rest) cs s =
     (if cs = rg_error m then Inr (p, cs, s)
      else case rg_step m cs c of (acts, cs') \<Rightarrow>
        if cs' = rg_error m then Inr (p, cs', s)
        else bindE (run_actions buf p acts s) (\<lambda>(stop, s').
          if stop then Inr (p + 1, cs', s') else exec_loop m buf (p + 1) rest cs' s'))"

definition http_parser_execute :: "http_action ragel \<Rightarrow> HttpRequestParser \<Rightarrow> string \<Rightarrow> (nat \<times> HttpRequestParser) res" where
  "http_parser_execute m s buf =
    (if buf = [] then Inr (0, s)
     else
       let s0 = upd_parser s (\<lambda>p. p\<lparr>hp_nread := 0, hp_mark := 0, hp_field_len := 0, hp_field_start := 0\<rparr>) in
       bindE (exec_loop m buf 0 buf (hp_cs (rp_parser s0)) s0) (\<lambda>(p, cs, s1).
         let s2 = (if http_parser_has_error m (rp_parser s1) then s1 else upd_parser s1 (\<lambda>p. p\<lparr>hp_cs := cs\<rparr>));
             s3 = upd_parser s2 (\<lambda>q. q\<lparr>hp_nread := hp_nread q + p\<rparr>);
             q = rp_parser s3; len = length buf
         in if hp_nread q \<le> len \<and> hp_body_start q \<le> len \<and> hp_mark q < len \<and> hp_field_len q \<le> int len \<and>
               hp_field_start q < len
            then Inr (hp_nread q, s3) else Inl (Assert_fail ''http_parser_execute'')))"

definition new_HttpRequestParser :: "http_action ragel \<Rightarrow> http_parser \<Rightarrow> HttpRequestParser" where
  "new_HttpRequestParser m junk =
    \<lparr>rp_parser = http_parser_init m junk, rp_data = new_HttpRequest 0x11 True, rp_error = 0\<rparr>"

text \<open>The number of characters parsed, and the buffer moved down.\<close>

definition rp_execute ::
  "http_action ragel \<Rightarrow> HttpRequestParser \<Rightarrow> string \<Rightarrow> (nat \<times> string \<times> HttpRequestParser) res"
where
  "rp_execute m s data =
    bindE (http_parser_execute m s data) (\<lambda>(offset, s'). Inr (offset, drop offset data, s'))"

definition rp_isFinished :: "http_action ragel \<Rightarrow> HttpRequestParser \<Rightarrow> bool" where
  "rp_isFinished m s \<longleftrightarrow> http_parser_finish m (rp_parser s) \<noteq> 0"

definition rp_hasError :: "http_action ragel \<Rightarrow> HttpRequestParser \<Rightarrow> bool" where
  "rp_hasError m s \<longleftrightarrow> rp_error s \<noteq> 0 \<or> http_parser_has_error m (rp_parser s)"

definition rp_getContentLenght :: "(string \<Rightarrow> u64 option) \<Rightarrow> HttpRequestParser \<Rightarrow> u64" where
  "rp_getContentLenght cast s = getHeaderAs cast (rp_data s) ''content-length'' 0"

section \<open>The response parser\<close>

datatype client_action =
    CMark | CStart_field | CWrite_field | CStart_value | Write_content_len | Write_connection_close | CWrite_value
  | Reason_phrase | Status_code | CHttp_version | Chunk_size | Trans_chunked | CDone

record httpclient_parser =
  cp_cs :: int
  cp_body_start :: nat
  cp_content_len :: int
  cp_status :: int
  cp_chunked :: bool
  cp_chunks_done :: bool
  cp_close :: bool
  cp_nread :: nat
  cp_mark :: nat
  cp_field_start :: nat
  cp_field_len :: int

definition httpclient_parser_init :: "client_action ragel \<Rightarrow> httpclient_parser \<Rightarrow> httpclient_parser" where
  "httpclient_parser_init m p =
    p\<lparr>cp_cs := rg_start m, cp_body_start := 0, cp_content_len := -1, cp_chunked := False, cp_chunks_done := False,
      cp_mark := 0, cp_nread := 0, cp_field_len := 0, cp_field_start := 0, cp_close := False\<rparr>"

definition httpclient_parser_has_error :: "client_action ragel \<Rightarrow> httpclient_parser \<Rightarrow> bool" where
  "httpclient_parser_has_error m p \<longleftrightarrow> cp_cs p = rg_error m"

definition httpclient_parser_is_finished :: "client_action ragel \<Rightarrow> httpclient_parser \<Rightarrow> bool" where
  "httpclient_parser_is_finished m p \<longleftrightarrow> cp_cs p = rg_first_final m"

definition httpclient_parser_finish :: "client_action ragel \<Rightarrow> httpclient_parser \<Rightarrow> int" where
  "httpclient_parser_finish m p =
    (if httpclient_parser_has_error m p then -1 else if httpclient_parser_is_finished m p then 1 else 0)"

record HttpResponseParser =
  cl_parser :: httpclient_parser
  cl_data :: HttpResponse
  cl_error :: int

definition cl_setError :: "HttpResponseParser \<Rightarrow> int \<Rightarrow> HttpResponseParser" where
  "cl_setError s v = s\<lparr>cl_error := v\<rparr>"

definition on_response_reason :: "HttpResponseParser \<Rightarrow> string \<Rightarrow> HttpResponseParser" where
  "on_response_reason p s = p\<lparr>cl_data := rs_setReason (cl_data p) s\<rparr>"

definition on_response_status :: "HttpResponseParser \<Rightarrow> string \<Rightarrow> HttpResponseParser" where
  "on_response_status p at = p\<lparr>cl_data := rs_setStatus (cl_data p) (atoi at)\<rparr>"

definition on_response_chunk :: "HttpResponseParser \<Rightarrow> HttpResponseParser" where "on_response_chunk p = p"

definition on_response_version :: "HttpResponseParser \<Rightarrow> string \<Rightarrow> nat \<Rightarrow> HttpResponseParser" where
  "on_response_version p at len =
    (case version_of at len of
       Some v \<Rightarrow> p\<lparr>cl_data := rs_setVersion (cl_data p) v\<rparr>
     | None \<Rightarrow> cl_setError p 1001)"

definition on_response_header_done :: "HttpResponseParser \<Rightarrow> HttpResponseParser" where "on_response_header_done p = p"
definition on_response_last_chunk :: "HttpResponseParser \<Rightarrow> HttpResponseParser" where "on_response_last_chunk p = p"

definition on_response_http_field :: "HttpResponseParser \<Rightarrow> string \<Rightarrow> string \<Rightarrow> HttpResponseParser" where
  "on_response_http_field p field val =
    (if field = [] then p else p\<lparr>cl_data := rs_setHeader (cl_data p) field val\<rparr>)"

definition upd_client :: "HttpResponseParser \<Rightarrow> (httpclient_parser \<Rightarrow> httpclient_parser) \<Rightarrow> HttpResponseParser" where
  "upd_client s f = s\<lparr>cl_parser := f (cl_parser s)\<rparr>"

fun client_action_run :: "string \<Rightarrow> nat \<Rightarrow> client_action \<Rightarrow> HttpResponseParser \<Rightarrow> HttpResponseParser res" where
  "client_action_run buf fpc CMark s = Inr (upd_client s (\<lambda>p. p\<lparr>cp_mark := fpc\<rparr>))"
| "client_action_run buf fpc CStart_field s = Inr (upd_client s (\<lambda>p. p\<lparr>cp_field_start := fpc\<rparr>))"
| "client_action_run buf fpc CWrite_field s =
     Inr (upd_client s (\<lambda>p. p\<lparr>cp_field_len := int fpc - int (cp_field_start p)\<rparr>))"
| "client_action_run buf fpc CStart_value s = Inr (upd_client s (\<lambda>p. p\<lparr>cp_mark := fpc\<rparr>))"
| "client_action_run buf fpc Write_content_len s =
     Inr (upd_client s (\<lambda>p. p\<lparr>cp_content_len := to_int (strtol 10 (drop (cp_mark p) buf))\<rparr>))"
| "client_action_run buf fpc Write_connection_close s = Inr (upd_client s (\<lambda>p. p\<lparr>cp_close := True\<rparr>))"
| "client_action_run buf fpc CWrite_value s =
     (let p = cl_parser s in
      bindE (text_at buf (cp_field_start p) (cp_field_len p)) (\<lambda>field.
      bindE (text_at buf (cp_mark p) (int fpc - int (cp_mark p))) (\<lambda>val.
        Inr (on_response_http_field s field val))))"
| "client_action_run buf fpc Reason_phrase s =
     bindE (text_at buf (cp_mark (cl_parser s)) (int fpc - int (cp_mark (cl_parser s)))) (\<lambda>t. Inr (on_response_reason s t))"
| "client_action_run buf fpc Status_code s =
     (let at = drop (cp_mark (cl_parser s)) buf;
          s1 = upd_client s (\<lambda>p. p\<lparr>cp_status := to_int (strtol 10 at)\<rparr>)
      in Inr (on_response_status s1 at))"
| "client_action_run buf fpc CHttp_version s =
     (let mk = cp_mark (cl_parser s) in Inr (on_response_version s (drop mk buf) (fpc - mk)))"
| "client_action_run buf fpc Chunk_size s =
     (let n = to_int (strtol 16 (drop (cp_mark (cl_parser s)) buf));
          s1 = upd_client s (\<lambda>p. p\<lparr>cp_chunked := True, cp_content_len := n, cp_chunks_done := (n \<le> 0)\<rparr>)
      in Inr (if n \<le> 0 then on_response_last_chunk s1 else on_response_chunk s1))"
| "client_action_run buf fpc Trans_chunked s = Inr (upd_client s (\<lambda>p. p\<lparr>cp_chunked := True\<rparr>))"
| "client_action_run buf fpc CDone s =
     Inr (on_response_header_done (upd_client s (\<lambda>p. p\<lparr>cp_body_start := fpc + 1\<rparr>)))"

fun client_actions_run :: "string \<Rightarrow> nat \<Rightarrow> client_action list \<Rightarrow> HttpResponseParser \<Rightarrow> (bool \<times> HttpResponseParser) res" where
  "client_actions_run buf fpc [] s = Inr (False, s)"
| "client_actions_run buf fpc (a # as) s =
     bindE (client_action_run buf fpc a s) (\<lambda>s'. if a = CDone then Inr (True, s') else client_actions_run buf fpc as s')"

fun client_loop ::
  "client_action ragel \<Rightarrow> string \<Rightarrow> nat \<Rightarrow> string \<Rightarrow> int \<Rightarrow> HttpResponseParser \<Rightarrow> (nat \<times> int \<times> HttpResponseParser) res"
where
  "client_loop m buf p [] cs s = Inr (p, cs, s)"
| "client_loop m buf p (c # rest) cs s =
     (if cs = rg_error m then Inr (p, cs, s)
      else case rg_step m cs c of (acts, cs') \<Rightarrow>
        if cs' = rg_error m then Inr (p, cs', s)
        else bindE (client_actions_run buf p acts s) (\<lambda>(stop, s').
          if stop then Inr (p + 1, cs', s') else client_loop m buf (p + 1) rest cs' s'))"

text \<open>The number of characters parsed, or -1.\<close>

definition httpclient_parser_execute ::
  "client_action ragel \<Rightarrow> HttpResponseParser \<Rightarrow> string \<Rightarrow> (int \<times> HttpResponseParser) res"
where
  "httpclient_parser_execute m s buf =
    (let s0 = upd_client s (\<lambda>p. p\<lparr>cp_nread := 0, cp_mark := 0, cp_field_len := 0, cp_field_start := 0\<rparr>) in
     bindE (client_loop m buf 0 buf (cp_cs (cl_parser s0)) s0) (\<lambda>(p, cs, s1).
       let s2 = upd_client s1 (\<lambda>q. q\<lparr>cp_cs := cs, cp_nread := cp_nread q + p\<rparr>);
           q = cl_parser s2; len = length buf
       in if \<not> (cp_nread q \<le> len \<and> cp_body_start q \<le> len) then Inl (Assert_fail ''httpclient_parser_execute'')
          else if cp_mark q < len \<and> cp_field_len q \<le> int len \<and> cp_field_start q < len then Inr (int (cp_nread q), s2)
          else Inr (-1, s2)))"

definition new_HttpResponseParser :: "client_action ragel \<Rightarrow> httpclient_parser \<Rightarrow> HttpResponseParser" where
  "new_HttpResponseParser m junk =
    \<lparr>cl_parser = httpclient_parser_init m junk, cl_data = new_HttpResponse 0x11 True, cl_error = 0\<rparr>"

text \<open>A result of -1 becomes an enormous offset, which the move of the buffer runs into.\<close>

definition cl_execute ::
  "client_action ragel \<Rightarrow> HttpResponseParser \<Rightarrow> string \<Rightarrow> bool \<Rightarrow> (nat \<times> string \<times> HttpResponseParser) res"
where
  "cl_execute m s data chunck =
    (let s0 = (if chunck then upd_client s (httpclient_parser_init m) else s) in
     bindE (httpclient_parser_execute m s0 data) (\<lambda>(offset, s1).
       if offset < 0 then Inl Out_of_bounds else Inr (nat offset, drop (nat offset) data, s1)))"

definition cl_isFinished :: "client_action ragel \<Rightarrow> HttpResponseParser \<Rightarrow> bool" where
  "cl_isFinished m s \<longleftrightarrow> httpclient_parser_finish m (cl_parser s) \<noteq> 0"

definition cl_hasError :: "client_action ragel \<Rightarrow> HttpResponseParser \<Rightarrow> bool" where
  "cl_hasError m s \<longleftrightarrow> cl_error s \<noteq> 0 \<or> httpclient_parser_has_error m (cl_parser s)"

definition cl_getContentLenght :: "(string \<Rightarrow> u64 option) \<Rightarrow> HttpResponseParser \<Rightarrow> u64" where
  "cl_getContentLenght cast s = rs_getHeaderAs cast (cl_data s) ''content-length'' 0"

section \<open>The size limits\<close>

text \<open>The static variables, set from the configuration and by its listeners.\<close>

record http_sizes =
  s_http_request_buffer_size :: u64
  s_http_request_max_body_size :: u64
  s_http_response_buffer_size :: u64
  s_http_response_max_body_size :: u64

definition RequestSizeIniter :: "u64 \<Rightarrow> u64 \<Rightarrow> u64 \<Rightarrow> u64 \<Rightarrow> http_sizes" where
  "RequestSizeIniter a b c d =
    \<lparr>s_http_request_buffer_size = a, s_http_request_max_body_size = b, s_http_response_buffer_size = c,
     s_http_response_max_body_size = d\<rparr>"

definition GetHttpRequestBufferSize :: "http_sizes \<Rightarrow> u64" where
  "GetHttpRequestBufferSize z = s_http_request_buffer_size z"

definition GetHttpRequestMaxBodySize :: "http_sizes \<Rightarrow> u64" where
  "GetHttpRequestMaxBodySize z = s_http_request_max_body_size z"

definition GetHttpResponseBufferSize :: "http_sizes \<Rightarrow> u64" where
  "GetHttpResponseBufferSize z = s_http_response_buffer_size z"

definition GetHttpResponseMaxBodySize :: "http_sizes \<Rightarrow> u64" where
  "GetHttpResponseMaxBodySize z = s_http_response_max_body_size z"

section \<open>Safety of the request parser\<close>

text \<open>
  What the grammar promises of its tables: a header value is reported only after the end of its name was
  seen. \<open>named\<close> tells in which states the name is complete, and \<open>flows\<close> follows it through the actions of a
  transition.
\<close>

fun flows :: "bool \<Rightarrow> http_action list \<Rightarrow> bool option" where
  "flows b [] = Some b"
| "flows b (a # as) =
     (if a = Start_field then flows False as else if a = Write_field then flows True as
      else if a = Write_value \<and> \<not> b then None else flows b as)"

definition orderly :: "http_action ragel \<Rightarrow> (int \<Rightarrow> bool) \<Rightarrow> bool" where
  "orderly m named \<longleftrightarrow> (\<forall>cs c acts cs'. rg_step m cs c = (acts, cs') \<longrightarrow> cs' \<noteq> rg_error m \<longrightarrow>
    (\<exists>b. flows (named cs) acts = Some b \<and> (named cs' \<longrightarrow> b)))"

text \<open>All offsets lie before the position.\<close>

definition marks_ok :: "nat \<Rightarrow> bool \<Rightarrow> http_parser \<Rightarrow> bool" where
  "marks_ok p b q \<longleftrightarrow> hp_mark q \<le> p \<and> hp_field_start q \<le> p \<and> hp_query_start q \<le> p \<and> 0 \<le> hp_field_len q \<and>
    hp_field_len q \<le> int p \<and> (b \<longrightarrow> int (hp_field_start q) + hp_field_len q \<le> int p) \<and> hp_body_start q \<le> p + 1"

lemma text_at_ok: "a \<le> p \<Longrightarrow> p \<le> length buf \<Longrightarrow> text_at buf a (int p - int a) = Inr (take (p - a) (drop a buf))"
  by (simp add: text_at_def nat_diff_distrib)

lemma callbacks_parser [simp]:
  "rp_parser (on_request_method s x) = rp_parser s" "rp_parser (on_request_version s x n) = rp_parser s"
  "rp_parser (on_request_http_field s f v) = rp_parser s" "rp_parser (on_request_path s x) = rp_parser s"
  "rp_parser (on_request_query s x) = rp_parser s" "rp_parser (on_request_fragement s x) = rp_parser s"
  by (simp_all add: on_request_method_def on_request_version_def on_request_http_field_def on_request_path_def
      on_request_query_def on_request_fragement_def rp_setError_def Let_def split: option.splits)

lemma upd_parser_parser [simp]: "rp_parser (upd_parser s f) = f (rp_parser s)"
  by (simp add: upd_parser_def)

lemma element_ok:
  assumes "at \<le> p" "p \<le> length buf" "\<And>x. rp_parser (f x) = q"
  shows "\<exists>s'. element buf at p f = Inr s' \<and> rp_parser s' = q"
  using assms text_at_ok [OF assms(1,2)] by (simp add: element_def)

lemma run_action_marks:
  assumes "p < length buf" "marks_ok p b (rp_parser s)" "a \<notin> {Start_field, Write_field, Write_value}"
  shows "\<exists>s'. run_action buf p a s = Inr s' \<and> marks_ok p b (rp_parser s') \<and>
    hp_cs (rp_parser s') = hp_cs (rp_parser s) \<and> hp_nread (rp_parser s') = hp_nread (rp_parser s)"
proof -
  let ?q = "rp_parser s"
  have m: "hp_mark ?q \<le> p" "hp_query_start ?q \<le> p" "p \<le> length buf" using assms(1,2) by (simp_all add: marks_ok_def)
  consider "a \<in> {Fragment, Request_path}" | "a = Query_string" | "a \<in> {Mark, Start_value, Start_query, Done, Xml, Json}"
    | "a \<in> {Request_method, Request_uri, Http_version}"
    using assms(3) by (cases a) auto
  then show ?thesis
  proof cases
    case 1
    then show ?thesis
      using element_ok [OF m(1,3), of "on_request_fragement s" ?q] element_ok [OF m(1,3), of "on_request_path s" ?q] assms(2)
      by fastforce
  next
    case 2
    then show ?thesis using element_ok [OF m(2,3), of "on_request_query s" ?q] assms(2) by fastforce
  next
    case 3
    then show ?thesis using assms(2) by (auto simp: marks_ok_def on_request_header_done_def Let_def)
  next
    case 4
    then show ?thesis using assms(2) by (auto simp: on_request_uri_def Let_def)
  qed
qed

lemma run_action_safe:
  assumes "p < length buf" "marks_ok p b (rp_parser s)" "flows b (a # as) \<noteq> None"
  shows "\<exists>s' b'. run_action buf p a s = Inr s' \<and> marks_ok p b' (rp_parser s') \<and> flows b' as = flows b (a # as) \<and>
    hp_cs (rp_parser s') = hp_cs (rp_parser s) \<and> hp_nread (rp_parser s') = hp_nread (rp_parser s)"
proof -
  let ?q = "rp_parser s"
  consider "a = Write_value" | "a = Start_field" | "a = Write_field" | "a \<notin> {Start_field, Write_field, Write_value}" by blast
  then show ?thesis
  proof cases
    case 1
    have b: "b" using assms(3) 1 by (auto split: if_splits)
    then have "text_at buf (hp_field_start ?q) (hp_field_len ?q) =
        Inr (take (nat (hp_field_len ?q)) (drop (hp_field_start ?q) buf))"
      using assms(1,2) by (auto simp: text_at_def marks_ok_def nat_le_iff)
    then have "\<exists>s'. run_action buf p a s = Inr s' \<and> rp_parser s' = ?q"
      using 1 assms(1,2) text_at_ok [of "hp_mark ?q" p buf] by (simp add: marks_ok_def Let_def)
    then show ?thesis using 1 b assms(2) by auto
  next
    case 2
    then show ?thesis using assms(2) by (intro exI [of _ "upd_parser s (\<lambda>q. q\<lparr>hp_field_start := p\<rparr>)"] exI [of _ False]) (simp add: marks_ok_def)
  next
    case 3
    then show ?thesis
      using assms(2)
      by (intro exI [of _ "upd_parser s (\<lambda>q. q\<lparr>hp_field_len := int p - int (hp_field_start q)\<rparr>)"] exI [of _ True]) (simp add: marks_ok_def)
  next
    case 4
    then have "flows b as = flows b (a # as)" by auto
    then show ?thesis using run_action_marks [OF assms(1,2) 4] by blast
  qed
qed

lemma run_actions_safe:
  "p < length buf \<Longrightarrow> marks_ok p b (rp_parser s) \<Longrightarrow> flows b acts = Some b1 \<Longrightarrow>
    \<exists>stop s' b'. run_actions buf p acts s = Inr (stop, s') \<and> marks_ok p b' (rp_parser s') \<and> (\<not> stop \<longrightarrow> b' = b1) \<and>
      hp_cs (rp_parser s') = hp_cs (rp_parser s) \<and> hp_nread (rp_parser s') = hp_nread (rp_parser s)"
proof (induction acts arbitrary: b s)
  case (Cons a as)
  then have "flows b (a # as) \<noteq> None" by simp
  note step = run_action_safe [OF Cons.prems(1,2) this]
  then obtain s1 b' where s1: "run_action buf p a s = Inr s1" "marks_ok p b' (rp_parser s1)" "flows b' as = Some b1"
    "hp_cs (rp_parser s1) = hp_cs (rp_parser s)" "hp_nread (rp_parser s1) = hp_nread (rp_parser s)"
    using Cons.prems(3) by metis
  show ?case
  proof (cases "a = Done")
    case True
    then show ?thesis using s1 by auto
  next
    case False
    then show ?thesis using s1 Cons.IH [OF Cons.prems(1) s1(2,3)] by simp
  qed
qed fastforce

lemma marks_ok_mono: "marks_ok p b q \<Longrightarrow> p \<le> p' \<Longrightarrow> (b' \<longrightarrow> b) \<Longrightarrow> marks_ok p' b' q"
  by (auto simp: marks_ok_def)

lemma exec_loop_safe:
  assumes "orderly m named" "length buf = p + length rest" "0 < length buf" "marks_ok (p - 1) (named cs) (rp_parser s)"
  shows "\<exists>n cs' s' b. exec_loop m buf p rest cs s = Inr (n, cs', s') \<and> n \<le> length buf \<and>
    marks_ok (length buf - 1) b (rp_parser s') \<and> hp_nread (rp_parser s') = hp_nread (rp_parser s)"
  using assms(2,4)
proof (induction rest arbitrary: p cs s)
  case Nil
  then show ?case by auto
next
  case (Cons c rest)
  have p: "p < length buf" "p - 1 \<le> length buf - 1" "p \<le> length buf - 1" using Cons.prems(1) by simp_all
  obtain acts cs' where st: "rg_step m cs c = (acts, cs')" by (cases "rg_step m cs c")
  show ?case
  proof (cases "cs = rg_error m \<or> cs' = rg_error m")
    case True
    then show ?thesis using st p marks_ok_mono [OF Cons.prems(2) p(2)] by fastforce
  next
    case False
    then obtain b1 where b1: "flows (named cs) acts = Some b1" "named cs' \<longrightarrow> b1"
      using assms(1) st unfolding orderly_def by blast
    have "marks_ok p (named cs) (rp_parser s)" by (rule marks_ok_mono [OF Cons.prems(2)]) simp_all
    then obtain stop s1 b' where s1: "run_actions buf p acts s = Inr (stop, s1)" "marks_ok p b' (rp_parser s1)"
      "\<not> stop \<longrightarrow> b' = b1" "hp_nread (rp_parser s1) = hp_nread (rp_parser s)"
      using run_actions_safe [OF p(1) _ b1(1)] by blast
    show ?thesis
    proof (cases stop)
      case True
      then have "exec_loop m buf p (c # rest) cs s = Inr (p + 1, cs', s1)" using False st s1(1) by simp
      moreover have "marks_ok (length buf - 1) b' (rp_parser s1)" by (rule marks_ok_mono [OF s1(2) p(3)]) simp
      moreover have "p + 1 \<le> length buf" using p(1) by simp
      ultimately show ?thesis using s1(4) by blast
    next
      case go: False
      have "marks_ok (p + 1 - 1) (named cs') (rp_parser s1)"
        using s1(2,3) go b1(2) by (intro marks_ok_mono [OF s1(2)]) auto
      then show ?thesis
        using Cons.IH [of "p + 1" cs' s1] Cons.prems(1) False go st s1(1,4) by simp
    qed
  qed
qed

section \<open>Elements across buffers\<close>

text \<open>A run over characters without any action.\<close>

fun quiet :: "http_action ragel \<Rightarrow> int \<Rightarrow> string \<Rightarrow> int option" where
  "quiet m cs [] = Some cs"
| "quiet m cs (c # s) =
     (case rg_step m cs c of (acts, cs') \<Rightarrow>
        if acts = [] \<and> cs' \<noteq> rg_error m then quiet m cs' s else None)"

lemma exec_loop_quiet:
  "quiet m cs xs = Some cs' \<Longrightarrow> cs \<noteq> rg_error m \<Longrightarrow> exec_loop m buf p (xs @ rest) cs s = exec_loop m buf (p + length xs) rest cs' s"
proof (induction xs arbitrary: cs p)
  case (Cons c xs)
  obtain acts cs1 where "rg_step m cs c = (acts, cs1)" by (cases "rg_step m cs c")
  then show ?case using Cons.prems Cons.IH [of cs1 "p + 1"] by (auto split: if_splits)
qed simp

lemma quiet_error: "quiet m cs xs = Some cs' \<Longrightarrow> cs \<noteq> rg_error m \<Longrightarrow> cs' \<noteq> rg_error m"
  by (induction m cs xs rule: quiet.induct) (auto split: prod.splits if_splits)

section \<open>Properties\<close>


text \<open>A small machine: a path, up to a blank.\<close>

definition path_machine :: "http_action ragel" where
  "path_machine = \<lparr>rg_start = 1, rg_error = 0, rg_first_final = 3,
     rg_step = (\<lambda>cs c. if cs = 1 then ([Mark], 2) else if c = CHR '' '' then ([Request_path], 3) else ([], 2))\<rparr>"

definition blank_parser :: http_parser where
  "blank_parser = \<lparr>hp_cs = 0, hp_body_start = 0, hp_content_len = 0, hp_nread = 0, hp_mark = 0, hp_field_start = 0,
     hp_field_len = 0, hp_query_start = 0, hp_xml_sent = False, hp_json_sent = False\<rparr>"


text \<open>What a call makes of the parser before its loop, and after one that ended without error.\<close>

definition parser_reset :: "HttpRequestParser \<Rightarrow> HttpRequestParser" where
  "parser_reset s = upd_parser s (\<lambda>p. p\<lparr>hp_nread := 0, hp_mark := 0, hp_field_len := 0, hp_field_start := 0\<rparr>)"

lemma execute_run:
  assumes "exec_loop m buf 0 buf (hp_cs (rp_parser s)) (parser_reset s) = Inr (p, cs, s1)" "buf \<noteq> []"
    "hp_cs (rp_parser s1) \<noteq> rg_error m" "hp_nread (rp_parser s1) = 0" "p \<le> length buf" "hp_body_start (rp_parser s1) = 0"
    "hp_mark (rp_parser s1) = 0" "hp_field_len (rp_parser s1) = 0" "hp_field_start (rp_parser s1) = 0"
  shows "http_parser_execute m s buf = Inr (p, upd_parser (upd_parser s1 (\<lambda>q. q\<lparr>hp_cs := cs\<rparr>)) (\<lambda>q. q\<lparr>hp_nread := hp_nread q + p\<rparr>))"
  using assms unfolding parser_reset_def
  by (simp add: http_parser_execute_def http_parser_has_error_def Let_def del: exec_loop.simps)

text \<open>
  An element that spans two buffers is cut. Where the machine marks the start of the path at a
  character and reports it some characters later, parsing the text in one buffer gives the whole path; if
  the same text arrives in two buffers, the path is what lies in the second one, because every call of the
  parser forgets the mark although the first buffer is gone.
\<close>

theorem http_split_truncates:
  assumes "rg_step m q0 c = ([Mark], q1)" "quiet m q1 a = Some q2" "quiet m q2 b = Some q3"
    "rg_step m q3 d = ([Request_path], q4)" "rg_error m \<notin> {q0, q1, q4}"
    "hp_cs (rp_parser s) = q0" "hp_body_start (rp_parser s) = 0"
  shows "\<exists>n1 s1 n2 s2 n3 s3.
    http_parser_execute m s (c # a @ b @ [d]) = Inr (n1, s1) \<and> rq_path (rp_data s1) = c # a @ b \<and>
    http_parser_execute m s (c # a) = Inr (n2, s2) \<and>
    http_parser_execute m s2 (b @ [d]) = Inr (n3, s3) \<and> rq_path (rp_data s3) = b"
proof -
  have ne: "q0 \<noteq> rg_error m" "q1 \<noteq> rg_error m" "q4 \<noteq> rg_error m" using assms(5) by auto
  have ne2: "q2 \<noteq> rg_error m" "q3 \<noteq> rg_error m"
    using quiet_error [OF assms(2) ne(2)] quiet_error [OF assms(3)] by auto
  have last: "exec_loop m buf p [d] q3 u =
      bindE (run_action buf p Request_path u) (\<lambda>s'. Inr (p + 1, q4, s'))" for buf p u
    using assms(4) ne ne2 by (cases "run_action buf p Request_path u") auto
  have whole: "exec_loop m buf 0 (c # a @ b @ [d]) q0 u =
      exec_loop m buf (0 + 1 + length a + length b) [d] q3 (upd_parser u (\<lambda>p. p\<lparr>hp_mark := 0\<rparr>))" for buf u
  proof -
    have "exec_loop m buf 0 (c # a @ b @ [d]) q0 u = exec_loop m buf (0 + 1) (a @ b @ [d]) q1 (upd_parser u (\<lambda>p. p\<lparr>hp_mark := 0\<rparr>))"
      using assms(1) ne by simp
    then show ?thesis
      unfolding exec_loop_quiet [OF assms(2) ne(2)] exec_loop_quiet [OF assms(3) ne2(1)] .
  qed
  have first: "exec_loop m (c # a) 0 (c # a) q0 u = Inr (1 + length a, q2, upd_parser u (\<lambda>p. p\<lparr>hp_mark := 0\<rparr>))" for u
    using assms(1) ne exec_loop_quiet [OF assms(2) ne(2), of _ _ "[]"] by simp
  have second: "exec_loop m (b @ [d]) 0 (b @ [d]) q2 u = exec_loop m (b @ [d]) (length b) [d] q3 u" for u
    using exec_loop_quiet [OF assms(3) ne2(1), of _ 0 "[d]"] by simp
  define s1 where "s1 = upd_parser (upd_parser (parser_reset s) (\<lambda>q. q\<lparr>hp_cs := q2\<rparr>)) (\<lambda>q. q\<lparr>hp_nread := hp_nread q + (1 + length a)\<rparr>)"
  have "upd_parser (parser_reset s) (\<lambda>p. p\<lparr>hp_mark := 0\<rparr>) = parser_reset s" by (simp add: upd_parser_def parser_reset_def)
  then have 2: "http_parser_execute m s (c # a) = Inr (1 + length a, s1)"
    using execute_run [of m "c # a" s "1 + length a" q2 "parser_reset s"] first assms(6,7) ne by (simp add: s1_def parser_reset_def)
  have cs1: "hp_cs (rp_parser s1) = q2" by (simp add: s1_def)
  let ?t = "on_request_path (parser_reset s1) b"
  have "exec_loop m (b @ [d]) 0 (b @ [d]) q2 (parser_reset s1) = Inr (length b + 1, q4, ?t)"
    unfolding second last by (simp add: element_def text_at_def parser_reset_def)
  then have "\<exists>s3. http_parser_execute m s1 (b @ [d]) = Inr (length b + 1, s3) \<and> rq_path (rp_data s3) = b"
    using execute_run [of m "b @ [d]" s1 "length b + 1" q4 ?t] cs1 ne2 assms(7)
    by (simp add: s1_def parser_reset_def on_request_path_def setPath_def upd_parser_def)
  moreover let ?u = "on_request_path (upd_parser (parser_reset s) (\<lambda>p. p\<lparr>hp_mark := 0\<rparr>)) (c # a @ b)"
  have len: "nat (1 + (int (length a) + int (length b))) = Suc (length a + length b)" by linarith
  have "exec_loop m (c # a @ b @ [d]) 0 (c # a @ b @ [d]) q0 (parser_reset s) = Inr (length a + length b + 2, q4, ?u)"
    unfolding whole last by (simp add: element_def text_at_def parser_reset_def len)
  then have "\<exists>s3. http_parser_execute m s (c # a @ b @ [d]) = Inr (length a + length b + 2, s3) \<and> rq_path (rp_data s3) = c # a @ b"
    using execute_run [of m "c # a @ b @ [d]" s "length a + length b + 2" q4 ?u] assms(6,7) ne
    by (simp add: parser_reset_def on_request_path_def setPath_def upd_parser_def)
  ultimately show ?thesis using 2 by blast
qed

theorem http_split_truncates_witness:
  "\<exists>n2 s2 n3 s3.
    http_parser_execute path_machine (new_HttpRequestParser path_machine blank_parser) ''/in'' = Inr (n2, s2) \<and>
    http_parser_execute path_machine s2 ''dex '' = Inr (n3, s3) \<and> rq_path (rp_data s3) = ''dex''"
  using http_split_truncates [of path_machine 1 "CHR ''/''" 2 "''in''" 2 "''dex''" 2 "CHR '' ''" 3
      "new_HttpRequestParser path_machine blank_parser"]
  by (auto simp: path_machine_def new_HttpRequestParser_def http_parser_init_def blank_parser_def)

text \<open>A query string that spans two buffers is worse: its start is an offset in the first buffer.\<close>

theorem query_split_throws:
  assumes "quiet m (hp_cs (rp_parser s)) b = Some q" "rg_step m q d = ([Query_string], q')"
    "hp_cs (rp_parser s) \<noteq> rg_error m" "q' \<noteq> rg_error m" "length b < hp_query_start (rp_parser s)"
  shows "http_parser_execute m s (b @ [d]) = Inl (Logic_error ''basic_string::_M_create'')"
  using assms quiet_error [OF assms(1,3)] exec_loop_quiet [OF assms(1,3), of _ 0 "[d]"]
  by (simp add: http_parser_execute_def element_def text_at_def upd_parser_def Let_def)

end
