(* ===== verification/Sylar_HttpSession.thy ===== *)
theory Sylar_HttpSession
  imports Sylar_Stream Sylar_HttpParser
begin

text \<open>
  The server side of an HTTP connection (\<^verbatim>\<open>sylar/http/http_session.cpp\<close>). A session is the socket stream of
  \<^verbatim>\<open>Sylar_Stream\<close>. The arguments shared by the operations are gathered in a record: the tables of the
  request parser, the memory a new parser starts with, the size limits, the conversion of a header to a number
  and what the kernel answers to a \<open>close\<close>.
\<close>

section \<open>Sessions\<close>

record http_env =
  en_tables :: "http_action ragel"
  en_junk :: http_parser
  en_sizes :: http_sizes
  en_cast :: "string \<Rightarrow> u64 option"
  en_close :: "int \<times> int"

definition HttpSession :: "hook \<Rightarrow> socket option \<Rightarrow> bool \<Rightarrow> link" where
  "HttpSession h sock owner = SocketStream h sock owner"

text \<open>The ways out of \<open>recvRequest\<close> that close the connection and return a null pointer.\<close>

definition give_up :: "int \<times> int \<Rightarrow> link \<Rightarrow> ('a option \<times> link) run" where
  "give_up ans l = bindR (ss_close l (fst ans) (snd ans)) (\<lambda>l'. Some (Inr (None, l')))"

text \<open>
  The loop over the buffer, which the two sides of a connection share: \<open>pending\<close> is the text at its start that is not parsed yet. It ends with
  the parser and the text after the header, or with \<open>None\<close>. With \<open>skip\<close> the first round parses what is pending without reading more.
\<close>

record 'p parsing =
  ps_exec :: "'p \<Rightarrow> string \<Rightarrow> (nat \<times> string \<times> 'p) res"
  ps_error :: "'p \<Rightarrow> bool"
  ps_finished :: "'p \<Rightarrow> bool"

partial_function (option) parse_loop ::
  "'p parsing \<Rightarrow> u64 \<Rightarrow> int \<times> int \<Rightarrow> bool \<Rightarrow> link \<Rightarrow> 'p \<Rightarrow> string \<Rightarrow> ((string \<times> 'p) option \<times> link) run"
where
  "parse_loop pg buff_size ans skip l parser pending =
     Option.bind (if skip then Some (Inr (1, [], l)) else ss_read l (unat (buff_size - of_nat (length pending)))) (\<lambda>r.
       case r of
         Inl e \<Rightarrow> Some (Inl e)
       | Inr (len, d, l1) \<Rightarrow>
           if len \<le> 0 then give_up ans l1
           else
             case ps_exec pg parser (pending @ chars d) of
               Inl e \<Rightarrow> Some (Inl e)
             | Inr (nparse, rest, parser1) \<Rightarrow>
                 if ps_error pg parser1 then give_up ans l1
                 else if int (length rest) = to_int (uint buff_size) then give_up ans l1
                 else if ps_finished pg parser1 then Some (Inr (Some (rest, parser1), l1))
                 else parse_loop pg buff_size ans False l1 parser1 rest)"

definition request_parsing :: "http_action ragel \<Rightarrow> HttpRequestParser parsing" where
  "request_parsing m = \<lparr>ps_exec = rp_execute m, ps_error = rp_hasError m, ps_finished = rp_isFinished m\<rparr>"

definition recv_loop ::
  "http_env \<Rightarrow> link \<Rightarrow> HttpRequestParser \<Rightarrow> string \<Rightarrow> ((string \<times> HttpRequestParser) option \<times> link) run"
where
  "recv_loop en l parser pending =
    parse_loop (request_parsing (en_tables en)) (GetHttpRequestBufferSize (en_sizes en)) (en_close en) False l parser pending"

text \<open>
  The body of \<open>len\<close> bytes: what is left in the buffer and, if that is not enough, what is read. Both sides of a connection receive it
  this way.
\<close>

definition read_body :: "int \<times> int \<Rightarrow> link \<Rightarrow> int \<Rightarrow> string \<Rightarrow> (string option \<times> link) run" where
  "read_body ans l len pending =
    (let body = take (nat len) pending; left = len - int (length pending) in
     if left > 0 then
       bindR (readFixSize ss_read l (nat left)) (\<lambda>(r, d, l1).
         if r \<le> 0 then give_up ans l1 else Some (Inr (Some (body @ chars d), l1)))
     else Some (Inr (Some body, l)))"

definition recv_body :: "http_env \<Rightarrow> link \<Rightarrow> HttpRequestParser \<Rightarrow> string \<Rightarrow> (HttpRequest option \<times> link) run" where
  "recv_body en l parser pending =
    (let len = sint (rp_getContentLenght (en_cast en) parser); req = rp_data parser in
     if len > 0 then
       bindR (read_body (en_close en) l len pending) (\<lambda>(r, l1).
         Some (Inr (map_option (\<lambda>body. rq_init (setBody req body)) r, l1)))
     else Some (Inr (Some (rq_init req), l)))"

definition recvRequest :: "http_env \<Rightarrow> link \<Rightarrow> (HttpRequest option \<times> link) run" where
  "recvRequest en l =
    bindR (recv_loop en l (new_HttpRequestParser (en_tables en) (en_junk en)) []) (\<lambda>(r, l1).
      case r of
        None \<Rightarrow> Some (Inr (None, l1))
      | Some (rest, parser) \<Rightarrow> recv_body en l1 parser rest)"

definition bytes_of :: "string \<Rightarrow> bytes" where
  "bytes_of s = map (\<lambda>c. of_nat (of_char c)) s"

definition sendResponse :: "link \<Rightarrow> HttpResponse \<Rightarrow> (int \<times> link) run" where
  "sendResponse l rsp = writeFixSize ss_write l (bytes_of (rs_dump rsp))"
section \<open>What the parser leaves alone\<close>

lemma run_action_body: "run_action buf fpc a s = Inr s' \<Longrightarrow> rq_body (rp_data s') = rq_body (rp_data s)"
  by (cases a) (auto simp: upd_parser_def element_def Let_def on_request_http_field_def on_request_method_def
      on_request_uri_def on_request_fragement_def on_request_query_def on_request_version_def on_request_path_def
      on_request_header_done_def rp_setError_def setMethod_def setFragment_def setQuery_def setPath_def setVersion_def
      setHeader_def split: if_splits option.splits)

lemma run_actions_body: "run_actions buf fpc as s = Inr (b, s') \<Longrightarrow> rq_body (rp_data s') = rq_body (rp_data s)"
  by (induction as arbitrary: s) (auto dest: run_action_body simp del: run_action.simps split: if_splits)

lemma exec_loop_body: "exec_loop m buf p cs st s = Inr (q, st', s') \<Longrightarrow> rq_body (rp_data s') = rq_body (rp_data s)"
proof (induction m buf p cs st s rule: exec_loop.induct)
  case (2 m buf p c rest cs s)
  show ?case
  proof (cases "cs = rg_error m \<or> snd (rg_step m cs c) = rg_error m")
    case True
    then show ?thesis using "2.prems" by (auto split: prod.splits if_splits)
  next
    case False
    obtain as cs' where st: "rg_step m cs c = (as, cs')" by fastforce
    obtain b s1 where r: "run_actions buf p as s = Inr (b, s1)" using "2.prems" False st by auto
    show ?thesis
      using "2.prems" "2.IH" [of as cs' "(b, s1)" b s1] False st r run_actions_body [OF r] by (cases b) auto
  qed
qed simp

lemma execute_body:
  assumes "rp_execute m s buf = Inr (k, rest, s')"
  shows "rq_body (rp_data s') = rq_body (rp_data s) \<and> k \<le> length buf \<and> rest = drop k buf"
proof -
  have "rq_body (rp_data (upd_parser s f)) = rq_body (rp_data s)" for f s by (simp add: upd_parser_def)
  then show ?thesis
    using assms by (auto simp: rp_execute_def http_parser_execute_def Let_def dest!: exec_loop_body split: if_splits)
qed

section \<open>The loop over the buffer\<close>

lemma chars_append [simp]: "chars (a @ b) = chars a @ chars b" "length (chars a) = length a"
  by (simp_all add: chars_def)

lemma chars_nil [simp]: "chars [] = []"
  by (simp add: chars_def)

lemma give_up_none [simp]: "give_up ans x \<noteq> Some (Inr (Some y, z))"
  by (auto simp: give_up_def)

lemma parse_loop_cases:
  assumes "parse_loop pg n ans skip l parser pending = Some (Inr (Some (rest, parser'), l'))"
  obtains len d l1 nparse rest1 parser1 where
    "(if skip then Some (Inr (1, [], l)) else ss_read l (unat (n - of_nat (length pending)))) = Some (Inr (len, d, l1))" "0 < len"
    "ps_exec pg parser (pending @ chars d) = Inr (nparse, rest1, parser1)" "\<not> ps_error pg parser1"
    "if ps_finished pg parser1 then rest = rest1 \<and> parser' = parser1 \<and> l' = l1
     else parse_loop pg n ans False l1 parser1 rest1 = Some (Inr (Some (rest, parser'), l'))"
proof -
  let ?r = "if skip then Some (Inr (1, [], l)) else ss_read l (unat (n - of_nat (length pending)))"
  obtain y where "?r = Some y"
    using assms by (subst (asm) parse_loop.simps) (cases ?r; simp)
  moreover obtain z where "y = Inr z"
    using assms \<open>?r = Some y\<close> by (subst (asm) parse_loop.simps) (cases y; simp)
  moreover obtain len d l1 where "z = (len, d, l1)" by (cases z)
  ultimately have r: "?r = Some (Inr (len, d, l1))" by simp
  have pos: "0 < len" using assms r by (subst (asm) parse_loop.simps) (auto split: if_splits)
  obtain nparse rest1 parser1 where x: "ps_exec pg parser (pending @ chars d) = Inr (nparse, rest1, parser1)"
    using assms r by (subst (asm) parse_loop.simps) (auto split: sum.splits if_splits)
  show thesis
    using that [OF r pos x] assms r x by (subst (asm) (2) parse_loop.simps) (auto split: if_splits)
qed

text \<open>
  What the loop needs of a parser: it parses a part of the buffer and moves the rest down; the second law
  says that it parses something unless it fails.
\<close>

locale head_parser =
  fixes pg :: "'p parsing"
  assumes exec_rest: "ps_exec pg p buf = Inr (k, rest, p') \<Longrightarrow> k \<le> length buf \<and> rest = drop k buf"
    and exec_moves: "ps_exec pg p buf = Inr (k, rest, p') \<Longrightarrow> buf \<noteq> [] \<Longrightarrow> \<not> ps_error pg p' \<Longrightarrow> 0 < k"
begin

lemma parse_round:
  assumes "(if skip then Some (Inr (1, [], l)) else ss_read l n) = Some (Inr (len, d, l1))" "0 < len" "skip \<Longrightarrow> pending \<noteq> []"
    "ps_exec pg p (pending @ chars d) = Inr (k, rest, p1)" "\<not> ps_error pg p1"
  shows "ln_in l = d @ ln_in l1" "\<not> skip \<Longrightarrow> d \<noteq> []"
    "\<exists>head. pending @ chars d = head @ rest \<and> head \<noteq> []"
proof -
  show d: "ln_in l = d @ ln_in l1" "\<not> skip \<Longrightarrow> d \<noteq> []"
    using assms(1,2) ss.rd_next [of l n len d l1] by (auto split: if_splits)
  have "pending @ chars d \<noteq> []" using d(2) assms(3) by (cases skip) (auto simp: chars_def)
  then show "\<exists>head. pending @ chars d = head @ rest \<and> head \<noteq> []"
    using exec_rest [OF assms(4)] exec_moves [OF assms(4) _ assms(5)]
    by (intro exI [of _ "take k (pending @ chars d)"]) (simp del: take_append drop_append)
qed

lemma parse_loop_frame:
  assumes "parse_loop pg n ans skip l parser pending = Some (Inr (Some (rest, parser'), l'))" "skip \<Longrightarrow> pending \<noteq> []"
  shows "\<exists>d head. ln_in l = d @ ln_in l' \<and> (d \<noteq> [] \<or> skip) \<and> pending @ chars d = head @ rest \<and> head \<noteq> []"
  using assms
proof (induction "length (ln_in l) + (if skip then 1 else 0)" arbitrary: skip l parser pending rule: less_induct)
  case less
  from less.prems(1) show ?case
  proof (cases rule: parse_loop_cases)
    case (1 len d l1 nparse rest1 parser1)
    note rd = parse_round [OF 1(1,2) less.prems(2) 1(3,4)]
    obtain h1 where h1: "pending @ chars d = h1 @ rest1" "h1 \<noteq> []" using rd(3) by blast
    show ?thesis
    proof (cases "ps_finished pg parser1")
      case True
      then show ?thesis using 1(5) rd(1,2) h1 by (intro exI [of _ d] exI [of _ h1]) auto
    next
      case False
      then have nx: "parse_loop pg n ans False l1 parser1 rest1 = Some (Inr (Some (rest, parser'), l'))" using 1(5) by simp
      have "length (ln_in l1) < length (ln_in l) + (if skip then 1 else 0)" using rd(1,2) by (cases skip) auto
      then obtain d2 head where ih: "ln_in l1 = d2 @ ln_in l'" "d2 \<noteq> []" "rest1 @ chars d2 = head @ rest"
        using less.hyps [of l1 False, OF _ nx] by auto
      have "pending @ chars (d @ d2) = (h1 @ head) @ rest" using h1(1) ih(3) by (metis append_assoc chars_append(1))
      then show ?thesis using rd(1) ih h1(2) by (intro exI [of _ "d @ d2"] exI [of _ "h1 @ head"]) auto
    qed
  qed
qed

lemma parse_loop_keeps:
  assumes "\<And>p buf k rest p'. ps_exec pg p buf = Inr (k, rest, p') \<Longrightarrow> f p' = f p"
    "parse_loop pg n ans skip l parser pending = Some (Inr (Some (rest, parser'), l'))" "skip \<Longrightarrow> pending \<noteq> []"
  shows "f parser' = f parser"
  using assms(2,3)
proof (induction "length (ln_in l) + (if skip then 1 else 0)" arbitrary: skip l parser pending rule: less_induct)
  case less
  from less.prems(1) show ?case
  proof (cases rule: parse_loop_cases)
    case (1 len d l1 nparse rest1 parser1)
    note rd = parse_round [OF 1(1,2) less.prems(2) 1(3,4)]
    have keep: "f parser1 = f parser" using assms(1) [OF 1(3)] .
    show ?thesis
    proof (cases "ps_finished pg parser1")
      case False
      then have nx: "parse_loop pg n ans False l1 parser1 rest1 = Some (Inr (Some (rest, parser'), l'))" using 1(5) by simp
      have "length (ln_in l1) < length (ln_in l) + (if skip then 1 else 0)" using rd(1,2) by (cases skip) auto
      then show ?thesis using less.hyps [of l1 False, OF _ nx] keep by auto
    qed (use 1(5) keep in simp)
  qed
qed

end

lemma exec_loop_moves:
  assumes "exec_loop m buf p (c # cs) st s = Inr (q, st', s')" "st' \<noteq> rg_error m"
  shows "p < q"
proof -
  have "p \<le> q" if "exec_loop m buf p cs st s = Inr (q, st', s')" for p cs st s
    using that
  proof (induction m buf p cs st s rule: exec_loop.induct)
    case (2 m buf p c rest cs s)
    show ?case
    proof (cases "cs = rg_error m \<or> snd (rg_step m cs c) = rg_error m")
      case True
      then show ?thesis using "2.prems" by (auto split: prod.splits if_splits)
    next
      case False
      obtain as cs' where st: "rg_step m cs c = (as, cs')" by fastforce
      obtain b s1 where r: "run_actions buf p as s = Inr (b, s1)" using "2.prems" False st by auto
      show ?thesis using "2.prems" "2.IH" [of as cs' "(b, s1)" b s1] False st r by (cases b) auto
    qed
  qed simp
  then show ?thesis using assms by (fastforce split: prod.splits if_splits)
qed

interpretation rqp: head_parser "request_parsing m" for m
proof
  fix p buf k rest p'
  assume ex: "ps_exec (request_parsing m) p buf = Inr (k, rest, p')"
  then show "k \<le> length buf \<and> rest = drop k buf" using execute_body [of m p buf k rest p'] by (simp add: request_parsing_def)
  assume "buf \<noteq> []" "\<not> ps_error (request_parsing m) p'"
  then obtain c cs where "buf = c # cs" "\<not> http_parser_has_error m (rp_parser p')"
    by (cases buf) (auto simp: request_parsing_def rp_hasError_def)
  then show "0 < k"
    using ex by (auto simp: request_parsing_def rp_execute_def http_parser_execute_def Let_def http_parser_has_error_def upd_parser_def
        simp del: exec_loop.simps dest!: exec_loop_moves split: if_splits)
qed

section \<open>Reading a request\<close>

lemma recv_loop_frame:
  assumes "recv_loop en l parser [] = Some (Inr (Some (rest, parser'), l'))"
  shows "\<exists>d head. ln_in l = d @ ln_in l' \<and> d \<noteq> [] \<and> chars d = head @ rest \<and> rq_body (rp_data parser') = rq_body (rp_data parser)"
proof -
  have "rq_body (rp_data parser') = rq_body (rp_data parser)"
    using rqp.parse_loop_keeps [of "en_tables en" "\<lambda>p. rq_body (rp_data p)", OF _ assms [unfolded recv_loop_def]] execute_body
    by (fastforce simp: request_parsing_def)
  then show ?thesis using rqp.parse_loop_frame [OF assms [unfolded recv_loop_def]] by auto
qed

lemma request_header [simp]:
  "getHeaderAs cast (rq_init r) k d = getHeaderAs cast r k d" "getHeaderAs cast (setBody r b) k d = getHeaderAs cast r k d"
  "rq_body (rq_init r) = rq_body r" "rq_body (setBody r b) = b"
  by (simp_all add: rq_init_def setBody_def getHeaderAs_def Let_def)

lemma read_body_frame:
  assumes "read_body ans l len (chars db) = Some (Inr (Some b, l'))" "0 < len" "len < 2 ^ 63"
  shows "\<exists>body lost. db @ ln_in l = body @ lost @ ln_in l' \<and> length db \<le> length (body @ lost) \<and> b = chars body \<and> int (length body) = len"
proof (cases "len - int (length db) > 0")
  case True
  let ?left = "nat (len - int (length db))"
  obtain r d where r: "readFixSize ss_read l ?left = Some (Inr (r, d, l'))" "0 < r" "b = take (nat len) (chars db) @ chars d"
    using assms(1) True by (auto simp: read_body_def Let_def split: if_splits)
  obtain r0 where r0: "readFix_loop ss_read l (int ?left) [] = Some (Inr (r0, d, l'))" "r = fix_result ?left r0"
    using r(1) by (auto simp: readFixSize_def)
  have small: "?left < 2 ^ 64" using True assms(3) by (simp add: nat_less_iff)
  have d: "ln_in l = d @ ln_in l'" "length d = ?left"
    using ss.readFix_loop_next [OF small r0(1)] r0(2) r(2) by (auto simp: fix_result_def split: option.splits)
  show ?thesis using True r(3) d by (intro exI [of _ "db @ d"] exI [of _ "[]"]) auto
next
  case False
  then have "l' = l" "b = chars (take (nat len) db)" using assms(1) by (auto simp: read_body_def chars_def take_map)
  then show ?thesis using False assms(2) by (intro exI [of _ "take (nat len) db"] exI [of _ "drop (nat len) db"]) simp
qed

lemma recv_body_frame:
  assumes "recv_body en l parser rest = Some (Inr (Some req, l'))" "rq_body (rp_data parser) = []" "rest = chars db"
  shows "\<exists>body lost. db @ ln_in l = body @ lost @ ln_in l' \<and> length db \<le> length (body @ lost) \<and> rq_body req = chars body \<and>
    int (length body) = max 0 (sint (getHeaderAs (en_cast en) req ''content-length'' 0))"
proof -
  let ?len = "sint (rp_getContentLenght (en_cast en) parser)"
  have small: "?len < 2 ^ 63" using sint_lt [of "rp_getContentLenght (en_cast en) parser"] by simp
  show ?thesis
  proof (cases "?len > 0")
    case True
    then obtain b where b: "read_body (en_close en) l ?len (chars db) = Some (Inr (Some b, l'))" "req = rq_init (setBody (rp_data parser) b)"
      using assms(1,3) by (auto simp: recv_body_def Let_def)
    from read_body_frame [OF b(1) True small] show ?thesis using b(2) True by (auto simp: rp_getContentLenght_def)
  next
    case False
    then show ?thesis using assms
      by (intro exI [of _ "[]"] exI [of _ db]) (auto simp: recv_body_def Let_def rp_getContentLenght_def)
  qed
qed

section \<open>Sessions that come to an end\<close>

text \<open>The thread has hooks enabled, now and at every resumption.\<close>

fun hooked_answer :: "io_answer \<Rightarrow> bool" where
  "hooked_answer (Sys r e) = True"
| "hooked_answer (Block now a rt h) = t_hook_enable h"

definition hooked :: "link \<Rightarrow> bool" where
  "hooked l \<longleftrightarrow> t_hook_enable (ln_hook l) \<and> (\<forall>(w, cur, as) \<in> set (ln_calls l). list_all hooked_answer as)"

definition served :: "nat \<Rightarrow> link \<Rightarrow> bool" where
  "served k l \<longleftrightarrow> ready k l \<and> hooked l"

lemma returned_enable [simp]: "t_hook_enable (returned h n e) = t_hook_enable h" "t_hook_enable (leave_io h w) = t_hook_enable h"
  by (simp_all add: returned_def leave_io_def)

lemma do_io_block_enable: "do_io_block h fd ev to w cur now a rt = Inr (b, h') \<Longrightarrow> t_hook_enable h' = t_hook_enable h"
  by (auto simp: do_io_block_def with_iom_eq)

lemma do_io_unblock_enable: "do_io_unblock h to w a = Inr (r, h') \<Longrightarrow> t_hook_enable h' = t_hook_enable h"
  by (auto simp: do_io_unblock_def with_iom_eq split: option.splits if_splits)

lemma do_io_retry_enable:
  "do_io_retry h fd event to w cur as = Some (Inr (r, h')) \<Longrightarrow> t_hook_enable h \<Longrightarrow> list_all hooked_answer as \<Longrightarrow> t_hook_enable h'"
proof (induction h fd event to w cur as rule: do_io_retry.induct)
  case (3 h fd event to w cur n e as)
  then show ?case
    by (auto simp: Let_def dest: do_io_block_enable do_io_unblock_enable split: if_splits list.splits io_answer.splits sum.splits
        prod.splits bool.splits option.splits)
qed simp_all

lemma hooked_at_most [simp]: "list_all hooked_answer (map (at_most n) as) = list_all hooked_answer as"
proof -
  have "hooked_answer (at_most n a) = hooked_answer a" for a by (cases a) simp_all
  then show ?thesis by (simp add: list_all_iff)
qed

lemma do_io_enable:
  assumes "do_io h fd event so w cur as = Some (Inr (r, h'))" "t_hook_enable h" "list_all hooked_answer as"
  shows "t_hook_enable h'"
  using assms do_io_retry_enable
  by (auto simp: do_io_def simp del: do_io_retry.simps split: sum.splits io_entry.splits list.splits io_answer.splits)

lemma socket_call_served:
  assumes "served (Suc k) l" "f = Socket_recv \<or> f = Socket_send"
  shows "\<exists>x. socket_call f l n = Some x \<and> (\<forall>r l'. x = Inr (r, l') \<longrightarrow> served k l' \<and> ln_in l' = ln_in l)"
proof -
  obtain x where x: "socket_call f l n = Some x" "\<And>r l'. x = Inr (r, l') \<Longrightarrow> ready k l'"
    using socket_call_ready [of k l f n] assms by (auto simp: served_def)
  have "served k l'" "ln_in l' = ln_in l" if r: "x = Inr (r, l')" for r l'
  proof -
    obtain s w cur as cs h where l: "ln_socket l = Some s" "ln_calls l = (w, cur, as) # cs"
      "f (ln_hook l) s w cur (map (at_most n) as) = Some (Inr (r, h))" "l' = l\<lparr>ln_hook := h, ln_calls := cs\<rparr>"
      using x(1) r by (auto simp: socket_call_def split: option.splits list.splits)
    have as: "t_hook_enable (ln_hook l)" "list_all hooked_answer (map (at_most n) as)"
      using assms(1) l(2) by (auto simp: served_def hooked_def)
    then have "t_hook_enable h"
      using l(3) assms(2) do_io_enable [OF _ as]
      by (auto simp: Socket_recv_def Socket_send_def recv_hook_def send_hook_def split: if_splits)
    then show "served k l'" "ln_in l' = ln_in l" using x(2) [OF r] assms(1) l by (auto simp: served_def hooked_def)
  qed
  then show ?thesis using x(1) by blast
qed
lemma served_mono: "served k l \<Longrightarrow> j \<le> k \<Longrightarrow> served j l"
  by (simp add: served_def ready_def)

lemma served_upd [simp]: "served k (l\<lparr>ln_in := d\<rparr>) = served k l" "served k (l\<lparr>ln_out := d\<rparr>) = served k l"
  by (simp_all add: served_def hooked_def)

lemma ss_read_served:
  "served (Suc k) l \<Longrightarrow> \<exists>x. ss_read l n = Some x \<and> (\<forall>r d l'. x = Inr (r, d, l') \<longrightarrow> served k l')"
  using socket_call_served [of k l Socket_recv "min n (length (ln_in l))"] served_mono [of "Suc k" l k]
  by (auto simp: ss_read_def bindR_def split: option.splits sum.splits)

lemma ss_read_out: "ss_read l n = Some (Inr (len, d, l')) \<Longrightarrow> ln_out l' = ln_out l"
  using socket_call_bound [OF io_calls(1)] by (fastforce simp: ss_read_def split: if_splits)

lemma ss_write_served:
  "served (Suc k) l \<Longrightarrow> \<exists>x. ss_write l bs = Some x \<and> (\<forall>r l'. x = Inr (r, l') \<longrightarrow> served k l' \<and> ln_in l' = ln_in l)"
  using socket_call_served [of k l Socket_send "length bs"] served_mono [of "Suc k" l k]
  by (auto simp: ss_write_def bindR_def split: option.splits sum.splits)

definition closed :: "link \<Rightarrow> bool" where
  "closed l = (case ln_socket l of None \<Rightarrow> True | Some s \<Rightarrow> \<not> isValid s \<and> \<not> isConnected s)"

lemma ss_close_returns:
  assumes "hooked l"
  shows "\<exists>x. ss_close l rt r = Some x \<and> (\<forall>l'. x = Inr l' \<longrightarrow> closed l' \<and> ln_out l' = ln_out l \<and> ln_in l' = ln_in l)"
proof -
  show ?thesis
  proof (cases "ln_socket l")
    case (Some s)
    have "\<exists>y. close_hook (ln_hook l) (m_sock s) rt r = Some y"
      using assms by (subst close_hook.simps) (simp add: hooked_def)
    then obtain y where "close_hook (ln_hook l) (m_sock s) rt r = Some y" ..
    then have "\<exists>x. Socket_close (ln_hook l) s rt r = Some x" by (cases y) (auto simp: Socket_close_def Let_def)
    then obtain x where x: "Socket_close (ln_hook l) s rt r = Some x" ..
    then show ?thesis
      using Some close_invalid [of "ln_hook l" s rt r]
      by (cases x) (auto simp: ss_close_def closed_def)
  qed (simp add: ss_close_def closed_def)
qed

lemma give_up_returns:
  assumes "hooked l"
  shows "\<exists>x. give_up ans l = Some x \<and> (\<forall>r l'. x = Inr (r, l') \<longrightarrow> r = None \<and> closed l' \<and> ln_out l' = ln_out l)"
proof -
  obtain y where y: "ss_close l (fst ans) (snd ans) = Some y"
    "\<And>l'. y = Inr l' \<Longrightarrow> closed l' \<and> ln_out l' = ln_out l \<and> ln_in l' = ln_in l"
    using ss_close_returns [OF assms] by blast
  show ?thesis
  proof (cases y)
    case (Inr l')
    then show ?thesis using y by (simp add: give_up_def)
  qed (use y(1) in \<open>simp add: give_up_def\<close>)
qed

lemma readFix_served:
  assumes "served (Suc k + length (ln_in l)) l"
  shows "\<exists>x. readFix_loop ss_read l left buf = Some x \<and>
    (\<forall>r buf' l'. x = Inr (r, buf', l') \<longrightarrow> ln_out l' = ln_out l \<and>
      (if r = None then served (Suc k + length (ln_in l')) l' else served k l'))"
  using assms
proof (induction "length (ln_in l)" arbitrary: l left buf rule: less_induct)
  case less
  show ?case
  proof (cases "left = 0")
    case True
    then show ?thesis using less.prems by (subst readFix_loop.simps) simp
  next
    case False
    have "served (Suc (k + length (ln_in l))) l" using less.prems by simp
    from ss_read_served [OF this, of "nat left"] obtain x where x: "ss_read l (nat left) = Some x"
      "\<And>r d l'. x = Inr (r, d, l') \<Longrightarrow> served (k + length (ln_in l)) l'" by blast
    show ?thesis
    proof (cases x)
      case (Inl e)
      then show ?thesis using x False by (subst readFix_loop.simps) simp
    next
      case (Inr y)
      obtain len d l1 where y: "y = (len, d, l1)" by (cases y)
      note nx = ss.rd_next [OF x(1) [unfolded Inr y]] and o = ss_read_out [OF x(1) [unfolded Inr y]]
      show ?thesis
      proof (cases "len \<le> 0")
        case True
        have "served k l1" using served_mono [OF x(2)] Inr y by simp
        then show ?thesis using x(1) Inr y False True o by (subst readFix_loop.simps) simp
      next
        case pos: False
        then have len: "length (ln_in l) = nat len + length (ln_in l1)" "0 < nat len" using nx by auto
        have "served (k + length (ln_in l)) l1" using x(2) Inr y by simp
        then have sv: "served (Suc k + length (ln_in l1)) l1" by (rule served_mono) (use len in simp)
        have "length (ln_in l1) < length (ln_in l)" using len by simp
        from less.hyps [OF this sv] show ?thesis using x(1) Inr y False pos o by (subst readFix_loop.simps) simp
      qed
    qed
  qed
qed

lemma parse_loop_served:
  fixes pg :: "'p parsing"
  assumes "served (Suc k + length (ln_in l)) l"
  shows "\<exists>x. parse_loop pg n ans skip l parser pending = Some x \<and>
    (\<forall>r l'. x = Inr (r, l') \<longrightarrow> ln_out l' = ln_out l \<and> (if r = None then closed l' else served (Suc k + length (ln_in l')) l'))"
  using assms
proof (induction "length (ln_in l) + (if skip then 1 else 0)" arbitrary: skip l parser pending rule: less_induct)
  case less
  let ?rd = "if skip then Some (Inr (1, [], l)) else ss_read l (unat (n - of_nat (length pending)))"
  let ?ok = "\<lambda>l1 x. \<forall>(r :: (string \<times> 'p) option) l'. x = Inr (r, l') \<longrightarrow> ln_out l' = ln_out l1 \<and> (if r = None then closed l' else served (Suc k + length (ln_in l')) l')"
  have "served (Suc (k + length (ln_in l))) l" using less.prems by simp
  note rs = ss_read_served [OF this, of "unat (n - of_nat (length pending))"]
  have "\<exists>x. ?rd = Some x \<and> (\<forall>r d l'. x = Inr (r, d, l') \<longrightarrow> served (k + length (ln_in l)) l')"
    using rs served_mono [OF less.prems, of "k + length (ln_in l)"] by (cases skip) simp_all
  then obtain x where x: "?rd = Some x" "\<And>r d l'. x = Inr (r, d, l') \<Longrightarrow> served (k + length (ln_in l)) l'" by blast
  show ?case
  proof (cases x)
    case (Inl e)
    then show ?thesis using x by (subst parse_loop.simps) simp
  next
    case (Inr y)
    obtain len d l1 where y: "y = (len, d, l1)" by (cases y)
    note rd = x(1) [unfolded Inr y]
    have o1: "ln_out l1 = ln_out l" using rd ss_read_out by (auto split: if_splits)
    have hk: "hooked l1" using x(2) Inr y by (simp add: served_def)
    obtain g where g: "give_up ans l1 = Some g"
      "\<And>(r :: (string \<times> 'p) option) l'. g = Inr (r, l') \<Longrightarrow> r = None \<and> closed l' \<and> ln_out l' = ln_out l1"
      using give_up_returns [OF hk, of ans] by blast
    show ?thesis
    proof (cases "len \<le> 0")
      case True
      then show ?thesis using rd g o1 by (subst parse_loop.simps) simp
    next
      case pos: False
      have len: "length (ln_in l1) < length (ln_in l) + (if skip then 1 else 0)"
        using rd pos ss.rd_next [of l _ len d l1] by (cases skip) auto
      have sv: "served (Suc k + length (ln_in l1)) l1"
      proof (cases skip)
        case True
        then show ?thesis using rd less.prems by simp
      next
        case False
        then show ?thesis using len served_mono [OF x(2) [OF Inr [unfolded y]], of "Suc k + length (ln_in l1)"] by simp
      qed
      show ?thesis
      proof (cases "ps_exec pg parser (pending @ chars d)")
        case (Inl e)
        then show ?thesis using rd pos by (subst parse_loop.simps) simp
      next
        case ex: (Inr z)
        obtain nparse rest p1 where z: "z = (nparse, rest, p1)" by (cases z)
        obtain v where v: "parse_loop pg n ans False l1 p1 rest = Some v" "?ok l1 v"
          using less.hyps [of l1 False p1 rest] len sv by auto
        show ?thesis using rd pos ex z g v sv o1 by (subst parse_loop.simps) auto
      qed
    qed
  qed
qed

lemma recv_loop_served:
  "served (Suc k + length (ln_in l)) l \<Longrightarrow> \<exists>x. recv_loop en l parser pending = Some x \<and>
    (\<forall>r l'. x = Inr (r, l') \<longrightarrow> ln_out l' = ln_out l \<and> (if r = None then closed l' else served (Suc k + length (ln_in l')) l'))"
  unfolding recv_loop_def by (rule parse_loop_served)

lemma read_body_served:
  assumes "served (Suc k + length (ln_in l)) l" "len < 2 ^ 63"
  shows "\<exists>x. read_body ans l len rest = Some x \<and>
    (\<forall>r l'. x = Inr (r, l') \<longrightarrow> ln_out l' = ln_out l \<and> (if r = None then closed l' else served (Suc k + length (ln_in l')) l'))"
proof (cases "len - int (length rest) > 0")
  case True
  let ?left = "nat (len - int (length rest))"
  from readFix_served [OF assms(1), of "int ?left" "[]"] obtain x where x: "readFix_loop ss_read l (int ?left) [] = Some x"
    "\<And>r buf' l'. x = Inr (r, buf', l') \<Longrightarrow> ln_out l' = ln_out l \<and> (if r = None then served (Suc k + length (ln_in l')) l' else served k l')"
    by blast
  show ?thesis
  proof (cases x)
    case (Inl e)
    then show ?thesis using x(1) True by (simp add: read_body_def readFixSize_def Let_def)
  next
    case (Inr y)
    obtain r d l1 where y: "y = (r, d, l1)" by (cases y)
    note l1 = x(2) [OF Inr [unfolded y]]
    have hk: "hooked l1" using l1 by (auto simp: served_def split: if_splits)
    obtain g where g: "give_up ans l1 = Some g"
      "\<And>(r :: string option) l'. g = Inr (r, l') \<Longrightarrow> r = None \<and> closed l' \<and> ln_out l' = ln_out l1"
      using give_up_returns [OF hk, of ans] by blast
    have sz: "readFixSize ss_read l ?left = Some (Inr (fix_result ?left r, d, l1))" using x(1) Inr y by (simp add: readFixSize_def)
    show ?thesis
    proof (cases "fix_result ?left r \<le> 0")
      case le: True
      then show ?thesis using True sz g l1 by (auto simp: read_body_def Let_def)
    next
      case gt: False
      have "\<not> v \<le> 0" if "r = Some v" for v using gt that by (simp add: fix_result_def)
      moreover have "v \<le> 0" if "r = Some v" for v
      proof -
        have "?left < 2 ^ 64" using True assms(2) by (simp add: nat_less_iff)
        from ss.readFix_loop_next [OF this x(1) [unfolded Inr y that]] show ?thesis by auto
      qed
      ultimately have "r = None" by (cases r) auto
      then show ?thesis using True sz gt l1 by (auto simp: read_body_def Let_def)
    qed
  qed
next
  case False
  then show ?thesis using assms by (auto simp: read_body_def Let_def)
qed

lemma recv_body_served:
  assumes "served (Suc k + length (ln_in l)) l"
  shows "\<exists>x. recv_body en l parser rest = Some x \<and>
    (\<forall>r l'. x = Inr (r, l') \<longrightarrow> ln_out l' = ln_out l \<and> (if r = None then closed l' else served (Suc k + length (ln_in l')) l'))"
proof -
  let ?len = "sint (rp_getContentLenght (en_cast en) parser)"
  have "?len < 2 ^ 63" using sint_lt [of "rp_getContentLenght (en_cast en) parser"] by simp
  from read_body_served [OF assms this] obtain x where x: "read_body (en_close en) l ?len rest = Some x"
    "\<And>r l'. x = Inr (r, l') \<Longrightarrow> ln_out l' = ln_out l \<and> (if r = None then closed l' else served (Suc k + length (ln_in l')) l')"
    by blast
  then show ?thesis using assms by (cases x) (auto simp: recv_body_def Let_def)
qed

lemma recvRequest_served:
  assumes "served (Suc k + length (ln_in l)) l"
  shows "\<exists>x. recvRequest en l = Some x \<and>
    (\<forall>r l'. x = Inr (r, l') \<longrightarrow> ln_out l' = ln_out l \<and> (if r = None then closed l' else served (Suc k + length (ln_in l')) l'))"
proof -
  let ?p = "new_HttpRequestParser (en_tables en) (en_junk en)"
  obtain x where x: "recv_loop en l ?p [] = Some x" "\<And>r l'. x = Inr (r, l') \<Longrightarrow> ln_out l' = ln_out l \<and>
      (if r = None then closed l' else served (Suc k + length (ln_in l')) l')"
    using recv_loop_served [OF assms, of en ?p "[]"] by blast
  show ?thesis
  proof (cases x)
    case (Inl e)
    then show ?thesis using x(1) by (simp add: recvRequest_def)
  next
    case (Inr y)
    obtain r l1 where y: "y = (r, l1)" by (cases y)
    note l1 = x(2) [OF Inr [unfolded y]]
    show ?thesis
    proof (cases r)
      case None
      then show ?thesis using x(1) Inr y l1 by (simp add: recvRequest_def)
    next
      case (Some z)
      obtain rest p where z: "z = (rest, p)" by (cases z)
      have "served (Suc k + length (ln_in l1)) l1" using l1 Some by simp
      from recv_body_served [OF this, of en p rest] show ?thesis using x(1) Inr y l1 Some z by (simp add: recvRequest_def)
    qed
  qed
qed

lemma recvRequest_frame:
  assumes "recvRequest en l = Some (Inr (Some req, l'))"
  shows "\<exists>head body lost. ln_in l = head @ body @ lost @ ln_in l' \<and> head @ body @ lost \<noteq> [] \<and> rq_body req = chars body \<and>
    int (length body) = max 0 (sint (getHeaderAs (en_cast en) req ''content-length'' 0))"
proof -
  let ?p = "new_HttpRequestParser (en_tables en) (en_junk en)"
  obtain rest p l1 where r: "recv_loop en l ?p [] = Some (Inr (Some (rest, p), l1))" "recv_body en l1 p rest = Some (Inr (Some req, l'))"
    using assms by (auto simp: recvRequest_def split: option.splits)
  obtain d head where d: "ln_in l = d @ ln_in l1" "d \<noteq> []" "chars d = head @ rest" "rq_body (rp_data p) = []"
    using recv_loop_frame [OF r(1)] by (auto simp: new_HttpRequestParser_def new_HttpRequest_def)
  let ?n = "length head"
  have "drop ?n (chars d) = rest" using d(3) by simp
  then have "rest = chars (drop ?n d)" by (simp add: chars_def drop_map)
  from recv_body_frame [OF r(2) d(4) this] obtain body lost where b: "drop ?n d @ ln_in l1 = body @ lost @ ln_in l'"
    "rq_body req = chars body" "int (length body) = max 0 (sint (getHeaderAs (en_cast en) req ''content-length'' 0))" "length (drop ?n d) \<le> length (body @ lost)"
    by blast
  have whole: "ln_in l = take ?n d @ body @ lost @ ln_in l'" using d(1) b(1) by (metis append.assoc append_take_drop_id)
  moreover have "take ?n d @ body @ lost \<noteq> []" using b(4) d(2) by auto
  ultimately show ?thesis using b(2,3) by blast
qed

lemma writeFix_served:
  assumes "offset + n = length buf" "served (n + k) l"
  shows "\<exists>x. writeFix_loop ss_write l buf offset (int n) = Some x \<and> (\<forall>r l'. x = Inr (r, l') \<longrightarrow> served k l' \<and> ln_in l' = ln_in l)"
  using assms
proof (induction n arbitrary: l offset rule: less_induct)
  case (less n)
  show ?case
  proof (cases "n = 0")
    case True
    then show ?thesis using less.prems by (subst writeFix_loop.simps) simp
  next
    case False
    let ?bs = "take (nat (int n)) (drop offset buf)"
    have "served (Suc (n - 1 + k)) l" using less.prems(2) False by simp
    from ss_write_served [OF this, of ?bs] obtain x where x: "ss_write l ?bs = Some x"
      "\<And>r l'. x = Inr (r, l') \<Longrightarrow> served (n - 1 + k) l' \<and> ln_in l' = ln_in l" by blast
    show ?thesis
    proof (cases x)
      case (Inl e)
      then show ?thesis using x(1) False by (subst writeFix_loop.simps) simp
    next
      case (Inr y)
      obtain len l1 where y: "y = (len, l1)" by (cases y)
      note l1 = x(2) [OF Inr [unfolded y]]
      have bound: "len \<le> int n" using ss.wr_prefix [OF x(1) [unfolded Inr y]] less.prems(1) by simp
      show ?thesis
      proof (cases "len \<le> 0")
        case True
        have "served k l1" using l1 served_mono by fastforce
        then show ?thesis using x(1) Inr y l1 True False by (subst writeFix_loop.simps) simp
      next
        case pos: False
        obtain m where m: "int n - len = int m" "m < n" "n = nat len + m" by (rule left_after [OF pos bound])
        have "offset + nat len + m = length buf" using less.prems(1) m(3) by simp
        moreover have "served (m + k) l1" using l1 served_mono [of "n - 1 + k" l1 "m + k"] m(2) by simp
        ultimately have "\<exists>x. writeFix_loop ss_write l1 buf (offset + nat len) (int m) = Some x \<and>
            (\<forall>r l'. x = Inr (r, l') \<longrightarrow> served k l' \<and> ln_in l' = ln_in l1)"
          by (rule less.IH [OF m(2)])
        then show ?thesis using x(1) Inr y l1 pos False m(1) by (subst writeFix_loop.simps) simp
      qed
    qed
  qed
qed

lemma sendResponse_served:
  assumes "served (length (rs_dump rsp) + k) l"
  shows "\<exists>x. sendResponse l rsp = Some x \<and> (\<forall>r l'. x = Inr (r, l') \<longrightarrow> served k l' \<and> ln_in l' = ln_in l \<and>
    (\<exists>j. ln_out l' = ln_out l @ take j (bytes_of (rs_dump rsp))))"
proof -
  let ?bs = "bytes_of (rs_dump rsp)"
  have n: "0 + length ?bs = length ?bs" "served (length ?bs + k) l" using assms by (simp_all add: bytes_of_def)
  obtain x where x: "writeFix_loop ss_write l ?bs 0 (int (length ?bs)) = Some x"
    "\<And>r l'. x = Inr (r, l') \<Longrightarrow> served k l' \<and> ln_in l' = ln_in l"
    using writeFix_served [OF n] by blast
  have "\<exists>j. ln_out l' = ln_out l @ take j ?bs" if "x = Inr (r, l')" for r l'
    using ss.writeFix_loop_prefix [OF n(1) x(1) [unfolded that]] by auto
  then show ?thesis using x by (cases x) (auto simp: sendResponse_def writeFixSize_def)
qed

section \<open>Properties\<close>

text \<open>A machine for which an exclamation mark ends the head, and a connection on which five bytes come at once.\<close>

definition bang_env :: http_env where
  "bang_env = \<lparr>en_tables = \<lparr>rg_start = 1, rg_error = 0, rg_first_final = 2,
      rg_step = (\<lambda>cs c. if c = CHR ''!'' then ([Done], 2) else ([], 1))\<rparr>,
    en_junk = blank_parser, en_sizes = RequestSizeIniter 4096 65536 4096 65536, en_cast = (\<lambda>_. None), en_close = (0, 0)\<rparr>"

definition bang_link :: link where
  "bang_link = example_link\<lparr>ln_hook := (ln_hook example_link)\<lparr>t_hook_enable := True\<rparr>, ln_calls := replicate 6 (0, 0, [Sys 5 0]),
    ln_in := [97, 98, 33, 120, 121]\<rparr>"

lemma bang_read: "ss_read bang_link 4096 = Some (Inr (5, [97, 98, 33, 120, 121],
    bang_link\<lparr>ln_calls := replicate 5 (0, 0, [Sys 5 0]), ln_in := []\<rparr>))"
proof -
  have "fd_abs FdManager 7 = None" by (simp add: fd_abs_def FdManager_def)
  then have "get FdManager 7 False None fl = Inr (None, FdManager, fl)" for fl
    using get_spec [OF fd_inv_new(1), of 7 False None fl] by auto
  then show ?thesis
    by (simp add: ss_read_def bang_link_def example_link_def SocketStream_def ss_isConnected_def isConnected_def socket_call_def
        Socket_recv_def recv_hook_def do_io_def do_io_enter_def returned_def Socket_def numeral_eq_Suc)
qed


end
