(* ===== verification/Sylar_Servlet.thy ===== *)
theory Sylar_Servlet
  imports Sylar_Http
begin

text \<open>
  Servlets and their dispatch by path (\<^verbatim>\<open>sylar/http/servlet.cpp\<close>). A servlet changes the response and may
  change the request and the session, whose type is left open; what a user's function does is its value.
  \<^verbatim>\<open>fnmatch\<close> is an argument: whether a pattern matches a path.
\<close>

section \<open>Servlets\<close>

type_synonym 's handler = "HttpRequest \<Rightarrow> HttpResponse \<Rightarrow> 's \<Rightarrow> int \<times> HttpRequest \<times> HttpResponse \<times> 's"

datatype 's servlet = FunctionServlet "'s handler" | NotFounfServlet string

definition new_NotFounfServlet :: "string \<Rightarrow> 's servlet" where
  "new_NotFounfServlet name =
    NotFounfServlet (''<html><head><title>404 Not Found'' @
      ''</title></head><body><center><h1>404 Not Found</h1></center>'' @
      ''<hr><center>'' @ name @ ''</center></body></html>'')"

definition notfound_handle :: "string \<Rightarrow> HttpResponse \<Rightarrow> HttpResponse" where
  "notfound_handle content response =
    rs_setBody (rs_setHeader (rs_setHeader (rs_setStatus response NOT_FOUND) ''Server'' ''sylar/1.0.0'')
      ''Content-Type'' ''text/html'') content"

fun servlet_handle :: "'s servlet \<Rightarrow> 's handler" where
  "servlet_handle (FunctionServlet cb) request response session = cb request response session"
| "servlet_handle (NotFounfServlet content) request response session =
     (0, request, notfound_handle content response, session)"

fun servlet_name :: "'s servlet \<Rightarrow> string" where
  "servlet_name (FunctionServlet cb) = ''FunctionServlet''"
| "servlet_name (NotFounfServlet content) = ''NotFoundServlet''"

text \<open>\<open>HoldServletCreator\<close>: the servlet it holds, and its name.\<close>

definition HoldServletCreator_get :: "'s servlet \<Rightarrow> 's servlet" where "HoldServletCreator_get slt = slt"
definition HoldServletCreator_getName :: "'s servlet \<Rightarrow> string" where "HoldServletCreator_getName slt = servlet_name slt"

section \<open>Dispatch\<close>

text \<open>An entry of the exact map or of the globs may hold a null pointer.\<close>

record 's dispatch =
  sd_datas :: "string \<Rightarrow> 's servlet option option"
  sd_globs :: "(string \<times> 's servlet option) list"
  sd_default :: "'s servlet option"

definition ServletDispatch :: "'s dispatch" where
  "ServletDispatch =
    \<lparr>sd_datas = Map.empty, sd_globs = [], sd_default = Some (new_NotFounfServlet ''sylar_lzh/1.0.0'')\<rparr>"

definition addServlet :: "'s dispatch \<Rightarrow> string \<Rightarrow> 's servlet option \<Rightarrow> 's dispatch" where
  "addServlet d uri slt = d\<lparr>sd_datas := (sd_datas d)(uri \<mapsto> slt)\<rparr>"

definition addServlet_cb :: "'s dispatch \<Rightarrow> string \<Rightarrow> 's handler \<Rightarrow> 's dispatch" where
  "addServlet_cb d uri cb = d\<lparr>sd_datas := (sd_datas d)(uri \<mapsto> Some (FunctionServlet cb))\<rparr>"

text \<open>The loop that erases the first entry with a name.\<close>

fun erase_first :: "string \<Rightarrow> (string \<times> 'v) list \<Rightarrow> (string \<times> 'v) list" where
  "erase_first uri [] = []"
| "erase_first uri ((k, v) # gs) = (if k = uri then gs else (k, v) # erase_first uri gs)"

definition addGlobServlet :: "'s dispatch \<Rightarrow> string \<Rightarrow> 's servlet option \<Rightarrow> 's dispatch" where
  "addGlobServlet d uri slt = d\<lparr>sd_globs := erase_first uri (sd_globs d) @ [(uri, slt)]\<rparr>"

definition addGlobServlet_cb :: "'s dispatch \<Rightarrow> string \<Rightarrow> 's handler \<Rightarrow> 's dispatch" where
  "addGlobServlet_cb d uri cb = addGlobServlet d uri (Some (FunctionServlet cb))"

definition delServlet :: "'s dispatch \<Rightarrow> string \<Rightarrow> 's dispatch" where
  "delServlet d uri = d\<lparr>sd_globs := erase_first uri (sd_globs d)\<rparr>"

definition delGlobServlet :: "'s dispatch \<Rightarrow> string \<Rightarrow> 's dispatch" where
  "delGlobServlet d uri = d"

definition setDefault :: "'s dispatch \<Rightarrow> 's servlet option \<Rightarrow> 's dispatch" where
  "setDefault d v = d\<lparr>sd_default := v\<rparr>"

definition getServlet :: "'s dispatch \<Rightarrow> string \<Rightarrow> 's servlet option" where
  "getServlet d uri = (case sd_datas d uri of None \<Rightarrow> None | Some slt \<Rightarrow> slt)"

fun first_glob :: "(string \<Rightarrow> bool) \<Rightarrow> (string \<times> 'v) list \<Rightarrow> 'v option" where
  "first_glob P [] = None"
| "first_glob P ((k, v) # gs) = (if P k then Some v else first_glob P gs)"

definition getGlobServlet :: "'s dispatch \<Rightarrow> string \<Rightarrow> 's servlet option" where
  "getGlobServlet d uri = (case first_glob (\<lambda>k. k = uri) (sd_globs d) of None \<Rightarrow> None | Some slt \<Rightarrow> slt)"

definition getMatchServlet :: "(string \<Rightarrow> string \<Rightarrow> bool) \<Rightarrow> 's dispatch \<Rightarrow> string \<Rightarrow> 's servlet option" where
  "getMatchServlet fnmatch d uri =
    (case sd_datas d uri of
       Some slt \<Rightarrow> slt
     | None \<Rightarrow>
        (case first_glob (\<lambda>k. fnmatch (cstr k) (cstr uri)) (sd_globs d) of Some slt \<Rightarrow> slt | None \<Rightarrow> sd_default d))"

definition dispatch_handle :: "(string \<Rightarrow> string \<Rightarrow> bool) \<Rightarrow> 's dispatch \<Rightarrow> 's handler" where
  "dispatch_handle fnmatch d request response session =
    (case getMatchServlet fnmatch d (rq_path request) of
       Some slt \<Rightarrow> (0, snd (servlet_handle slt request response session))
     | None \<Rightarrow> (0, request, response, session))"

section \<open>Properties\<close>

text \<open>The operations of a client.\<close>

inductive sd_step :: "'s dispatch \<Rightarrow> 's dispatch \<Rightarrow> bool" where
  "sd_step d (addServlet d uri slt)"
| "sd_step d (addServlet_cb d uri cb)"
| "sd_step d (addGlobServlet d uri slt)"
| "sd_step d (addGlobServlet_cb d uri cb)"
| "sd_step d (delServlet d uri)"
| "sd_step d (delGlobServlet d uri)"

lemma erase_first_set: "distinct (map fst gs) \<Longrightarrow> set (erase_first uri gs) = {p \<in> set gs. fst p \<noteq> uri}"
  by (induction gs) (force split: if_splits)+

lemma erase_first_distinct: "distinct (map fst gs) \<Longrightarrow> distinct (map fst (erase_first uri gs))"
proof (induction gs)
  case (Cons p gs)
  then show ?case using erase_first_set [of gs uri] by (cases p) auto
qed simp

lemma add_glob_distinct: "distinct (map fst (sd_globs d)) \<Longrightarrow> distinct (map fst (sd_globs (addGlobServlet d uri slt)))"
  using erase_first_distinct [of "sd_globs d" uri] erase_first_set [of "sd_globs d" uri]
  by (force simp: addGlobServlet_def)

lemma sd_reach_distinct: "sd_step\<^sup>*\<^sup>* ServletDispatch d \<Longrightarrow> distinct (map fst (sd_globs d))"
proof (induction rule: rtranclp_induct)
  case base
  then show ?case by (simp add: ServletDispatch_def)
next
  case (step d1 d2)
  from step.hyps(2) step.IH show ?case
    by cases (simp_all add: addServlet_def addServlet_cb_def delServlet_def delGlobServlet_def addGlobServlet_cb_def
        add_glob_distinct erase_first_distinct)
qed

lemma first_glob_skip: "\<forall>(k, v) \<in> set as. \<not> P k \<Longrightarrow> first_glob P (as @ bs) = first_glob P bs"
  by (induction as) auto

lemma first_glob_none: "\<forall>(k, v) \<in> set gs. \<not> P k \<Longrightarrow> first_glob P gs = None"
  using first_glob_skip [of gs P "[]"] by simp

text \<open>
  C25: Which servlet answers a path. In every reachable state the names of the globs are distinct; a servlet
  registered for exactly the path answers it; otherwise the first glob, in the order of registration, whose
  pattern matches; otherwise the default one, which answers with status 404. But deleting does not work:
  \<open>delServlet\<close> leaves the exact registration in place and removes a glob of that name, and \<open>delGlobServlet\<close> does nothing.
\<close>

theorem servlet_dispatch:
  assumes "sd_step\<^sup>*\<^sup>* ServletDispatch d"
  shows "distinct (map fst (sd_globs d)) \<and>
    getMatchServlet fn (addServlet d uri (Some slt)) uri = Some slt \<and>
    (sd_datas d uri = None \<longrightarrow>
      (\<forall>as k x bs. sd_globs d = as @ (k, x) # bs \<and> fn (cstr k) (cstr uri) \<and> (\<forall>(k', v') \<in> set as. \<not> fn (cstr k') (cstr uri)) \<longrightarrow>
         getMatchServlet fn d uri = x) \<and>
      ((\<forall>(k, x) \<in> set (sd_globs d). \<not> fn (cstr k) (cstr uri)) \<longrightarrow> getMatchServlet fn d uri = sd_default d)) \<and>
    getServlet (delServlet (addServlet d uri (Some slt)) uri) uri = Some slt \<and>
    getGlobServlet (delGlobServlet (addGlobServlet d uri (Some slt)) uri) uri = Some slt \<and>
    getGlobServlet (delServlet (addGlobServlet d uri (Some slt)) uri) uri = None"
proof -
  let ?P = "\<lambda>k. fn (cstr k) (cstr uri)"
  note dist = sd_reach_distinct [OF assms]
  have absent: "\<forall>(k, v) \<in> set (erase_first uri gs). k \<noteq> uri" if "distinct (map fst gs)" for gs :: "(string \<times> 'a servlet option) list"
    using erase_first_set [OF that, of uri] by auto
  have "getMatchServlet fn d uri = x"
    if "sd_datas d uri = None" "sd_globs d = as @ (k, x) # bs" "?P k" "\<forall>(k', v') \<in> set as. \<not> ?P k'" for as k x bs
    using that first_glob_skip [of as ?P] by (simp add: getMatchServlet_def)
  moreover have "getMatchServlet fn d uri = sd_default d"
    if "sd_datas d uri = None" "\<forall>(k, x) \<in> set (sd_globs d). \<not> ?P k"
    using that first_glob_none [of "sd_globs d" ?P] by (simp add: getMatchServlet_def)
  moreover have "getGlobServlet (delServlet (addGlobServlet d uri (Some slt)) uri) uri = None"
    using first_glob_none [OF absent [OF add_glob_distinct [OF dist]]] by (simp add: getGlobServlet_def delServlet_def)
  moreover have "getGlobServlet (delGlobServlet (addGlobServlet d uri (Some slt)) uri) uri = Some slt"
    using first_glob_skip [OF absent [OF dist]] by (simp add: getGlobServlet_def delGlobServlet_def addGlobServlet_def)
  ultimately show ?thesis
    using dist by (auto simp: getMatchServlet_def addServlet_def getServlet_def delServlet_def)
qed

theorem servlet_dispatch_witness:
  "getServlet (delServlet (addServlet (ServletDispatch :: string dispatch) ''/a'' (Some (NotFounfServlet ''x''))) ''/a'') ''/a'' =
    Some (NotFounfServlet ''x'')"
  using servlet_dispatch [of "ServletDispatch :: string dispatch" _ "''/a''" "NotFounfServlet ''x''"] by blast

end
