(* ===== verification/Sylar_TcpServer.thy ===== *)
theory Sylar_TcpServer
  imports Sylar_Socket
begin

text \<open>
  The TCP server (\<^verbatim>\<open>sylar/tcp_server.cpp\<close>). Sockets are shared between the server and the tasks it gives to its
  workers, so they live in a store and a pointer is an index of it. Dropping the last pointer to a socket closes it.
  The tasks given to the two workers are kept as lists; the schedulers that run them are those of
  \<^verbatim>\<open>Sylar_Scheduler\<close> and \<^verbatim>\<open>Sylar_IOManager\<close>. A worker may be a null pointer.
\<close>

section \<open>Operations\<close>

datatype tcp_task = Start_accept nat | Handle_client nat | Stop_all

record net =
  nt_hook :: hook
  nt_objs :: "socket list"

record tcp_server =
  ts_socks :: "nat list"
  ts_worker :: "tcp_task list option"
  ts_acceptWorker :: "tcp_task list option"
  ts_recvTimeout :: u64
  ts_name :: string
  ts_type :: string
  ts_isStop :: bool

text \<open>\<open>timeout\<close> is the value of the configuration variable \<^verbatim>\<open>tcp_server.read_timeout\<close>.\<close>

definition TcpServer :: "tcp_task list option \<Rightarrow> tcp_task list option \<Rightarrow> u64 \<Rightarrow> tcp_server" where
  "TcpServer worker accept_worker timeout =
    \<lparr>ts_socks = [], ts_worker = worker, ts_acceptWorker = accept_worker, ts_recvTimeout = timeout,
     ts_name = ''sylar/1.0.0'', ts_type = ''tcp'', ts_isStop = True\<rparr>"

definition ts_setRecvTimeout :: "tcp_server \<Rightarrow> u64 \<Rightarrow> tcp_server" where
  "ts_setRecvTimeout srv v = srv\<lparr>ts_recvTimeout := v\<rparr>"

definition ts_setName :: "tcp_server \<Rightarrow> string \<Rightarrow> tcp_server" where
  "ts_setName srv v = srv\<lparr>ts_name := v\<rparr>"

definition schedule_task :: "tcp_task \<Rightarrow> tcp_task list option \<Rightarrow> tcp_task list option res" where
  "schedule_task t w = (case w of None \<Rightarrow> Inl Null_deref | Some ts \<Rightarrow> Inr (Some (ts @ [t])))"

text \<open>\<open>ans\<close> gives the answers of the kernel for closing the socket at an address.\<close>

fun close_socks :: "(nat \<Rightarrow> int \<times> int) \<Rightarrow> net \<Rightarrow> nat list \<Rightarrow> net run" where
  "close_socks ans n [] = Some (Inr n)"
| "close_socks ans n (a # as) =
     bindR (Socket_close (nt_hook n) (nt_objs n ! a) (fst (ans a)) (snd (ans a))) (\<lambda>(_, h, s).
       close_socks ans (n\<lparr>nt_hook := h, nt_objs := (nt_objs n)[a := s]\<rparr>) as)"

definition TcpServer_destroy :: "(nat \<Rightarrow> int \<times> int) \<Rightarrow> tcp_server \<Rightarrow> net \<Rightarrow> (tcp_server \<times> net) run" where
  "TcpServer_destroy ans srv n =
    bindR (close_socks ans n (ts_socks srv)) (\<lambda>n1. Some (Inr (srv\<lparr>ts_socks := []\<rparr>, n1)))"

text \<open>A socket that a task still holds outlives the server's list.\<close>

definition held :: "tcp_server \<Rightarrow> nat \<Rightarrow> bool" where
  "held srv a = (case ts_acceptWorker srv of None \<Rightarrow> False | Some ts \<Rightarrow> Start_accept a \<in> set ts)"

definition clear_socks :: "(nat \<Rightarrow> int \<times> int) \<Rightarrow> tcp_server \<Rightarrow> net \<Rightarrow> (tcp_server \<times> net) run" where
  "clear_socks ans srv n =
    bindR (close_socks ans n (filter (\<lambda>a. \<not> held srv a) (ts_socks srv))) (\<lambda>n1.
      Some (Inr (srv\<lparr>ts_socks := []\<rparr>, n1)))"

text \<open>What the kernel answers for one address: \<^verbatim>\<open>socket\<close>, \<^verbatim>\<open>bind\<close>, \<^verbatim>\<open>listen\<close>, and a \<^verbatim>\<open>close\<close>.\<close>

record bind_answer =
  bn_sock :: "int \<times> int \<times> bool option"
  bn_bind :: int
  bn_listen :: int
  bn_close :: "int \<times> int"

fun bind_all ::
  "sys \<Rightarrow> net \<Rightarrow> (address \<times> bind_answer) list \<Rightarrow> nat list \<Rightarrow> address list \<Rightarrow> (net \<times> nat list \<times> address list) run"
where
  "bind_all k n [] socks fails = Some (Inr (n, socks, fails))"
| "bind_all k n ((addr, b) # as) socks fails =
     bindR (Some (Socket_bind k (nt_hook n) (CreateTCP addr) addr (bn_sock b) (bn_bind b))) (\<lambda>(ok, h1, s1).
       if \<not> ok \<or> \<not> Socket_listen s1 (bn_listen b) then
         bindR (Socket_close h1 s1 (fst (bn_close b)) (snd (bn_close b))) (\<lambda>(_, h2, _).
           bind_all k (n\<lparr>nt_hook := h2\<rparr>) as socks (fails @ [addr]))
       else bind_all k (n\<lparr>nt_hook := h1, nt_objs := nt_objs n @ [s1]\<rparr>) as (socks @ [length (nt_objs n)]) fails)"

definition TcpServer_bind_all ::
  "sys \<Rightarrow> (nat \<Rightarrow> int \<times> int) \<Rightarrow> tcp_server \<Rightarrow> net \<Rightarrow> (address \<times> bind_answer) list \<Rightarrow> address list \<Rightarrow>
    (bool \<times> address list \<times> tcp_server \<times> net) run"
where
  "TcpServer_bind_all k ans srv n addrs fails =
    bindR (bind_all k n addrs (ts_socks srv) fails) (\<lambda>(n1, socks, fails1).
      let srv1 = srv\<lparr>ts_socks := socks\<rparr> in
      if fails1 \<noteq> [] then
        bindR (clear_socks ans srv1 n1) (\<lambda>(srv2, n2). Some (Inr (False, fails1, srv2, n2)))
      else Some (Inr (True, fails1, srv1, n1)))"

definition TcpServer_bind ::
  "sys \<Rightarrow> (nat \<Rightarrow> int \<times> int) \<Rightarrow> tcp_server \<Rightarrow> net \<Rightarrow> address \<Rightarrow> bind_answer \<Rightarrow> (bool \<times> tcp_server \<times> net) run"
where
  "TcpServer_bind k ans srv n addr b =
    bindR (TcpServer_bind_all k ans srv n [(addr, b)] []) (\<lambda>(r, _, srv1, n1). Some (Inr (r, srv1, n1)))"

fun schedule_accepts :: "nat list \<Rightarrow> tcp_task list option \<Rightarrow> tcp_task list option res" where
  "schedule_accepts [] w = Inr w"
| "schedule_accepts (a # as) w = bindE (schedule_task (Start_accept a) w) (\<lambda>w'. schedule_accepts as w')"

definition TcpServer_start :: "tcp_server \<Rightarrow> (bool \<times> tcp_server) res" where
  "TcpServer_start srv =
    (if \<not> ts_isStop srv then Inr (True, srv)
     else bindE (schedule_accepts (ts_socks srv) (ts_acceptWorker srv)) (\<lambda>w.
       Inr (True, srv\<lparr>ts_isStop := False, ts_acceptWorker := w\<rparr>)))"

definition TcpServer_stop :: "tcp_server \<Rightarrow> tcp_server res" where
  "TcpServer_stop srv =
    bindE (schedule_task Stop_all (ts_acceptWorker srv)) (\<lambda>w. Inr (srv\<lparr>ts_isStop := True, ts_acceptWorker := w\<rparr>))"

text \<open>The task that \<open>stop\<close> schedules; \<open>ans\<close> now also answers the cancellation, first.\<close>

fun stop_socks :: "(nat \<Rightarrow> int \<times> int \<times> int) \<Rightarrow> net \<Rightarrow> nat list \<Rightarrow> net run" where
  "stop_socks ans n [] = Some (Inr n)"
| "stop_socks ans n (a # as) =
     bindR (Some (Socket_cancelAll (nt_hook n) (nt_objs n ! a) (fst (ans a)))) (\<lambda>(_, h1).
     bindR (Socket_close h1 (nt_objs n ! a) (fst (snd (ans a))) (snd (snd (ans a)))) (\<lambda>(_, h2, s).
       stop_socks ans (n\<lparr>nt_hook := h2, nt_objs := (nt_objs n)[a := s]\<rparr>) as))"

definition stop_task :: "(nat \<Rightarrow> int \<times> int \<times> int) \<Rightarrow> tcp_server \<Rightarrow> net \<Rightarrow> (tcp_server \<times> net) run" where
  "stop_task ans srv n =
    bindR (stop_socks ans n (ts_socks srv)) (\<lambda>n1. clear_socks (\<lambda>a. snd (ans a)) srv n1)"

text \<open>One round of the accepting loop: what the check of \<open>m_isStop\<close> reads, and the answers of the kernel.\<close>

record accept_round =
  ar_stop :: bool
  ar_w :: nat
  ar_cur :: nat
  ar_calls :: "io_answer list"
  ar_fstat :: "bool option"
  ar_opt :: int

definition accept_one :: "sys \<Rightarrow> tcp_server \<Rightarrow> net \<Rightarrow> nat \<Rightarrow> accept_round \<Rightarrow> (tcp_server \<times> net) run" where
  "accept_one k srv n a rd =
    bindR (Socket_accept k (nt_hook n) (nt_objs n ! a) (ar_w rd) (ar_cur rd) (ar_calls rd) (ar_fstat rd)) (\<lambda>(c, h1).
      case c of
        None \<Rightarrow> Some (Inr (srv, n\<lparr>nt_hook := h1\<rparr>))
      | Some client \<Rightarrow>
          Some (bindE (setRecvTimeout h1 client (ts_recvTimeout srv) (ar_opt rd)) (\<lambda>h2.
            bindE (schedule_task (Handle_client (length (nt_objs n))) (ts_worker srv)) (\<lambda>w.
              Inr (srv\<lparr>ts_worker := w\<rparr>, n\<lparr>nt_hook := h2, nt_objs := nt_objs n @ [client]\<rparr>)))))"

text \<open>The loop, for as many rounds as are given.\<close>

fun startAccept :: "sys \<Rightarrow> tcp_server \<Rightarrow> net \<Rightarrow> nat \<Rightarrow> accept_round list \<Rightarrow> (tcp_server \<times> net) run" where
  "startAccept k srv n a [] = None"
| "startAccept k srv n a (rd # rds) =
     (if ar_stop rd then Some (Inr (srv, n))
      else bindR (accept_one k srv n a rd) (\<lambda>(srv1, n1). startAccept k srv1 n1 a rds))"

text \<open>The names of the workers are those of their schedulers, empty for a null pointer.\<close>

definition TcpServer_tostring :: "u8 \<Rightarrow> string \<Rightarrow> string \<Rightarrow> tcp_server \<Rightarrow> net \<Rightarrow> string \<Rightarrow> string" where
  "TcpServer_tostring host worker accept srv n prefix =
    prefix @ ''[type='' @ ts_type srv @ '' name = '' @ ts_name srv @ '' worker = '' @ worker @ '' accept= '' @ accept @
    '' recv_timeout = '' @ dec (unat (ts_recvTimeout srv)) @ '']'' @ [CHR 0x0A] @
    concat (map (\<lambda>a. (let pfx = (if prefix = [] then ''    '' else prefix) in pfx @ pfx) @
      Socket_dump host (nt_objs n ! a) @ [CHR 0x0A]) (ts_socks srv))"

section \<open>Binding\<close>

lemma bind_all_outcome:
  assumes "sys_ok k" "bind_all k n addrs socks fails = Some (Inr (n', socks', fails'))"
  shows "\<exists>objs more. nt_objs n' = nt_objs n @ objs \<and> fails' = fails @ more \<and>
    socks' = socks @ [length (nt_objs n) ..< length (nt_objs n')] \<and>
    (\<forall>s \<in> set objs. sock_ok s \<and> isValid s \<and> m_type s = SOCK_STREAM) \<and> length objs + length more = length addrs \<and>
    set more \<subseteq> fst ` set addrs \<and> (more = [] \<longrightarrow> map m_family objs = map (\<lambda>(a, b). uint (getFamily a)) addrs)"
  using assms(2)
proof (induction addrs arbitrary: n socks fails)
  case (Cons p addrs)
  obtain addr b where p: "p = (addr, b)" by (cases p)
  obtain ok h1 s1 where bd: "Socket_bind k (nt_hook n) (CreateTCP addr) addr (bn_sock b) (bn_bind b) = Inr (ok, h1, s1)"
    using Cons.prems p by auto
  have new: "sock_ok (CreateTCP addr)" by (simp add: CreateTCP_def Socket_ok)
  note s1 = Socket_bind_ok [OF bd new assms(1)]
  show ?case
  proof (cases "\<not> ok \<or> \<not> Socket_listen s1 (bn_listen b)")
    case True
    then obtain h2 where "bind_all k (n\<lparr>nt_hook := h2\<rparr>) addrs socks (fails @ [addr]) = Some (Inr (n', socks', fails'))"
      using Cons.prems p bd by auto
    from Cons.IH [OF this] show ?thesis
      using p by (auto simp: image_iff)
  next
    case False
    then have "bind_all k (n\<lparr>nt_hook := h1, nt_objs := nt_objs n @ [s1]\<rparr>) addrs (socks @ [length (nt_objs n)]) fails =
        Some (Inr (n', socks', fails'))"
      using Cons.prems p bd by auto
    from Cons.IH [OF this] obtain objs more where ih: "nt_objs n' = (nt_objs n @ [s1]) @ objs" "fails' = fails @ more"
      "socks' = (socks @ [length (nt_objs n)]) @ [Suc (length (nt_objs n)) ..< length (nt_objs n')]"
      "\<forall>s \<in> set objs. sock_ok s \<and> isValid s \<and> m_type s = SOCK_STREAM" "length objs + length more = length addrs"
      "set more \<subseteq> fst ` set addrs" "more = [] \<longrightarrow> map m_family objs = map (\<lambda>(a, b). uint (getFamily a)) addrs"
      by auto
    have "sock_ok s1 \<and> isValid s1 \<and> m_type s1 = SOCK_STREAM \<and> m_family s1 = uint (getFamily addr)"
      using s1 False by (auto simp: same_kind_def CreateTCP_def Socket_def)
    moreover have "[length (nt_objs n) ..< length (nt_objs n')] = length (nt_objs n) # [Suc (length (nt_objs n)) ..< length (nt_objs n')]"
      using ih(1) by (intro upt_conv_Cons) simp
    ultimately show ?thesis
      using ih p by (intro exI [of _ "s1 # objs"] exI [of _ more]) auto
  qed
qed simp
lemma close_socks_outcome:
  assumes "close_socks ans n as = Some (Inr n')"
  shows "length (nt_objs n') = length (nt_objs n) \<and>
    (\<forall>a < length (nt_objs n). if a \<in> set as then \<not> isValid (nt_objs n' ! a) else nt_objs n' ! a = nt_objs n ! a)"
  using assms
proof (induction as arbitrary: n)
  case (Cons a as)
  then obtain b h s where s: "Socket_close (nt_hook n) (nt_objs n ! a) (fst (ans a)) (snd (ans a)) = Some (Inr (b, h, s))"
    "close_socks ans (n\<lparr>nt_hook := h, nt_objs := (nt_objs n)[a := s]\<rparr>) as = Some (Inr n')"
    by auto
  show ?case
    using Cons.IH [OF s(2)] close_invalid [OF s(1)] by (auto simp: nth_list_update split: if_splits)
qed simp

section \<open>Stopping\<close>

lemma Socket_close_gone [simp]: "\<not> isValid s \<Longrightarrow> \<not> isConnected s \<Longrightarrow> Socket_close h s rt r = Some (Inr (False, h, s))"
  by (simp add: Socket_close_def isValid_def isConnected_def)

lemma close_socks_gone:
  "\<forall>a \<in> set as. \<not> isValid (nt_objs n ! a) \<and> \<not> isConnected (nt_objs n ! a) \<Longrightarrow> close_socks ans n as = Some (Inr n)"
  by (induction as) simp_all

text \<open>A thread of an I/O manager: hooks are enabled, the tables are well formed.\<close>

definition on_manager :: "hook \<Rightarrow> hook_cb iom \<Rightarrow> bool" where
  "on_manager h io \<longleftrightarrow> t_hook_enable h \<and> fd_inv (hk_fds h) \<and> hk_iom h = Some io \<and> io_inv io"

lemma close_on_manager:
  assumes "on_manager h io" "0 \<le> m_sock s"
  shows "\<exists>h' s'. Socket_close h s rt r = Some (Inr (False, h', s')) \<and> on_manager h' io \<and> \<not> isValid s' \<and> \<not> isConnected s' \<and>
    fd_abs (hk_fds h') = (fd_abs (hk_fds h))(m_sock s := None)"
proof -
  obtain ds where "close_hook h (m_sock s) rt r = Some (Inr (r, h\<lparr>hk_fds := ds\<rparr>))" "fd_inv ds"
    "fd_abs ds = (fd_abs (hk_fds h))(m_sock s := None)"
    using close_hook_on [of h "m_sock s" io] assms by (auto simp: on_manager_def)
  then show ?thesis
    using assms by (simp add: Socket_close_def isValid_def isConnected_def on_manager_def Let_def)
qed

lemma cancel_on_manager:
  assumes "on_manager h io" "0 \<le> m_sock s"
  shows "\<exists>b. Socket_cancelAll h s rt = Inr (b, h)"
  using assms cancelAll_eq [of io "m_sock s" rt] by (simp add: on_manager_def Socket_cancelAll_def with_iom_def)

lemma stop_socks_ok:
  assumes "on_manager (nt_hook n) io" "distinct as" "\<forall>a \<in> set as. a < length (nt_objs n) \<and> 0 \<le> m_sock (nt_objs n ! a)"
  shows "\<exists>n'. stop_socks ans n as = Some (Inr n') \<and> on_manager (nt_hook n') io \<and> length (nt_objs n') = length (nt_objs n) \<and>
    (\<forall>a \<in> set as. \<not> isValid (nt_objs n' ! a) \<and> \<not> isConnected (nt_objs n' ! a)) \<and>
    (\<forall>a. a \<notin> set as \<longrightarrow> nt_objs n' ! a = nt_objs n ! a) \<and>
    (\<forall>fd. fd_abs (hk_fds (nt_hook n')) fd =
      (if fd \<in> (\<lambda>a. m_sock (nt_objs n ! a)) ` set as then None else fd_abs (hk_fds (nt_hook n)) fd))"
  using assms
proof (induction as arbitrary: n)
  case (Cons a as)
  have a: "a < length (nt_objs n)" "0 \<le> m_sock (nt_objs n ! a)" "a \<notin> set as" using Cons.prems(2,3) by auto
  obtain b where c: "Socket_cancelAll (nt_hook n) (nt_objs n ! a) (fst (ans a)) = Inr (b, nt_hook n)"
    using cancel_on_manager [OF Cons.prems(1) a(2)] by blast
  obtain h s where s: "Socket_close (nt_hook n) (nt_objs n ! a) (fst (snd (ans a))) (snd (snd (ans a))) = Some (Inr (False, h, s))"
    "on_manager h io" "\<not> isValid s" "\<not> isConnected s" "fd_abs (hk_fds h) = (fd_abs (hk_fds (nt_hook n)))(m_sock (nt_objs n ! a) := None)"
    using close_on_manager [OF Cons.prems(1) a(2)] by blast
  let ?n = "n\<lparr>nt_hook := h, nt_objs := (nt_objs n)[a := s]\<rparr>"
  have other: "nt_objs ?n ! x = nt_objs n ! x" if "x \<in> set as" for x using that a(3) by (auto intro: nth_list_update_neq)
  then have "\<forall>x \<in> set as. x < length (nt_objs ?n) \<and> 0 \<le> m_sock (nt_objs ?n ! x)" using Cons.prems(3) by auto
  from Cons.IH [OF _ _ this] obtain n' where n': "stop_socks ans ?n as = Some (Inr n')" "on_manager (nt_hook n') io"
    "length (nt_objs n') = length (nt_objs ?n)"
    "\<forall>a \<in> set as. \<not> isValid (nt_objs n' ! a) \<and> \<not> isConnected (nt_objs n' ! a)"
    "\<forall>a. a \<notin> set as \<longrightarrow> nt_objs n' ! a = nt_objs ?n ! a"
    "\<forall>fd. fd_abs (hk_fds (nt_hook n')) fd =
      (if fd \<in> (\<lambda>a. m_sock (nt_objs ?n ! a)) ` set as then None else fd_abs (hk_fds (nt_hook ?n)) fd)"
    using Cons.prems(2) s(2) by auto
  have img: "(\<lambda>x. m_sock (nt_objs ?n ! x)) ` set as = (\<lambda>x. m_sock (nt_objs n ! x)) ` set as"
    using other by (intro image_cong) auto
  have "stop_socks ans n (a # as) = Some (Inr n')" using c s(1) n'(1) by simp
  moreover have "\<not> isValid (nt_objs n' ! a) \<and> \<not> isConnected (nt_objs n' ! a)" using n'(5) a s(3,4) by simp
  moreover have "nt_objs n' ! x = nt_objs n ! x" if "x \<notin> set (a # as)" for x using that n'(5) by simp
  moreover have "fd_abs (hk_fds (nt_hook n')) fd =
      (if fd \<in> (\<lambda>a. m_sock (nt_objs n ! a)) ` set (a # as) then None else fd_abs (hk_fds (nt_hook n)) fd)" for fd
    using n'(6) img s(5) by simp
  ultimately show ?case using n'(2,3,4) by auto
qed simp

section \<open>Properties\<close>

definition quiet_sys :: sys where
  "quiet_sys = \<lparr>sys_setsockopt = (\<lambda>_ _. 0), sys_name = (\<lambda>_ _. None), sys_peer = (\<lambda>_ _. None)\<rparr>"

definition plain_hook :: hook where
  "plain_hook = \<lparr>t_hook_enable = False, s_connect_timeout = 5000, hk_fds = FdManager, hk_flags = (\<lambda>_. 0), hk_iom = None,
    hk_tinfo = (\<lambda>_. None), hk_errno = 0\<rparr>"

definition loopback :: address where "loopback = IPv4 (IPv4Address 0 0x7F000001 80)"

lemmas bind_eval = TcpServer_bind_all_def Socket_bind_def ensure_sock_def isValid_def CreateTCP_def Socket_def newSock_def
  socket_hook_def initSock_def setOption_def setsockopt_hook_def returned_def getLocalAddress_def Socket_listen_def
  quiet_sys_def plain_hook_def loopback_def getFamily_def IPv4Address_def TcpServer_def Let_def


text \<open>
  A failed \<open>bind\<close> on a thread without hooks, as the main thread is, never returns: the socket is destroyed, and
  the hooked \<open>close\<close> calls itself.
\<close>

theorem tcp_bind_hangs:
  assumes "\<not> t_hook_enable (nt_hook n)" "bn_bind b \<noteq> 0" "bn_sock b = (fd, e, st)" "fd \<noteq> -1"
  shows "TcpServer_bind k ans srv n addr b = None"
proof -
  let ?s = "(CreateTCP addr)\<lparr>m_sock := fd\<rparr>"
  have "Socket_bind k (nt_hook n) (CreateTCP addr) addr (bn_sock b) (bn_bind b) = Inr (False, returned (nt_hook n) fd e, ?s)"
    using assms by (simp add: Socket_bind_def ensure_sock_def isValid_def CreateTCP_def Socket_def newSock_def
      socket_hook_def initSock_def setOption_def setsockopt_hook_def returned_def Let_def)
  moreover have "Socket_close (returned (nt_hook n) fd e) ?s rt r = None" for rt r
    using assms close_hook_enabled [of "returned (nt_hook n) fd e" fd rt r]
    by (cases "close_hook (returned (nt_hook n) fd e) fd rt r")
      (auto simp: Socket_close_def CreateTCP_def Socket_def returned_def Let_def)
  ultimately show ?thesis by (simp add: TcpServer_bind_def TcpServer_bind_all_def)
qed

text \<open>
  C28: Stopping. The task that \<open>stop\<close> schedules, run on a thread of the I/O manager, returns; every listening
  socket is closed, its descriptor is gone from the table of the hooks, and the server owns none. But the I/O manager
  is left as it was: the fibers that wait in \<open>accept\<close> are not woken and keep waiting.
\<close>

theorem tcp_stop_effect:
  assumes "on_manager (nt_hook n) io" "distinct (ts_socks srv)"
    "\<forall>a \<in> set (ts_socks srv). a < length (nt_objs n) \<and> 0 \<le> m_sock (nt_objs n ! a)"
  shows "\<exists>n'. stop_task ans srv n = Some (Inr (srv\<lparr>ts_socks := []\<rparr>, n')) \<and>
    (\<forall>a \<in> set (ts_socks srv). \<not> isValid (nt_objs n' ! a) \<and> fd_abs (hk_fds (nt_hook n')) (m_sock (nt_objs n ! a)) = None) \<and>
    (\<forall>a. a \<notin> set (ts_socks srv) \<longrightarrow> nt_objs n' ! a = nt_objs n ! a) \<and> hk_iom (nt_hook n') = hk_iom (nt_hook n)"
proof -
  obtain n' where n': "stop_socks ans n (ts_socks srv) = Some (Inr n')" "on_manager (nt_hook n') io"
    "\<forall>a \<in> set (ts_socks srv). \<not> isValid (nt_objs n' ! a) \<and> \<not> isConnected (nt_objs n' ! a)"
    "\<forall>a. a \<notin> set (ts_socks srv) \<longrightarrow> nt_objs n' ! a = nt_objs n ! a"
    "\<forall>fd. fd_abs (hk_fds (nt_hook n')) fd =
      (if fd \<in> (\<lambda>a. m_sock (nt_objs n ! a)) ` set (ts_socks srv) then None else fd_abs (hk_fds (nt_hook n)) fd)"
    using stop_socks_ok [OF assms] by blast
  have "close_socks (\<lambda>a. snd (ans a)) n' (filter (\<lambda>a. \<not> held srv a) (ts_socks srv)) = Some (Inr n')"
    using n'(3) by (intro close_socks_gone) simp
  then have "stop_task ans srv n = Some (Inr (srv\<lparr>ts_socks := []\<rparr>, n'))"
    using n'(1) by (simp add: stop_task_def clear_socks_def)
  moreover have "hk_iom (nt_hook n') = hk_iom (nt_hook n)" using n'(2) assms(1) by (simp add: on_manager_def)
  ultimately show ?thesis using n'(3-5) by auto
qed

theorem tcp_stop_effect_witness:
  "\<exists>n srv n'. ts_socks srv = [0] \<and> isValid (nt_objs n ! 0) \<and> stop_task (\<lambda>_. (0, 0, 0)) srv n = Some (Inr (srv\<lparr>ts_socks := []\<rparr>, n')) \<and>
    \<not> isValid (nt_objs n' ! 0)"
proof -
  obtain io :: "hook_cb iom" where "IOManager 1 True False 5 7 [] 0 99 (3, 4) 6 0 0 0 = Inr io"
    using manager_example by blast
  then have io: "io_inv io" by (rule io_inv_init)
  define n where "n = \<lparr>nt_hook = plain_hook\<lparr>t_hook_enable := True, hk_iom := Some io\<rparr>, nt_objs = [CreateTCPSocket\<lparr>m_sock := 7\<rparr>]\<rparr>"
  define srv where "srv = (TcpServer (Some []) (Some []) 9)\<lparr>ts_socks := [0]\<rparr>"
  have n: "on_manager (nt_hook n) io" "distinct (ts_socks srv)"
    "\<forall>a \<in> set (ts_socks srv). a < length (nt_objs n) \<and> 0 \<le> m_sock (nt_objs n ! a)"
    using io by (simp_all add: n_def srv_def on_manager_def plain_hook_def fd_inv_new)
  have "ts_socks srv = [0]" "isValid (nt_objs n ! 0)" by (simp_all add: n_def srv_def isValid_def)
  then show ?thesis using tcp_stop_effect [OF n, of "\<lambda>_. (0, 0, 0)"] by (metis list.set_intros(1))
qed

lemma accept_one_outcome:
  assumes "sys_ok k" "ts_worker srv = Some ws" "accept_one k srv n a rd = Some (Inr (srv', n'))"
  shows "srv' = srv \<and> nt_objs n' = nt_objs n \<or>
    (\<exists>c. nt_objs n' = nt_objs n @ [c] \<and> srv' = srv\<lparr>ts_worker := Some (ws @ [Handle_client (length (nt_objs n))])\<rparr> \<and>
      isConnected c \<and> isValid c \<and> same_kind (nt_objs n ! a) c)"
proof -
  let ?s = "nt_objs n ! a"
  obtain c h1 where c: "Socket_accept k (nt_hook n) ?s (ar_w rd) (ar_cur rd) (ar_calls rd) (ar_fstat rd) = Some (Inr (c, h1))"
    using assms(3) by (auto simp: accept_one_def)
  show ?thesis
  proof (cases c)
    case None
    then show ?thesis using assms(3) c by (auto simp: accept_one_def)
  next
    case (Some client)
    then obtain h fd h2 where i: "Socket_init k h (Socket (m_family ?s) (m_type ?s) (m_protocol ?s)) fd = Inr (True, h2, client)"
      using c by (auto simp: Socket_accept_def Let_def split: if_splits)
    from Socket_init_ok [OF i Socket_ok assms(1)] have "isConnected client" "isValid client" "same_kind ?s client"
      by (auto simp: sock_ok_def isConnected_def isValid_def same_kind_def Socket_def)
    then show ?thesis using assms(2,3) c Some by (auto simp: accept_one_def schedule_task_def)
  qed
qed

text \<open>
  C26: Accepting. The loop for a listening socket ends at the first round that sees the server stopped and accepts at
  most one connection in each round before it. Every accepted connection is a new connected socket of the kind of the
  listening one, and exactly one task to handle it is given to the worker, in the order of acceptance; nothing else
  of the server changes.
\<close>

theorem tcp_accept_loop:
  assumes "sys_ok k" "a < length (nt_objs n)" "ts_worker srv = Some ws" "startAccept k srv n a rds = Some (Inr (srv', n'))"
  shows "\<exists>cs i. nt_objs n' = nt_objs n @ cs \<and> i < length rds \<and> ar_stop (rds ! i) \<and> (\<forall>j < i. \<not> ar_stop (rds ! j)) \<and>
    length cs \<le> i \<and> srv' = srv\<lparr>ts_worker := Some (ws @ map Handle_client [length (nt_objs n) ..< length (nt_objs n')])\<rparr> \<and>
    (\<forall>c \<in> set cs. isConnected c \<and> isValid c \<and> same_kind (nt_objs n ! a) c)"
  using assms(2-4)
proof (induction rds arbitrary: srv n ws)
  case (Cons rd rds)
  show ?case
  proof (cases "ar_stop rd")
    case True
    have "srv = srv\<lparr>ts_worker := Some ws\<rparr>" using Cons.prems(2) by simp
    then show ?thesis using Cons.prems(3) True by (intro exI [of _ "[]"] exI [of _ 0]) auto
  next
    case False
    then obtain srv1 n1 where r: "accept_one k srv n a rd = Some (Inr (srv1, n1))" "startAccept k srv1 n1 a rds = Some (Inr (srv', n'))"
      using Cons.prems(3) by auto
    from accept_one_outcome [OF assms(1) Cons.prems(2) r(1)] obtain c ws1 where one:
      "nt_objs n1 = nt_objs n @ c" "length c \<le> 1" "ws1 = ws @ map Handle_client [length (nt_objs n) ..< length (nt_objs n1)]"
      "srv1 = srv\<lparr>ts_worker := Some ws1\<rparr>" "\<forall>x \<in> set c. isConnected x \<and> isValid x \<and> same_kind (nt_objs n ! a) x"
      using Cons.prems(2) by (elim disjE exE) force+
    have "a < length (nt_objs n1)" "ts_worker srv1 = Some ws1" using one Cons.prems(1) by simp_all
    from Cons.IH [OF this r(2)] obtain cs i where ih: "nt_objs n' = nt_objs n1 @ cs" "i < length rds" "ar_stop (rds ! i)"
      "\<forall>j < i. \<not> ar_stop (rds ! j)" "length cs \<le> i"
      "srv' = srv1\<lparr>ts_worker := Some (ws1 @ map Handle_client [length (nt_objs n1) ..< length (nt_objs n')])\<rparr>"
      "\<forall>x \<in> set cs. isConnected x \<and> isValid x \<and> same_kind (nt_objs n1 ! a) x" by blast
    have same: "nt_objs n1 ! a = nt_objs n ! a" using one(1) Cons.prems(1) by (simp add: nth_append)
    have "[length (nt_objs n) ..< length (nt_objs n1)] @ [length (nt_objs n1) ..< length (nt_objs n')] =
        [length (nt_objs n) ..< length (nt_objs n')]"
      using one(1) ih(1) by (metis le_add1 length_append upt_add_eq_append le_iff_add)
    then have "srv' = srv\<lparr>ts_worker := Some (ws @ map Handle_client [length (nt_objs n) ..< length (nt_objs n')])\<rparr>"
      using ih(6) one(3,4) by (metis append_assoc map_append tcp_server.surjective tcp_server.update_convs(2))
    moreover have "\<forall>j < Suc i. \<not> ar_stop ((rd # rds) ! j)" using False ih(4) by (auto simp: less_Suc_eq_0_disj)
    ultimately show ?thesis
      using one ih same by (intro exI [of _ "c @ cs"] exI [of _ "Suc i"]) auto
  qed
qed simp

theorem tcp_accept_loop_witness:
  "\<exists>n srv n'. startAccept quiet_sys (TcpServer (Some []) (Some []) 9) n 0
      [\<lparr>ar_stop = False, ar_w = 0, ar_cur = 0, ar_calls = [Sys 8 0], ar_fstat = Some True, ar_opt = 0\<rparr>,
       \<lparr>ar_stop = True, ar_w = 0, ar_cur = 0, ar_calls = [], ar_fstat = None, ar_opt = 0\<rparr>] = Some (Inr (srv, n')) \<and>
    length (nt_objs n) = 1 \<and> ts_worker srv = Some [Handle_client 1]"
proof -
  let ?s = "CreateTCPSocket\<lparr>m_sock := 7\<rparr>"
  define n where "n = \<lparr>nt_hook = plain_hook, nt_objs = [?s]\<rparr>"
  define rd where "rd = \<lparr>ar_stop = False, ar_w = 0, ar_cur = 0, ar_calls = [Sys 8 0], ar_fstat = Some True, ar_opt = 0\<rparr>"
  define rd2 where "rd2 = \<lparr>ar_stop = True, ar_w = 0, ar_cur = 0, ar_calls = [], ar_fstat = None, ar_opt = 0 :: int\<rparr>"
  let ?srv = "TcpServer (Some []) (Some []) 9"
  obtain c ds fl where g: "get FdManager 8 True (Some True) (\<lambda>_. 0) = Inr (Some c, ds, fl)" "fd_inv ds" "fd_abs ds 8 = Some c"
    "m_isSocket c" "\<not> m_isClsed c"
  proof -
    have "fd_abs FdManager 8 = None" by (simp add: fd_abs_def FdManager_def)
    then show thesis
      using that get_spec [OF fd_inv_new(1), of 8 True "Some True" "\<lambda>_. 0"] FdCtx_props [of 8 "Some True" "\<lambda>_. 0"]
      by (cases "FdCtx 8 (Some True) (\<lambda>_. 0)") auto
  qed
  let ?h = "plain_hook\<lparr>hk_fds := ds, hk_flags := fl\<rparr>"
  have "get ds 8 False None fl = Inr (Some c, ds, fl)" using get_spec [OF g(2), of 8 False None fl] g(3) by auto
  then have "Socket_init quiet_sys ?h (Socket 2 1 0) 8 = Inr (True, ?h, (Socket 2 1 0)\<lparr>m_sock := 8, m_isConnect := True\<rparr>)"
    using g(4,5) by (simp add: Socket_init_def find_ctx_def initSock_def setOption_def setsockopt_hook_def plain_hook_def
        quiet_sys_def getLocalAddress_def getRemoteAddress_def Socket_def Let_def)
  moreover have "accept_hook plain_hook 7 0 0 [Sys 8 0] (Some True) = Some (Inr (8, ?h))"
    using g(1) by (simp add: accept_hook_def do_io_def do_io_enter_def plain_hook_def returned_def track_def)
  ultimately have "accept_one quiet_sys ?srv n 0 rd =
      Some (Inr (?srv\<lparr>ts_worker := Some [Handle_client 1]\<rparr>,
        n\<lparr>nt_hook := ?h, nt_objs := [?s, (Socket 2 1 0)\<lparr>m_sock := 8, m_isConnect := True\<rparr>]\<rparr>))"
    by (simp add: accept_one_def n_def rd_def Socket_accept_def CreateTCPSocket_def Socket_def setRecvTimeout_def setOption_def
        setsockopt_hook_def plain_hook_def schedule_task_def TcpServer_def)
  then obtain srv n' where r: "startAccept quiet_sys ?srv n 0 [rd, rd2] = Some (Inr (srv, n'))" "length (nt_objs n') = 2"
    by (simp add: rd_def rd2_def)
  have "sys_ok quiet_sys" "0 < length (nt_objs n)" "ts_worker ?srv = Some []"
    by (simp_all add: sys_ok_def quiet_sys_def n_def TcpServer_def)
  from tcp_accept_loop [OF this r(1)] have "ts_worker srv = Some (map Handle_client [length (nt_objs n) ..< length (nt_objs n')])"
    by auto
  then have "ts_worker srv = Some [Handle_client 1]" using r(2) by (simp add: n_def numeral_2_eq_2)
  then show ?thesis using r(1) unfolding rd_def rd2_def by (intro exI [of _ n] exI [of _ srv] exI [of _ n']) (simp add: n_def)
qed

end
