(* ===== verification/Sylar_HttpServer.thy ===== *)
theory Sylar_HttpServer
  imports Sylar_HttpSession Sylar_Servlet Sylar_TcpServer
begin

text \<open>
  The HTTP server (\<^verbatim>\<open>sylar/http/http_server.cpp\<close>): a TCP server that answers the requests of each client by its
  servlets. The composition of the server, the session, the parser, the dispatcher and the socket stream.
\<close>

section \<open>Serving a client\<close>

record http_server = tcp_server +
  hs_isKeepalive :: bool
  hs_dispatch :: "link dispatch"

definition HttpServer :: "bool \<Rightarrow> tcp_task list option \<Rightarrow> tcp_task list option \<Rightarrow> u64 \<Rightarrow> http_server" where
  "HttpServer keepalive worker accept_worker timeout =
    tcp_server.extend (TcpServer worker accept_worker timeout)
      (http_server.fields keepalive ServletDispatch)"

definition setServletDispatch :: "http_server \<Rightarrow> link dispatch \<Rightarrow> http_server" where
  "setServletDispatch srv v = srv\<lparr>hs_dispatch := v\<rparr>"

text \<open>The response to a request, and the session after the servlet ran.\<close>

definition respond :: "(string \<Rightarrow> string \<Rightarrow> bool) \<Rightarrow> http_server \<Rightarrow> HttpRequest \<Rightarrow> link \<Rightarrow> HttpResponse \<times> link" where
  "respond fnmatch srv req l =
    (let rsp = rs_setHeader (new_HttpResponse (rq_version req) (rq_close req \<or> \<not> hs_isKeepalive srv)) ''Server'' (ts_name srv);
         (_, _, rsp', l') = dispatch_handle fnmatch (hs_dispatch srv) req rsp l
     in (rsp', l'))"

partial_function (option) serve_loop ::
  "http_env \<Rightarrow> (string \<Rightarrow> string \<Rightarrow> bool) \<Rightarrow> http_server \<Rightarrow> link \<Rightarrow> link run"
where
  "serve_loop en fnmatch srv l =
    Option.bind (recvRequest en l) (\<lambda>r.
      case r of
        Inl e \<Rightarrow> Some (Inl e)
      | Inr (None, l1) \<Rightarrow> Some (Inr l1)
      | Inr (Some req, l1) \<Rightarrow>
          (case respond fnmatch srv req l1 of
             (rsp, l2) \<Rightarrow>
               Option.bind (sendResponse l2 rsp) (\<lambda>s.
                 case s of
                   Inl e \<Rightarrow> Some (Inl e)
                 | Inr (_, l3) \<Rightarrow> if hs_isKeepalive srv then serve_loop en fnmatch srv l3 else Some (Inr l3))))"

definition handleClient :: "http_env \<Rightarrow> (string \<Rightarrow> string \<Rightarrow> bool) \<Rightarrow> http_server \<Rightarrow> link \<Rightarrow> link run" where
  "handleClient en fnmatch srv l =
    bindR (serve_loop en fnmatch srv l) (\<lambda>l1. ss_close l1 (fst (en_close en)) (snd (en_close en)))"

section \<open>Every client is served and let go\<close>

text \<open>Servlets that leave the session alone and whose responses are not longer than \<open>B\<close>.\<close>

definition modest :: "(string \<Rightarrow> string \<Rightarrow> bool) \<Rightarrow> http_server \<Rightarrow> nat \<Rightarrow> bool" where
  "modest fnmatch srv B \<longleftrightarrow> (\<forall>req l. snd (respond fnmatch srv req l) = l \<and> length (rs_dump (fst (respond fnmatch srv req l))) \<le> B)"

text \<open>A response, or a part of it if the connection failed.\<close>

definition answers :: "(string \<Rightarrow> string \<Rightarrow> bool) \<Rightarrow> http_server \<Rightarrow> bytes \<Rightarrow> bool" where
  "answers fnmatch srv out \<longleftrightarrow> (\<exists>req l k. out = take k (bytes_of (rs_dump (fst (respond fnmatch srv req l)))))"

lemma serve_loop_returns:
  assumes "modest fn srv B" "served (Suc (B * length (ln_in l)) + length (ln_in l)) l"
  shows "\<exists>x. serve_loop en fn srv l = Some x \<and> (\<forall>l'. x = Inr l' \<longrightarrow> (closed l' \<or> hooked l') \<and>
    (\<exists>outs. ln_out l' = ln_out l @ concat outs \<and> length outs \<le> length (ln_in l) \<and> (hs_isKeepalive srv \<or> length outs \<le> 1) \<and>
      list_all (answers fn srv) outs))"
  using assms(2)
proof (induction "length (ln_in l)" arbitrary: l rule: less_induct)
  case less
  let ?L = "length (ln_in l)"
  obtain x where x: "recvRequest en l = Some x" "\<And>r l'. x = Inr (r, l') \<Longrightarrow> ln_out l' = ln_out l \<and>
      (if r = None then closed l' else served (Suc (B * ?L) + length (ln_in l')) l')"
    using recvRequest_served [OF less.prems, of en] by blast
  show ?case
  proof (cases x)
    case (Inl e)
    then show ?thesis using x(1) by (subst serve_loop.simps) simp
  next
    case (Inr y)
    obtain r l1 where y: "y = (r, l1)" by (cases y)
    note l1 = x(2) [OF Inr [unfolded y]]
    show ?thesis
    proof (cases r)
      case None
      then show ?thesis using x(1) Inr y l1 by (subst serve_loop.simps) (auto intro!: exI [of _ "[]"])
    next
      case (Some req)
      obtain rsp where rsp: "respond fn srv req l1 = (rsp, l1)" "length (rs_dump rsp) \<le> B"
        using assms(1) by (metis modest_def prod.collapse)
      obtain head body lost where "ln_in l = head @ body @ lost @ ln_in l1" "head @ body @ lost \<noteq> []"
        using recvRequest_frame [of en l req l1] x(1) Inr y Some by auto
      then have shorter: "length (ln_in l1) < ?L" by auto
      then have "B * length (ln_in l1) + B \<le> B * ?L" using mult_le_mono2 [of "Suc (length (ln_in l1))" ?L B] by simp
      then have "served (length (rs_dump rsp) + (Suc (B * length (ln_in l1)) + length (ln_in l1))) l1"
        using l1 Some rsp(2) by (auto intro: served_mono)
      from sendResponse_served [OF this] obtain s where s: "sendResponse l1 rsp = Some s"
        "\<And>v l'. s = Inr (v, l') \<Longrightarrow> served (Suc (B * length (ln_in l1)) + length (ln_in l1)) l' \<and> ln_in l' = ln_in l1 \<and>
          (\<exists>j. ln_out l' = ln_out l1 @ take j (bytes_of (rs_dump rsp)))" by blast
      show ?thesis
      proof (cases s)
        case (Inl e)
        then show ?thesis using x(1) Inr y Some rsp s(1) by (subst serve_loop.simps) simp
      next
        case s': (Inr z)
        obtain v l3 where z: "z = (v, l3)" by (cases z)
        note l3 = s(2) [OF s' [unfolded z]]
        obtain j where j: "ln_out l3 = ln_out l @ take j (bytes_of (rs_dump rsp))" using l3 l1 by auto
        have ans: "answers fn srv (take j (bytes_of (rs_dump rsp)))" using rsp(1) by (metis answers_def fst_conv)
        show ?thesis
        proof (cases "hs_isKeepalive srv")
          case True
          have "length (ln_in l3) < ?L" "served (Suc (B * length (ln_in l3)) + length (ln_in l3)) l3" using l3 shorter by simp_all
          from less.hyps [OF this] obtain w where w: "serve_loop en fn srv l3 = Some w" "\<And>l'. w = Inr l' \<Longrightarrow> (closed l' \<or> hooked l') \<and>
            (\<exists>outs. ln_out l' = ln_out l3 @ concat outs \<and> length outs \<le> length (ln_in l3) \<and> list_all (answers fn srv) outs)"
            by blast
          have "\<exists>outs. ln_out l' = ln_out l @ concat outs \<and> length outs \<le> ?L \<and> list_all (answers fn srv) outs" if w': "w = Inr l'" for l'
          proof -
            obtain outs where "ln_out l' = ln_out l3 @ concat outs" "length outs \<le> length (ln_in l3)" "list_all (answers fn srv) outs"
              using w(2) [OF w'] by blast
            then show ?thesis using j ans l3 shorter by (intro exI [of _ "take j (bytes_of (rs_dump rsp)) # outs"]) simp
          qed
          then show ?thesis using x(1) Inr y Some rsp s(1) s' z True w by (subst serve_loop.simps) auto
        next
          case False
          have "hooked l3" using l3 by (simp add: served_def)
          then show ?thesis
            using x(1) Inr y Some rsp s(1) s' z False j ans shorter
            by (subst serve_loop.simps) (auto intro!: exI [of _ "[take j (bytes_of (rs_dump rsp))]"])
        qed
      qed
    qed
  qed
qed

section \<open>Properties\<close>

definition bare_server :: http_server where
  "bare_server = setServletDispatch (HttpServer True None None 9) \<lparr>sd_datas = Map.empty, sd_globs = [], sd_default = None\<rparr>"

lemma length_dec: "length (dec n) \<le> Suc n"
proof -
  have "length (show_nat 10 n) \<le> Suc n"
    by (induction "10 :: nat" n rule: show_nat.induct) (subst show_nat.simps, auto)
  then show ?thesis by simp
qed

lemma bare_server_modest: "modest fn bare_server 200"
proof -
  have "length (rs_dump (fst (respond fn bare_server req l))) \<le> 200" for req l
  proof -
    let ?v = "rq_version req"
    have "unat (drop_bit 4 ?v) < 16"
      using unsigned_less [of ?v, where ?'a = nat] by (simp add: drop_bit_eq_div unat_div)
    moreover have "unat (?v AND 0x0F) < 16"
      using word_and_le1 [of ?v "0x0F"] by (simp add: word_le_nat_alt)
    ultimately have "length (dec (unat (drop_bit 4 ?v))) \<le> 16" "length (dec (unat (?v AND 0x0F))) \<le> 16"
      using length_dec by (meson le_trans Suc_leI)+
    moreover have "length (dec 200) = 3" "length (HttpStatusToString OK) = 2" by code_simp+
    ultimately show ?thesis
      by (simp add: respond_def bare_server_def setServletDispatch_def HttpServer_def dispatch_handle_def getMatchServlet_def
          tcp_server.defs http_server.defs TcpServer_def rs_setHeader_def new_HttpResponse_def rs_dump_def CRLF_def connection_line_def dump_body_def dumped_headers_def)
  qed
  moreover have "snd (respond fn bare_server req l) = l" for req l
    by (simp add: respond_def bare_server_def setServletDispatch_def dispatch_handle_def getMatchServlet_def)
  ultimately show ?thesis by (simp add: modest_def)
qed


end
