(* ===== verification/Sylar_UriTable.thy ===== *)
theory Sylar_UriTable
  imports Main
begin

text \<open>
  The state machine of the URI parser as it stands in \<^verbatim>\<open>sylar/uri.cpp\<close>, the code Ragel generated from \<^verbatim>\<open>uri.rl\<close>. A
  label \<^verbatim>\<open>trK\<close> of the code is a list of actions and the state it goes on to. A state, the code at \<^verbatim>\<open>case N\<close>, is the list
  of the ranges of characters (signed, as \<^verbatim>\<open>char\<close> is) it goes on with and the labels it jumps to; every other character leads to
  the error state 0. Lists of ranges stand for the nested comparisons of the code. The labels and states follow the order of the code,
  in blocks of consecutive ones.
\<close>

section \<open>Actions and labels\<close>

datatype uri_action =
  Marku | Markh | Save_scheme | Save_port | Save_userinfo | Save_host | Save_path | Save_query | Save_fragment

text \<open>The operands of \<^verbatim>\<open>goto\<close>.\<close>

datatype uri_label = Tr int | St int

type_synonym uri_goto = "uri_action list \<times> int"
type_synonym uri_edges = "(int \<times> int \<times> uri_goto) list"
type_synonym uri_block = "(int \<times> uri_goto) list \<times> (int \<times> (int \<times> int \<times> uri_label) list) list"

section \<open>Blocks\<close>

definition uri_block1 :: uri_block where "uri_block1 = ([(467, [Marku, Save_query], 453), (469, [Save_query], 453), (474, [Markh,
  Save_host], 453), (485, [Save_host], 453), (489, [Markh, Save_port], 453), (493, [Save_port], 453)], [(451, [(-128, -1, St 452), (33,
  33, St 452), (35, 35, St 453), (36, 36, St 452), (37, 37, St 3), (38, 46, St 452), (47, 47, St 458), (48, 57, St 452), (59, 59, St 452),
  (61, 61, St 452), (63, 63, St 456), (64, 64, St 452), (65, 90, Tr 461), (95, 95, St 452), (97, 122, Tr 461), (126, 126, St 452)]), (452,
  [(-128, -1, St 452), (33, 33, St 452), (35, 35, St 453), (36, 36, St 452), (37, 37, St 3), (38, 46, St 452), (47, 47, St 455), (48, 57,
  St 452), (59, 59, St 452), (61, 61, St 452), (63, 63, St 456), (64, 90, St 452), (95, 95, St 452), (97, 122, St 452), (126, 126, St
  452)])])"
definition uri_block2 :: uri_block where "uri_block2 = ([(548, [Markh, Save_host, Save_path], 453), (559, [Save_host, Markh, Save_path],
  453), (563, [Save_path], 453), (566, [Markh, Save_port, Save_path], 453), (570, [Save_port, Markh, Save_path], 453), (462, [Marku],
  454), (463, [Marku], 1)], [(453, [(-128, -1, Tr 462), (33, 33, Tr 462), (36, 36, Tr 462), (37, 37, Tr 463), (38, 59, Tr 462), (61, 61,
  Tr 462), (63, 90, Tr 462), (95, 95, Tr 462), (97, 122, Tr 462), (126, 126, Tr 462)]), (454, [(-128, -1, St 454), (33, 33, St 454), (36,
  36, St 454), (37, 37, St 1), (38, 59, St 454), (61, 61, St 454), (63, 90, St 454), (95, 95, St 454), (97, 122, St 454), (126, 126, St
  454)])])"
definition uri_block3 :: uri_block where "uri_block3 = ([(476, [Markh, Save_host], 455), (486, [Save_host], 455), (490, [Markh,
  Save_port], 455), (494, [Save_port], 455)], [(1, [(48, 57, St 2), (65, 70, St 2), (97, 102, St 2)]), (2, [(48, 57, St 454), (65, 70, St
  454), (97, 102, St 454)]), (3, [(48, 57, St 4), (65, 70, St 4), (97, 102, St 4)]), (4, [(48, 57, St 452), (65, 70, St 452), (97, 102, St
  452)]), (455, [(-128, -1, St 455), (33, 33, St 455), (35, 35, St 453), (36, 36, St 455), (37, 37, St 5), (38, 59, St 455), (61, 61, St
  455), (63, 63, St 456), (64, 90, St 455), (95, 95, St 455), (97, 122, St 455), (126, 126, St 455)]), (5, [(48, 57, St 6), (65, 70, St
  6), (97, 102, St 6)])])"
definition uri_block4 :: uri_block where "uri_block4 = ([(482, [Markh, Save_host], 456), (488, [Save_host], 456), (492, [Markh,
  Save_port], 456), (496, [Save_port], 456), (556, [Markh, Save_host, Save_path], 456), (562, [Save_host, Markh, Save_path], 456), (565,
  [Save_path], 456), (569, [Markh, Save_port, Save_path], 456), (573, [Save_port, Markh, Save_path], 456)], [(6, [(48, 57, St 455), (65,
  70, St 455), (97, 102, St 455)])])"
definition uri_block5 :: uri_block where "uri_block5 = ([(466, [Marku], 457), (468, [Marku], 7)], [(456, [(-128, -1, Tr 466), (33, 33, Tr
  466), (35, 35, Tr 467), (36, 36, Tr 466), (37, 37, Tr 468), (38, 59, Tr 466), (61, 61, Tr 466), (63, 90, Tr 466), (95, 95, Tr 466), (97,
  122, Tr 466), (126, 126, Tr 466)]), (457, [(-128, -1, St 457), (33, 33, St 457), (35, 35, Tr 469), (36, 36, St 457), (37, 37, St 7),
  (38, 59, St 457), (61, 61, St 457), (63, 90, St 457), (95, 95, St 457), (97, 122, St 457), (126, 126, St 457)]), (7, [(48, 57, St 8),
  (65, 70, St 8), (97, 102, St 8)]), (8, [(48, 57, St 457), (65, 70, St 457), (97, 102, St 457)]), (458, [(-128, -1, St 455), (33, 33, St
  455), (35, 35, St 453), (36, 36, St 455), (37, 37, St 5), (38, 46, St 455), (47, 47, St 459), (48, 59, St 455), (61, 61, St 455), (63,
  63, St 456), (64, 90, St 455), (95, 95, St 455), (97, 122, St 455), (126, 126, St 455)])])"
definition uri_block6 :: uri_block where "uri_block6 = ([(472, [Markh], 9)], [(459, [(2, 2, Tr 472), (33, 33, Tr 473), (35, 35, Tr 474),
  (36, 36, Tr 473), (37, 37, Tr 475), (38, 46, Tr 473), (47, 47, Tr 476), (48, 48, Tr 477), (49, 49, Tr 478), (50, 50, Tr 479), (51, 57,
  Tr 480), (58, 58, Tr 481), (59, 59, Tr 473), (61, 61, Tr 473), (63, 63, Tr 482), (64, 64, Tr 483), (65, 90, Tr 473), (91, 91, Tr 484),
  (95, 95, Tr 473), (97, 122, Tr 473), (126, 126, Tr 473)]), (9, [(48, 52, St 10)]), (10, [(48, 57, St 11)]), (11, [(46, 46, St 12)]),
  (12, [(2, 2, St 13), (48, 48, St 15), (49, 49, St 27), (50, 50, St 29), (51, 57, St 28)]), (13, [(48, 52, St 14)]), (14, [(48, 57, St
  15)]), (15, [(46, 46, St 16)]), (16, [(2, 2, St 17), (48, 48, St 19), (49, 49, St 23), (50, 50, St 25), (51, 57, St 24)]), (17, [(48,
  52, St 18)]), (18, [(48, 57, St 19)])])"
definition uri_block7 :: uri_block where "uri_block7 = ([(507, [Markh, Save_host], 461), (487, [Save_host], 461), (491, [Markh], 462)],
  [(19, [(46, 46, St 20)]), (20, [(2, 2, St 21), (48, 48, St 460), (49, 49, St 463), (50, 50, St 465), (51, 57, St 464)]), (21, [(48, 52,
  St 22)]), (22, [(48, 57, St 460)]), (460, [(35, 35, Tr 485), (47, 47, Tr 486), (58, 58, Tr 487), (63, 63, Tr 488)]), (461, [(35, 35, Tr
  489), (47, 47, Tr 490), (48, 57, Tr 491), (63, 63, Tr 492)]), (462, [(35, 35, Tr 493), (47, 47, Tr 494), (48, 57, St 462), (63, 63, Tr
  496)]), (463, [(35, 35, Tr 485), (47, 47, Tr 486), (48, 57, St 464), (58, 58, Tr 487), (63, 63, Tr 488)]), (464, [(35, 35, Tr 485), (47,
  47, Tr 486), (48, 57, St 460), (58, 58, Tr 487), (63, 63, Tr 488)])])"
definition uri_block8 :: uri_block where "uri_block8 = ([(473, [Markh], 467)], [(465, [(35, 35, Tr 485), (47, 47, Tr 486), (48, 52, St
  460), (53, 53, St 466), (54, 57, St 460), (58, 58, Tr 487), (63, 63, Tr 488)]), (466, [(35, 35, Tr 485), (47, 47, Tr 486), (48, 53, St
  460), (58, 58, Tr 487), (63, 63, Tr 488)]), (23, [(46, 46, St 20), (48, 57, St 24)]), (24, [(46, 46, St 20), (48, 57, St 19)]), (25,
  [(46, 46, St 20), (48, 52, St 19), (53, 53, St 26), (54, 57, St 19)]), (26, [(46, 46, St 20), (48, 53, St 19)]), (27, [(46, 46, St 16),
  (48, 57, St 28)]), (28, [(46, 46, St 16), (48, 57, St 15)]), (29, [(46, 46, St 16), (48, 52, St 15), (53, 53, St 30), (54, 57, St 15)]),
  (30, [(46, 46, St 16), (48, 53, St 15)])])"
definition uri_block9 :: uri_block where "uri_block9 = ([(475, [Markh], 31), (481, [Markh, Save_host], 468), (499, [Save_host], 468)],
  [(467, [(33, 33, St 467), (35, 35, Tr 485), (36, 36, St 467), (37, 37, St 31), (38, 46, St 467), (47, 47, Tr 486), (48, 57, St 467),
  (58, 58, Tr 499), (59, 59, St 467), (61, 61, St 467), (63, 63, Tr 488), (64, 64, Tr 38), (65, 90, St 467), (95, 95, St 467), (97, 122,
  St 467), (126, 126, St 467)]), (31, [(48, 57, St 32), (65, 70, St 32), (97, 102, St 32)]), (32, [(48, 57, St 467), (65, 70, St 467),
  (97, 102, St 467)]), (468, [(33, 33, St 33), (35, 35, Tr 489), (36, 36, St 33), (37, 37, St 34), (38, 46, St 33), (47, 47, Tr 490), (48,
  57, Tr 500), (58, 59, St 33), (61, 61, St 33), (63, 63, Tr 492), (64, 64, Tr 38), (65, 90, St 33), (95, 95, St 33), (97, 122, St 33),
  (126, 126, St 33)])])"
definition uri_block10 :: uri_block where "uri_block10 = ([(38, [Save_userinfo], 469), (483, [Markh, Save_userinfo], 469), (501, [Markh],
  470)], [(33, [(33, 33, St 33), (36, 36, St 33), (37, 37, St 34), (38, 46, St 33), (48, 59, St 33), (61, 61, St 33), (64, 64, Tr 38),
  (65, 90, St 33), (95, 95, St 33), (97, 122, St 33), (126, 126, St 33)]), (34, [(48, 57, St 35), (65, 70, St 35), (97, 102, St 35)]),
  (35, [(48, 57, St 33), (65, 70, St 33), (97, 102, St 33)]), (469, [(2, 2, Tr 472), (33, 33, Tr 501), (35, 35, Tr 474), (36, 36, Tr 501),
  (37, 37, Tr 502), (38, 46, Tr 501), (47, 47, Tr 476), (48, 48, Tr 503), (49, 49, Tr 504), (50, 50, Tr 505), (51, 57, Tr 506), (58, 58,
  Tr 507), (59, 59, Tr 501), (61, 61, Tr 501), (63, 63, Tr 482), (65, 90, Tr 501), (91, 91, Tr 484), (95, 95, Tr 501), (97, 122, Tr 501),
  (126, 126, Tr 501)])])"
definition uri_block11 :: uri_block where "uri_block11 = ([(502, [Markh], 36), (503, [Markh], 471)], [(470, [(33, 33, St 470), (35, 35, Tr
  485), (36, 36, St 470), (37, 37, St 36), (38, 46, St 470), (47, 47, Tr 486), (48, 57, St 470), (58, 58, Tr 487), (59, 59, St 470), (61,
  61, St 470), (63, 63, Tr 488), (65, 90, St 470), (95, 95, St 470), (97, 122, St 470), (126, 126, St 470)]), (36, [(48, 57, St 37), (65,
  70, St 37), (97, 102, St 37)]), (37, [(48, 57, St 470), (65, 70, St 470), (97, 102, St 470)]), (471, [(33, 33, St 470), (35, 35, Tr
  485), (36, 36, St 470), (37, 37, St 36), (38, 45, St 470), (46, 46, St 472), (47, 47, Tr 486), (48, 57, St 470), (58, 58, Tr 487), (59,
  59, St 470), (61, 61, St 470), (63, 63, Tr 488), (65, 90, St 470), (95, 95, St 470), (97, 122, St 470), (126, 126, St 470)])])"
definition uri_block12 :: uri_block where "uri_block12 = ([], [(472, [(2, 2, St 13), (33, 33, St 470), (35, 35, Tr 485), (36, 36, St 470),
  (37, 37, St 36), (38, 46, St 470), (47, 47, Tr 486), (48, 48, St 473), (49, 49, St 481), (50, 50, St 483), (51, 57, St 482), (58, 58, Tr
  487), (59, 59, St 470), (61, 61, St 470), (63, 63, Tr 488), (65, 90, St 470), (95, 95, St 470), (97, 122, St 470), (126, 126, St 470)]),
  (473, [(33, 33, St 470), (35, 35, Tr 485), (36, 36, St 470), (37, 37, St 36), (38, 45, St 470), (46, 46, St 474), (47, 47, Tr 486), (48,
  57, St 470), (58, 58, Tr 487), (59, 59, St 470), (61, 61, St 470), (63, 63, Tr 488), (65, 90, St 470), (95, 95, St 470), (97, 122, St
  470), (126, 126, St 470)]), (474, [(2, 2, St 17), (33, 33, St 470), (35, 35, Tr 485), (36, 36, St 470), (37, 37, St 36), (38, 46, St
  470), (47, 47, Tr 486), (48, 48, St 475), (49, 49, St 477), (50, 50, St 479), (51, 57, St 478), (58, 58, Tr 487), (59, 59, St 470), (61,
  61, St 470), (63, 63, Tr 488), (65, 90, St 470), (95, 95, St 470), (97, 122, St 470), (126, 126, St 470)])])"
definition uri_block13 :: uri_block where "uri_block13 = ([], [(475, [(33, 33, St 470), (35, 35, Tr 485), (36, 36, St 470), (37, 37, St
  36), (38, 45, St 470), (46, 46, St 476), (47, 47, Tr 486), (48, 57, St 470), (58, 58, Tr 487), (59, 59, St 470), (61, 61, St 470), (63,
  63, Tr 488), (65, 90, St 470), (95, 95, St 470), (97, 122, St 470), (126, 126, St 470)]), (476, [(2, 2, St 21), (33, 33, St 470), (35,
  35, Tr 485), (36, 36, St 470), (37, 37, St 36), (38, 46, St 470), (47, 47, Tr 486), (48, 57, St 470), (58, 58, Tr 487), (59, 59, St
  470), (61, 61, St 470), (63, 63, Tr 488), (65, 90, St 470), (95, 95, St 470), (97, 122, St 470), (126, 126, St 470)]), (477, [(33, 33,
  St 470), (35, 35, Tr 485), (36, 36, St 470), (37, 37, St 36), (38, 45, St 470), (46, 46, St 476), (47, 47, Tr 486), (48, 57, St 478),
  (58, 58, Tr 487), (59, 59, St 470), (61, 61, St 470), (63, 63, Tr 488), (65, 90, St 470), (95, 95, St 470), (97, 122, St 470), (126,
  126, St 470)]), (478, [(33, 33, St 470), (35, 35, Tr 485), (36, 36, St 470), (37, 37, St 36), (38, 45, St 470), (46, 46, St 476), (47,
  47, Tr 486), (48, 57, St 475), (58, 58, Tr 487), (59, 59, St 470), (61, 61, St 470), (63, 63, Tr 488), (65, 90, St 470), (95, 95, St
  470), (97, 122, St 470), (126, 126, St 470)])])"
definition uri_block14 :: uri_block where "uri_block14 = ([], [(479, [(33, 33, St 470), (35, 35, Tr 485), (36, 36, St 470), (37, 37, St
  36), (38, 45, St 470), (46, 46, St 476), (47, 47, Tr 486), (48, 52, St 475), (53, 53, St 480), (54, 57, St 475), (58, 58, Tr 487), (59,
  59, St 470), (61, 61, St 470), (63, 63, Tr 488), (65, 90, St 470), (95, 95, St 470), (97, 122, St 470), (126, 126, St 470)]), (480,
  [(33, 33, St 470), (35, 35, Tr 485), (36, 36, St 470), (37, 37, St 36), (38, 45, St 470), (46, 46, St 476), (47, 47, Tr 486), (48, 53,
  St 475), (54, 57, St 470), (58, 58, Tr 487), (59, 59, St 470), (61, 61, St 470), (63, 63, Tr 488), (65, 90, St 470), (95, 95, St 470),
  (97, 122, St 470), (126, 126, St 470)]), (481, [(33, 33, St 470), (35, 35, Tr 485), (36, 36, St 470), (37, 37, St 36), (38, 45, St 470),
  (46, 46, St 474), (47, 47, Tr 486), (48, 57, St 482), (58, 58, Tr 487), (59, 59, St 470), (61, 61, St 470), (63, 63, Tr 488), (65, 90,
  St 470), (95, 95, St 470), (97, 122, St 470), (126, 126, St 470)])])"
definition uri_block15 :: uri_block where "uri_block15 = ([(504, [Markh], 485)], [(482, [(33, 33, St 470), (35, 35, Tr 485), (36, 36, St
  470), (37, 37, St 36), (38, 45, St 470), (46, 46, St 474), (47, 47, Tr 486), (48, 57, St 473), (58, 58, Tr 487), (59, 59, St 470), (61,
  61, St 470), (63, 63, Tr 488), (65, 90, St 470), (95, 95, St 470), (97, 122, St 470), (126, 126, St 470)]), (483, [(33, 33, St 470),
  (35, 35, Tr 485), (36, 36, St 470), (37, 37, St 36), (38, 45, St 470), (46, 46, St 474), (47, 47, Tr 486), (48, 52, St 473), (53, 53, St
  484), (54, 57, St 473), (58, 58, Tr 487), (59, 59, St 470), (61, 61, St 470), (63, 63, Tr 488), (65, 90, St 470), (95, 95, St 470), (97,
  122, St 470), (126, 126, St 470)]), (484, [(33, 33, St 470), (35, 35, Tr 485), (36, 36, St 470), (37, 37, St 36), (38, 45, St 470), (46,
  46, St 474), (47, 47, Tr 486), (48, 53, St 473), (54, 57, St 470), (58, 58, Tr 487), (59, 59, St 470), (61, 61, St 470), (63, 63, Tr
  488), (65, 90, St 470), (95, 95, St 470), (97, 122, St 470), (126, 126, St 470)])])"
definition uri_block16 :: uri_block where "uri_block16 = ([(506, [Markh], 486), (505, [Markh], 487)], [(485, [(33, 33, St 470), (35, 35,
  Tr 485), (36, 36, St 470), (37, 37, St 36), (38, 45, St 470), (46, 46, St 472), (47, 47, Tr 486), (48, 57, St 486), (58, 58, Tr 487),
  (59, 59, St 470), (61, 61, St 470), (63, 63, Tr 488), (65, 90, St 470), (95, 95, St 470), (97, 122, St 470), (126, 126, St 470)]), (486,
  [(33, 33, St 470), (35, 35, Tr 485), (36, 36, St 470), (37, 37, St 36), (38, 45, St 470), (46, 46, St 472), (47, 47, Tr 486), (48, 57,
  St 471), (58, 58, Tr 487), (59, 59, St 470), (61, 61, St 470), (63, 63, Tr 488), (65, 90, St 470), (95, 95, St 470), (97, 122, St 470),
  (126, 126, St 470)]), (487, [(33, 33, St 470), (35, 35, Tr 485), (36, 36, St 470), (37, 37, St 36), (38, 45, St 470), (46, 46, St 472),
  (47, 47, Tr 486), (48, 52, St 471), (53, 53, St 488), (54, 57, St 471), (58, 58, Tr 487), (59, 59, St 470), (61, 61, St 470), (63, 63,
  Tr 488), (65, 90, St 470), (95, 95, St 470), (97, 122, St 470), (126, 126, St 470)])])"
definition uri_block17 :: uri_block where "uri_block17 = ([(484, [Markh], 38)], [(488, [(33, 33, St 470), (35, 35, Tr 485), (36, 36, St
  470), (37, 37, St 36), (38, 45, St 470), (46, 46, St 472), (47, 47, Tr 486), (48, 53, St 471), (54, 57, St 470), (58, 58, Tr 487), (59,
  59, St 470), (61, 61, St 470), (63, 63, Tr 488), (65, 90, St 470), (95, 95, St 470), (97, 122, St 470), (126, 126, St 470)]), (38, [(48,
  57, St 39), (58, 58, St 146), (65, 70, St 39), (97, 102, St 39), (118, 118, St 225)]), (39, [(48, 57, St 40), (58, 58, St 43), (65, 70,
  St 40), (97, 102, St 40)]), (40, [(48, 57, St 41), (58, 58, St 43), (65, 70, St 41), (97, 102, St 41)]), (41, [(48, 57, St 42), (58, 58,
  St 43), (65, 70, St 42), (97, 102, St 42)]), (42, [(58, 58, St 43)]), (43, [(48, 57, St 44), (58, 58, St 141), (65, 70, St 44), (97,
  102, St 44)]), (44, [(48, 57, St 45), (58, 58, St 48), (65, 70, St 45), (97, 102, St 45)])])"
definition uri_block18 :: uri_block where "uri_block18 = ([], [(45, [(48, 57, St 46), (58, 58, St 48), (65, 70, St 46), (97, 102, St
  46)]), (46, [(48, 57, St 47), (58, 58, St 48), (65, 70, St 47), (97, 102, St 47)]), (47, [(58, 58, St 48)]), (48, [(48, 57, St 49), (58,
  58, St 136), (65, 70, St 49), (97, 102, St 49)]), (49, [(48, 57, St 50), (58, 58, St 53), (65, 70, St 50), (97, 102, St 50)]), (50,
  [(48, 57, St 51), (58, 58, St 53), (65, 70, St 51), (97, 102, St 51)]), (51, [(48, 57, St 52), (58, 58, St 53), (65, 70, St 52), (97,
  102, St 52)]), (52, [(58, 58, St 53)]), (53, [(48, 57, St 54), (58, 58, St 131), (65, 70, St 54), (97, 102, St 54)]), (54, [(48, 57, St
  55), (58, 58, St 58), (65, 70, St 55), (97, 102, St 55)]), (55, [(48, 57, St 56), (58, 58, St 58), (65, 70, St 56), (97, 102, St
  56)])])"
definition uri_block19 :: uri_block where "uri_block19 = ([], [(56, [(48, 57, St 57), (58, 58, St 58), (65, 70, St 57), (97, 102, St
  57)]), (57, [(58, 58, St 58)]), (58, [(48, 57, St 59), (58, 58, St 126), (65, 70, St 59), (97, 102, St 59)]), (59, [(48, 57, St 60),
  (58, 58, St 63), (65, 70, St 60), (97, 102, St 60)]), (60, [(48, 57, St 61), (58, 58, St 63), (65, 70, St 61), (97, 102, St 61)]), (61,
  [(48, 57, St 62), (58, 58, St 63), (65, 70, St 62), (97, 102, St 62)]), (62, [(58, 58, St 63)]), (63, [(48, 57, St 64), (58, 58, St
  113), (65, 70, St 64), (97, 102, St 64)]), (64, [(48, 57, St 65), (58, 58, St 68), (65, 70, St 65), (97, 102, St 65)]), (65, [(48, 57,
  St 66), (58, 58, St 68), (65, 70, St 66), (97, 102, St 66)]), (66, [(48, 57, St 67), (58, 58, St 68), (65, 70, St 67), (97, 102, St
  67)])])"
definition uri_block20 :: uri_block where "uri_block20 = ([], [(67, [(58, 58, St 68)]), (68, [(2, 2, St 69), (48, 48, St 96), (49, 49, St
  104), (50, 50, St 107), (51, 57, St 110), (58, 58, St 111), (65, 70, St 112), (97, 102, St 112)]), (69, [(48, 52, St 70)]), (70, [(48,
  57, St 71)]), (71, [(46, 46, St 72)]), (72, [(2, 2, St 73), (48, 48, St 75), (49, 49, St 92), (50, 50, St 94), (51, 57, St 93)]), (73,
  [(48, 52, St 74)]), (74, [(48, 57, St 75)]), (75, [(46, 46, St 76)]), (76, [(2, 2, St 77), (48, 48, St 79), (49, 49, St 88), (50, 50, St
  90), (51, 57, St 89)]), (77, [(48, 52, St 78)]), (78, [(48, 57, St 79)]), (79, [(46, 46, St 80)]), (80, [(2, 2, St 81), (48, 48, St 83),
  (49, 49, St 84), (50, 50, St 86), (51, 57, St 85)])])"
definition uri_block21 :: uri_block where "uri_block21 = ([], [(81, [(48, 52, St 82)]), (82, [(48, 57, St 83)]), (83, [(93, 93, St 460)]),
  (84, [(48, 57, St 85), (93, 93, St 460)]), (85, [(48, 57, St 83), (93, 93, St 460)]), (86, [(48, 52, St 83), (53, 53, St 87), (54, 57,
  St 83), (93, 93, St 460)]), (87, [(48, 53, St 83), (93, 93, St 460)]), (88, [(46, 46, St 80), (48, 57, St 89)]), (89, [(46, 46, St 80),
  (48, 57, St 79)]), (90, [(46, 46, St 80), (48, 52, St 79), (53, 53, St 91), (54, 57, St 79)]), (91, [(46, 46, St 80), (48, 53, St 79)]),
  (92, [(46, 46, St 76), (48, 57, St 93)]), (93, [(46, 46, St 76), (48, 57, St 75)]), (94, [(46, 46, St 76), (48, 52, St 75), (53, 53, St
  95), (54, 57, St 75)]), (95, [(46, 46, St 76), (48, 53, St 75)])])"
definition uri_block22 :: uri_block where "uri_block22 = ([], [(96, [(46, 46, St 72), (48, 57, St 97), (58, 58, St 100), (65, 70, St 97),
  (97, 102, St 97)]), (97, [(48, 57, St 98), (58, 58, St 100), (65, 70, St 98), (97, 102, St 98)]), (98, [(48, 57, St 99), (58, 58, St
  100), (65, 70, St 99), (97, 102, St 99)]), (99, [(58, 58, St 100)]), (100, [(48, 57, St 101), (58, 58, St 83), (65, 70, St 101), (97,
  102, St 101)]), (101, [(48, 57, St 102), (65, 70, St 102), (93, 93, St 460), (97, 102, St 102)]), (102, [(48, 57, St 103), (65, 70, St
  103), (93, 93, St 460), (97, 102, St 103)]), (103, [(48, 57, St 83), (65, 70, St 83), (93, 93, St 460), (97, 102, St 83)]), (104, [(46,
  46, St 72), (48, 57, St 105), (58, 58, St 100), (65, 70, St 97), (97, 102, St 97)])])"
definition uri_block23 :: uri_block where "uri_block23 = ([], [(105, [(46, 46, St 72), (48, 57, St 106), (58, 58, St 100), (65, 70, St
  98), (97, 102, St 98)]), (106, [(46, 46, St 72), (48, 57, St 99), (58, 58, St 100), (65, 70, St 99), (97, 102, St 99)]), (107, [(46, 46,
  St 72), (48, 52, St 108), (53, 53, St 109), (54, 57, St 108), (58, 58, St 100), (65, 70, St 97), (97, 102, St 97)]), (108, [(46, 46, St
  72), (48, 57, St 98), (58, 58, St 100), (65, 70, St 98), (97, 102, St 98)]), (109, [(46, 46, St 72), (48, 53, St 106), (54, 57, St 98),
  (58, 58, St 100), (65, 70, St 98), (97, 102, St 98)]), (110, [(46, 46, St 72), (48, 57, St 108), (58, 58, St 100), (65, 70, St 97), (97,
  102, St 97)]), (111, [(48, 57, St 101), (65, 70, St 101), (97, 102, St 101)]), (112, [(48, 57, St 97), (58, 58, St 100), (65, 70, St
  97), (97, 102, St 97)])])"
definition uri_block24 :: uri_block where "uri_block24 = ([], [(113, [(2, 2, St 69), (48, 48, St 114), (49, 49, St 118), (50, 50, St 121),
  (51, 57, St 124), (65, 70, St 125), (97, 102, St 125)]), (114, [(46, 46, St 72), (48, 57, St 115), (58, 58, St 111), (65, 70, St 115),
  (97, 102, St 115)]), (115, [(48, 57, St 116), (58, 58, St 111), (65, 70, St 116), (97, 102, St 116)]), (116, [(48, 57, St 117), (58, 58,
  St 111), (65, 70, St 117), (97, 102, St 117)]), (117, [(58, 58, St 111)]), (118, [(46, 46, St 72), (48, 57, St 119), (58, 58, St 111),
  (65, 70, St 115), (97, 102, St 115)]), (119, [(46, 46, St 72), (48, 57, St 120), (58, 58, St 111), (65, 70, St 116), (97, 102, St
  116)]), (120, [(46, 46, St 72), (48, 57, St 117), (58, 58, St 111), (65, 70, St 117), (97, 102, St 117)])])"
definition uri_block25 :: uri_block where "uri_block25 = ([], [(121, [(46, 46, St 72), (48, 52, St 122), (53, 53, St 123), (54, 57, St
  122), (58, 58, St 111), (65, 70, St 115), (97, 102, St 115)]), (122, [(46, 46, St 72), (48, 57, St 116), (58, 58, St 111), (65, 70, St
  116), (97, 102, St 116)]), (123, [(46, 46, St 72), (48, 53, St 120), (54, 57, St 116), (58, 58, St 111), (65, 70, St 116), (97, 102, St
  116)]), (124, [(46, 46, St 72), (48, 57, St 122), (58, 58, St 111), (65, 70, St 115), (97, 102, St 115)]), (125, [(48, 57, St 115), (58,
  58, St 111), (65, 70, St 115), (97, 102, St 115)]), (126, [(48, 57, St 127), (65, 70, St 127), (97, 102, St 127)]), (127, [(48, 57, St
  128), (58, 58, St 113), (65, 70, St 128), (97, 102, St 128)]), (128, [(48, 57, St 129), (58, 58, St 113), (65, 70, St 129), (97, 102, St
  129)])])"
definition uri_block26 :: uri_block where "uri_block26 = ([], [(129, [(48, 57, St 130), (58, 58, St 113), (65, 70, St 130), (97, 102, St
  130)]), (130, [(58, 58, St 113)]), (131, [(48, 57, St 132), (65, 70, St 132), (97, 102, St 132)]), (132, [(48, 57, St 133), (58, 58, St
  126), (65, 70, St 133), (97, 102, St 133)]), (133, [(48, 57, St 134), (58, 58, St 126), (65, 70, St 134), (97, 102, St 134)]), (134,
  [(48, 57, St 135), (58, 58, St 126), (65, 70, St 135), (97, 102, St 135)]), (135, [(58, 58, St 126)]), (136, [(48, 57, St 137), (65, 70,
  St 137), (97, 102, St 137)]), (137, [(48, 57, St 138), (58, 58, St 131), (65, 70, St 138), (97, 102, St 138)]), (138, [(48, 57, St 139),
  (58, 58, St 131), (65, 70, St 139), (97, 102, St 139)]), (139, [(48, 57, St 140), (58, 58, St 131), (65, 70, St 140), (97, 102, St
  140)])])"
definition uri_block27 :: uri_block where "uri_block27 = ([], [(140, [(58, 58, St 131)]), (141, [(48, 57, St 142), (65, 70, St 142), (97,
  102, St 142)]), (142, [(48, 57, St 143), (58, 58, St 136), (65, 70, St 143), (97, 102, St 143)]), (143, [(48, 57, St 144), (58, 58, St
  136), (65, 70, St 144), (97, 102, St 144)]), (144, [(48, 57, St 145), (58, 58, St 136), (65, 70, St 145), (97, 102, St 145)]), (145,
  [(58, 58, St 136)]), (146, [(58, 58, St 147)]), (147, [(2, 2, St 69), (48, 48, St 148), (49, 49, St 217), (50, 50, St 220), (51, 57, St
  223), (65, 70, St 224), (93, 93, St 460), (97, 102, St 224)]), (148, [(46, 46, St 72), (48, 57, St 149), (58, 58, St 152), (65, 70, St
  149), (93, 93, St 460), (97, 102, St 149)]), (149, [(48, 57, St 150), (58, 58, St 152), (65, 70, St 150), (93, 93, St 460), (97, 102, St
  150)])])"
definition uri_block28 :: uri_block where "uri_block28 = ([], [(150, [(48, 57, St 151), (58, 58, St 152), (65, 70, St 151), (93, 93, St
  460), (97, 102, St 151)]), (151, [(58, 58, St 152), (93, 93, St 460)]), (152, [(2, 2, St 69), (48, 48, St 153), (49, 49, St 209), (50,
  50, St 212), (51, 57, St 215), (65, 70, St 216), (97, 102, St 216)]), (153, [(46, 46, St 72), (48, 57, St 154), (58, 58, St 157), (65,
  70, St 154), (93, 93, St 460), (97, 102, St 154)]), (154, [(48, 57, St 155), (58, 58, St 157), (65, 70, St 155), (93, 93, St 460), (97,
  102, St 155)]), (155, [(48, 57, St 156), (58, 58, St 157), (65, 70, St 156), (93, 93, St 460), (97, 102, St 156)]), (156, [(58, 58, St
  157), (93, 93, St 460)]), (157, [(2, 2, St 69), (48, 48, St 158), (49, 49, St 201), (50, 50, St 204), (51, 57, St 207), (65, 70, St
  208), (97, 102, St 208)])])"
definition uri_block29 :: uri_block where "uri_block29 = ([], [(158, [(46, 46, St 72), (48, 57, St 159), (58, 58, St 162), (65, 70, St
  159), (93, 93, St 460), (97, 102, St 159)]), (159, [(48, 57, St 160), (58, 58, St 162), (65, 70, St 160), (93, 93, St 460), (97, 102, St
  160)]), (160, [(48, 57, St 161), (58, 58, St 162), (65, 70, St 161), (93, 93, St 460), (97, 102, St 161)]), (161, [(58, 58, St 162),
  (93, 93, St 460)]), (162, [(2, 2, St 69), (48, 48, St 163), (49, 49, St 193), (50, 50, St 196), (51, 57, St 199), (65, 70, St 200), (97,
  102, St 200)]), (163, [(46, 46, St 72), (48, 57, St 164), (58, 58, St 167), (65, 70, St 164), (93, 93, St 460), (97, 102, St 164)]),
  (164, [(48, 57, St 165), (58, 58, St 167), (65, 70, St 165), (93, 93, St 460), (97, 102, St 165)])])"
definition uri_block30 :: uri_block where "uri_block30 = ([], [(165, [(48, 57, St 166), (58, 58, St 167), (65, 70, St 166), (93, 93, St
  460), (97, 102, St 166)]), (166, [(58, 58, St 167), (93, 93, St 460)]), (167, [(2, 2, St 69), (48, 48, St 168), (49, 49, St 185), (50,
  50, St 188), (51, 57, St 191), (65, 70, St 192), (97, 102, St 192)]), (168, [(46, 46, St 72), (48, 57, St 169), (58, 58, St 172), (65,
  70, St 169), (93, 93, St 460), (97, 102, St 169)]), (169, [(48, 57, St 170), (58, 58, St 172), (65, 70, St 170), (93, 93, St 460), (97,
  102, St 170)]), (170, [(48, 57, St 171), (58, 58, St 172), (65, 70, St 171), (93, 93, St 460), (97, 102, St 171)]), (171, [(58, 58, St
  172), (93, 93, St 460)]), (172, [(2, 2, St 69), (48, 48, St 173), (49, 49, St 177), (50, 50, St 180), (51, 57, St 183), (65, 70, St
  184), (97, 102, St 184)])])"
definition uri_block31 :: uri_block where "uri_block31 = ([], [(173, [(46, 46, St 72), (48, 57, St 174), (58, 58, St 111), (65, 70, St
  174), (93, 93, St 460), (97, 102, St 174)]), (174, [(48, 57, St 175), (58, 58, St 111), (65, 70, St 175), (93, 93, St 460), (97, 102, St
  175)]), (175, [(48, 57, St 176), (58, 58, St 111), (65, 70, St 176), (93, 93, St 460), (97, 102, St 176)]), (176, [(58, 58, St 111),
  (93, 93, St 460)]), (177, [(46, 46, St 72), (48, 57, St 178), (58, 58, St 111), (65, 70, St 174), (93, 93, St 460), (97, 102, St 174)]),
  (178, [(46, 46, St 72), (48, 57, St 179), (58, 58, St 111), (65, 70, St 175), (93, 93, St 460), (97, 102, St 175)]), (179, [(46, 46, St
  72), (48, 57, St 176), (58, 58, St 111), (65, 70, St 176), (93, 93, St 460), (97, 102, St 176)])])"
definition uri_block32 :: uri_block where "uri_block32 = ([], [(180, [(46, 46, St 72), (48, 52, St 181), (53, 53, St 182), (54, 57, St
  181), (58, 58, St 111), (65, 70, St 174), (93, 93, St 460), (97, 102, St 174)]), (181, [(46, 46, St 72), (48, 57, St 175), (58, 58, St
  111), (65, 70, St 175), (93, 93, St 460), (97, 102, St 175)]), (182, [(46, 46, St 72), (48, 53, St 179), (54, 57, St 175), (58, 58, St
  111), (65, 70, St 175), (93, 93, St 460), (97, 102, St 175)]), (183, [(46, 46, St 72), (48, 57, St 181), (58, 58, St 111), (65, 70, St
  174), (93, 93, St 460), (97, 102, St 174)]), (184, [(48, 57, St 174), (58, 58, St 111), (65, 70, St 174), (93, 93, St 460), (97, 102, St
  174)]), (185, [(46, 46, St 72), (48, 57, St 186), (58, 58, St 172), (65, 70, St 169), (93, 93, St 460), (97, 102, St 169)]), (186, [(46,
  46, St 72), (48, 57, St 187), (58, 58, St 172), (65, 70, St 170), (93, 93, St 460), (97, 102, St 170)])])"
definition uri_block33 :: uri_block where "uri_block33 = ([], [(187, [(46, 46, St 72), (48, 57, St 171), (58, 58, St 172), (65, 70, St
  171), (93, 93, St 460), (97, 102, St 171)]), (188, [(46, 46, St 72), (48, 52, St 189), (53, 53, St 190), (54, 57, St 189), (58, 58, St
  172), (65, 70, St 169), (93, 93, St 460), (97, 102, St 169)]), (189, [(46, 46, St 72), (48, 57, St 170), (58, 58, St 172), (65, 70, St
  170), (93, 93, St 460), (97, 102, St 170)]), (190, [(46, 46, St 72), (48, 53, St 187), (54, 57, St 170), (58, 58, St 172), (65, 70, St
  170), (93, 93, St 460), (97, 102, St 170)]), (191, [(46, 46, St 72), (48, 57, St 189), (58, 58, St 172), (65, 70, St 169), (93, 93, St
  460), (97, 102, St 169)]), (192, [(48, 57, St 169), (58, 58, St 172), (65, 70, St 169), (93, 93, St 460), (97, 102, St 169)]), (193,
  [(46, 46, St 72), (48, 57, St 194), (58, 58, St 167), (65, 70, St 164), (93, 93, St 460), (97, 102, St 164)])])"
definition uri_block34 :: uri_block where "uri_block34 = ([], [(194, [(46, 46, St 72), (48, 57, St 195), (58, 58, St 167), (65, 70, St
  165), (93, 93, St 460), (97, 102, St 165)]), (195, [(46, 46, St 72), (48, 57, St 166), (58, 58, St 167), (65, 70, St 166), (93, 93, St
  460), (97, 102, St 166)]), (196, [(46, 46, St 72), (48, 52, St 197), (53, 53, St 198), (54, 57, St 197), (58, 58, St 167), (65, 70, St
  164), (93, 93, St 460), (97, 102, St 164)]), (197, [(46, 46, St 72), (48, 57, St 165), (58, 58, St 167), (65, 70, St 165), (93, 93, St
  460), (97, 102, St 165)]), (198, [(46, 46, St 72), (48, 53, St 195), (54, 57, St 165), (58, 58, St 167), (65, 70, St 165), (93, 93, St
  460), (97, 102, St 165)]), (199, [(46, 46, St 72), (48, 57, St 197), (58, 58, St 167), (65, 70, St 164), (93, 93, St 460), (97, 102, St
  164)]), (200, [(48, 57, St 164), (58, 58, St 167), (65, 70, St 164), (93, 93, St 460), (97, 102, St 164)])])"
definition uri_block35 :: uri_block where "uri_block35 = ([], [(201, [(46, 46, St 72), (48, 57, St 202), (58, 58, St 162), (65, 70, St
  159), (93, 93, St 460), (97, 102, St 159)]), (202, [(46, 46, St 72), (48, 57, St 203), (58, 58, St 162), (65, 70, St 160), (93, 93, St
  460), (97, 102, St 160)]), (203, [(46, 46, St 72), (48, 57, St 161), (58, 58, St 162), (65, 70, St 161), (93, 93, St 460), (97, 102, St
  161)]), (204, [(46, 46, St 72), (48, 52, St 205), (53, 53, St 206), (54, 57, St 205), (58, 58, St 162), (65, 70, St 159), (93, 93, St
  460), (97, 102, St 159)]), (205, [(46, 46, St 72), (48, 57, St 160), (58, 58, St 162), (65, 70, St 160), (93, 93, St 460), (97, 102, St
  160)]), (206, [(46, 46, St 72), (48, 53, St 203), (54, 57, St 160), (58, 58, St 162), (65, 70, St 160), (93, 93, St 460), (97, 102, St
  160)])])"
definition uri_block36 :: uri_block where "uri_block36 = ([], [(207, [(46, 46, St 72), (48, 57, St 205), (58, 58, St 162), (65, 70, St
  159), (93, 93, St 460), (97, 102, St 159)]), (208, [(48, 57, St 159), (58, 58, St 162), (65, 70, St 159), (93, 93, St 460), (97, 102, St
  159)]), (209, [(46, 46, St 72), (48, 57, St 210), (58, 58, St 157), (65, 70, St 154), (93, 93, St 460), (97, 102, St 154)]), (210, [(46,
  46, St 72), (48, 57, St 211), (58, 58, St 157), (65, 70, St 155), (93, 93, St 460), (97, 102, St 155)]), (211, [(46, 46, St 72), (48,
  57, St 156), (58, 58, St 157), (65, 70, St 156), (93, 93, St 460), (97, 102, St 156)]), (212, [(46, 46, St 72), (48, 52, St 213), (53,
  53, St 214), (54, 57, St 213), (58, 58, St 157), (65, 70, St 154), (93, 93, St 460), (97, 102, St 154)]), (213, [(46, 46, St 72), (48,
  57, St 155), (58, 58, St 157), (65, 70, St 155), (93, 93, St 460), (97, 102, St 155)])])"
definition uri_block37 :: uri_block where "uri_block37 = ([], [(214, [(46, 46, St 72), (48, 53, St 211), (54, 57, St 155), (58, 58, St
  157), (65, 70, St 155), (93, 93, St 460), (97, 102, St 155)]), (215, [(46, 46, St 72), (48, 57, St 213), (58, 58, St 157), (65, 70, St
  154), (93, 93, St 460), (97, 102, St 154)]), (216, [(48, 57, St 154), (58, 58, St 157), (65, 70, St 154), (93, 93, St 460), (97, 102, St
  154)]), (217, [(46, 46, St 72), (48, 57, St 218), (58, 58, St 152), (65, 70, St 149), (93, 93, St 460), (97, 102, St 149)]), (218, [(46,
  46, St 72), (48, 57, St 219), (58, 58, St 152), (65, 70, St 150), (93, 93, St 460), (97, 102, St 150)]), (219, [(46, 46, St 72), (48,
  57, St 151), (58, 58, St 152), (65, 70, St 151), (93, 93, St 460), (97, 102, St 151)]), (220, [(46, 46, St 72), (48, 52, St 221), (53,
  53, St 222), (54, 57, St 221), (58, 58, St 152), (65, 70, St 149), (93, 93, St 460), (97, 102, St 149)])])"
definition uri_block38 :: uri_block where "uri_block38 = ([], [(221, [(46, 46, St 72), (48, 57, St 150), (58, 58, St 152), (65, 70, St
  150), (93, 93, St 460), (97, 102, St 150)]), (222, [(46, 46, St 72), (48, 53, St 219), (54, 57, St 150), (58, 58, St 152), (65, 70, St
  150), (93, 93, St 460), (97, 102, St 150)]), (223, [(46, 46, St 72), (48, 57, St 221), (58, 58, St 152), (65, 70, St 149), (93, 93, St
  460), (97, 102, St 149)]), (224, [(48, 57, St 149), (58, 58, St 152), (65, 70, St 149), (93, 93, St 460), (97, 102, St 149)]), (225,
  [(48, 57, St 226), (65, 70, St 226), (97, 102, St 226)]), (226, [(46, 46, St 227), (48, 57, St 226), (65, 70, St 226), (97, 102, St
  226)]), (227, [(33, 33, St 228), (36, 36, St 228), (38, 46, St 228), (48, 59, St 228), (61, 61, St 228), (65, 90, St 228), (95, 95, St
  228), (97, 122, St 228), (126, 126, St 228)])])"
definition uri_block39 :: uri_block where "uri_block39 = ([(500, [Markh], 489), (477, [Markh], 490)], [(228, [(33, 33, St 228), (36, 36,
  St 228), (38, 46, St 228), (48, 59, St 228), (61, 61, St 228), (65, 90, St 228), (93, 93, St 460), (95, 95, St 228), (97, 122, St 228),
  (126, 126, St 228)]), (489, [(33, 33, St 33), (35, 35, Tr 493), (36, 36, St 33), (37, 37, St 34), (38, 46, St 33), (47, 47, Tr 494),
  (48, 57, St 489), (58, 59, St 33), (61, 61, St 33), (63, 63, Tr 496), (64, 64, Tr 38), (65, 90, St 33), (95, 95, St 33), (97, 122, St
  33), (126, 126, St 33)]), (490, [(33, 33, St 467), (35, 35, Tr 485), (36, 36, St 467), (37, 37, St 31), (38, 45, St 467), (46, 46, St
  491), (47, 47, Tr 486), (48, 57, St 467), (58, 58, Tr 499), (59, 59, St 467), (61, 61, St 467), (63, 63, Tr 488), (64, 64, Tr 38), (65,
  90, St 467), (95, 95, St 467), (97, 122, St 467), (126, 126, St 467)])])"
definition uri_block40 :: uri_block where "uri_block40 = ([], [(491, [(2, 2, St 13), (33, 33, St 467), (35, 35, Tr 485), (36, 36, St 467),
  (37, 37, St 31), (38, 46, St 467), (47, 47, Tr 486), (48, 48, St 492), (49, 49, St 500), (50, 50, St 502), (51, 57, St 501), (58, 58, Tr
  499), (59, 59, St 467), (61, 61, St 467), (63, 63, Tr 488), (64, 64, Tr 38), (65, 90, St 467), (95, 95, St 467), (97, 122, St 467),
  (126, 126, St 467)]), (492, [(33, 33, St 467), (35, 35, Tr 485), (36, 36, St 467), (37, 37, St 31), (38, 45, St 467), (46, 46, St 493),
  (47, 47, Tr 486), (48, 57, St 467), (58, 58, Tr 499), (59, 59, St 467), (61, 61, St 467), (63, 63, Tr 488), (64, 64, Tr 38), (65, 90, St
  467), (95, 95, St 467), (97, 122, St 467), (126, 126, St 467)]), (493, [(2, 2, St 17), (33, 33, St 467), (35, 35, Tr 485), (36, 36, St
  467), (37, 37, St 31), (38, 46, St 467), (47, 47, Tr 486), (48, 48, St 494), (49, 49, St 496), (50, 50, St 498), (51, 57, St 497), (58,
  58, Tr 499), (59, 59, St 467), (61, 61, St 467), (63, 63, Tr 488), (64, 64, Tr 38), (65, 90, St 467), (95, 95, St 467), (97, 122, St
  467), (126, 126, St 467)])])"
definition uri_block41 :: uri_block where "uri_block41 = ([], [(494, [(33, 33, St 467), (35, 35, Tr 485), (36, 36, St 467), (37, 37, St
  31), (38, 45, St 467), (46, 46, St 495), (47, 47, Tr 486), (48, 57, St 467), (58, 58, Tr 499), (59, 59, St 467), (61, 61, St 467), (63,
  63, Tr 488), (64, 64, Tr 38), (65, 90, St 467), (95, 95, St 467), (97, 122, St 467), (126, 126, St 467)]), (495, [(2, 2, St 21), (33,
  33, St 467), (35, 35, Tr 485), (36, 36, St 467), (37, 37, St 31), (38, 46, St 467), (47, 47, Tr 486), (48, 57, St 467), (58, 58, Tr
  499), (59, 59, St 467), (61, 61, St 467), (63, 63, Tr 488), (64, 64, Tr 38), (65, 90, St 467), (95, 95, St 467), (97, 122, St 467),
  (126, 126, St 467)]), (496, [(33, 33, St 467), (35, 35, Tr 485), (36, 36, St 467), (37, 37, St 31), (38, 45, St 467), (46, 46, St 495),
  (47, 47, Tr 486), (48, 57, St 497), (58, 58, Tr 499), (59, 59, St 467), (61, 61, St 467), (63, 63, Tr 488), (64, 64, Tr 38), (65, 90, St
  467), (95, 95, St 467), (97, 122, St 467), (126, 126, St 467)])])"
definition uri_block42 :: uri_block where "uri_block42 = ([], [(497, [(33, 33, St 467), (35, 35, Tr 485), (36, 36, St 467), (37, 37, St
  31), (38, 45, St 467), (46, 46, St 495), (47, 47, Tr 486), (48, 57, St 494), (58, 58, Tr 499), (59, 59, St 467), (61, 61, St 467), (63,
  63, Tr 488), (64, 64, Tr 38), (65, 90, St 467), (95, 95, St 467), (97, 122, St 467), (126, 126, St 467)]), (498, [(33, 33, St 467), (35,
  35, Tr 485), (36, 36, St 467), (37, 37, St 31), (38, 45, St 467), (46, 46, St 495), (47, 47, Tr 486), (48, 52, St 494), (53, 53, St
  499), (54, 57, St 494), (58, 58, Tr 499), (59, 59, St 467), (61, 61, St 467), (63, 63, Tr 488), (64, 64, Tr 38), (65, 90, St 467), (95,
  95, St 467), (97, 122, St 467), (126, 126, St 467)]), (499, [(33, 33, St 467), (35, 35, Tr 485), (36, 36, St 467), (37, 37, St 31), (38,
  45, St 467), (46, 46, St 495), (47, 47, Tr 486), (48, 53, St 494), (54, 57, St 467), (58, 58, Tr 499), (59, 59, St 467), (61, 61, St
  467), (63, 63, Tr 488), (64, 64, Tr 38), (65, 90, St 467), (95, 95, St 467), (97, 122, St 467), (126, 126, St 467)])])"
definition uri_block43 :: uri_block where "uri_block43 = ([], [(500, [(33, 33, St 467), (35, 35, Tr 485), (36, 36, St 467), (37, 37, St
  31), (38, 45, St 467), (46, 46, St 493), (47, 47, Tr 486), (48, 57, St 501), (58, 58, Tr 499), (59, 59, St 467), (61, 61, St 467), (63,
  63, Tr 488), (64, 64, Tr 38), (65, 90, St 467), (95, 95, St 467), (97, 122, St 467), (126, 126, St 467)]), (501, [(33, 33, St 467), (35,
  35, Tr 485), (36, 36, St 467), (37, 37, St 31), (38, 45, St 467), (46, 46, St 493), (47, 47, Tr 486), (48, 57, St 492), (58, 58, Tr
  499), (59, 59, St 467), (61, 61, St 467), (63, 63, Tr 488), (64, 64, Tr 38), (65, 90, St 467), (95, 95, St 467), (97, 122, St 467),
  (126, 126, St 467)]), (502, [(33, 33, St 467), (35, 35, Tr 485), (36, 36, St 467), (37, 37, St 31), (38, 45, St 467), (46, 46, St 493),
  (47, 47, Tr 486), (48, 52, St 492), (53, 53, St 503), (54, 57, St 492), (58, 58, Tr 499), (59, 59, St 467), (61, 61, St 467), (63, 63,
  Tr 488), (64, 64, Tr 38), (65, 90, St 467), (95, 95, St 467), (97, 122, St 467), (126, 126, St 467)])])"
definition uri_block44 :: uri_block where "uri_block44 = ([(478, [Markh], 504), (480, [Markh], 505), (479, [Markh], 506)], [(503, [(33,
  33, St 467), (35, 35, Tr 485), (36, 36, St 467), (37, 37, St 31), (38, 45, St 467), (46, 46, St 493), (47, 47, Tr 486), (48, 53, St
  492), (54, 57, St 467), (58, 58, Tr 499), (59, 59, St 467), (61, 61, St 467), (63, 63, Tr 488), (64, 64, Tr 38), (65, 90, St 467), (95,
  95, St 467), (97, 122, St 467), (126, 126, St 467)]), (504, [(33, 33, St 467), (35, 35, Tr 485), (36, 36, St 467), (37, 37, St 31), (38,
  45, St 467), (46, 46, St 491), (47, 47, Tr 486), (48, 57, St 505), (58, 58, Tr 499), (59, 59, St 467), (61, 61, St 467), (63, 63, Tr
  488), (64, 64, Tr 38), (65, 90, St 467), (95, 95, St 467), (97, 122, St 467), (126, 126, St 467)]), (505, [(33, 33, St 467), (35, 35, Tr
  485), (36, 36, St 467), (37, 37, St 31), (38, 45, St 467), (46, 46, St 491), (47, 47, Tr 486), (48, 57, St 490), (58, 58, Tr 499), (59,
  59, St 467), (61, 61, St 467), (63, 63, Tr 488), (64, 64, Tr 38), (65, 90, St 467), (95, 95, St 467), (97, 122, St 467), (126, 126, St
  467)])])"
definition uri_block45 :: uri_block where "uri_block45 = ([(461, [Marku], 508), (543, [Save_scheme], 509)], [(506, [(33, 33, St 467), (35,
  35, Tr 485), (36, 36, St 467), (37, 37, St 31), (38, 45, St 467), (46, 46, St 491), (47, 47, Tr 486), (48, 52, St 490), (53, 53, St
  507), (54, 57, St 490), (58, 58, Tr 499), (59, 59, St 467), (61, 61, St 467), (63, 63, Tr 488), (64, 64, Tr 38), (65, 90, St 467), (95,
  95, St 467), (97, 122, St 467), (126, 126, St 467)]), (507, [(33, 33, St 467), (35, 35, Tr 485), (36, 36, St 467), (37, 37, St 31), (38,
  45, St 467), (46, 46, St 491), (47, 47, Tr 486), (48, 53, St 490), (54, 57, St 467), (58, 58, Tr 499), (59, 59, St 467), (61, 61, St
  467), (63, 63, Tr 488), (64, 64, Tr 38), (65, 90, St 467), (95, 95, St 467), (97, 122, St 467), (126, 126, St 467)]), (508, [(-128, -1,
  St 452), (33, 33, St 452), (35, 35, St 453), (36, 36, St 452), (37, 37, St 3), (38, 42, St 452), (43, 43, St 508), (44, 44, St 452),
  (45, 46, St 508), (47, 47, St 455), (48, 57, St 508), (58, 58, Tr 543), (59, 59, St 452), (61, 61, St 452), (63, 63, St 456), (64, 64,
  St 452), (65, 90, St 508), (95, 95, St 452), (97, 122, St 508), (126, 126, St 452)])])"
definition uri_block46 :: uri_block where "uri_block46 = ([(546, [Markh], 229)], [(509, [(-128, -1, St 455), (33, 33, St 455), (35, 35, St
  453), (36, 36, St 455), (37, 37, St 5), (38, 46, St 455), (47, 47, St 510), (48, 59, St 455), (61, 61, St 455), (63, 63, St 456), (64,
  90, St 455), (95, 95, St 455), (97, 122, St 455), (126, 126, St 455)]), (510, [(-128, -1, St 455), (33, 33, St 455), (35, 35, St 453),
  (36, 36, St 455), (37, 37, St 5), (38, 46, St 455), (47, 47, St 511), (48, 59, St 455), (61, 61, St 455), (63, 63, St 456), (64, 90, St
  455), (95, 95, St 455), (97, 122, St 455), (126, 126, St 455)]), (511, [(2, 2, Tr 546), (33, 33, Tr 547), (35, 35, Tr 548), (36, 36, Tr
  547), (37, 37, Tr 549), (38, 46, Tr 547), (47, 47, Tr 550), (48, 48, Tr 551), (49, 49, Tr 552), (50, 50, Tr 553), (51, 57, Tr 554), (58,
  58, Tr 555), (59, 59, Tr 547), (61, 61, Tr 547), (63, 63, Tr 556), (64, 64, Tr 557), (65, 90, Tr 547), (91, 91, Tr 558), (95, 95, Tr
  547), (97, 122, Tr 547), (126, 126, Tr 547)]), (229, [(48, 52, St 230)]), (230, [(48, 57, St 231)]), (231, [(46, 46, St 232)])])"
definition uri_block47 :: uri_block where "uri_block47 = ([(550, [Markh, Save_host], 513), (567, [Markh, Save_port], 513)], [(232, [(2, 2,
  St 233), (48, 48, St 235), (49, 49, St 249), (50, 50, St 251), (51, 57, St 250)]), (233, [(48, 52, St 234)]), (234, [(48, 57, St 235)]),
  (235, [(46, 46, St 236)]), (236, [(2, 2, St 237), (48, 48, St 239), (49, 49, St 245), (50, 50, St 247), (51, 57, St 246)]), (237, [(48,
  52, St 238)]), (238, [(48, 57, St 239)]), (239, [(46, 46, St 240)]), (240, [(2, 2, St 241), (48, 48, St 512), (49, 49, St 516), (50, 50,
  St 518), (51, 57, St 517)]), (241, [(48, 52, St 242)]), (242, [(48, 57, St 512)]), (512, [(35, 35, Tr 559), (47, 47, Tr 560), (58, 58,
  Tr 561), (63, 63, Tr 562)])])"
definition uri_block48 :: uri_block where "uri_block48 = ([(560, [Save_host, Markh], 513), (571, [Save_port, Markh], 513), (584, [Markh,
  Save_host], 514), (561, [Save_host], 514), (568, [Markh], 515)], [(513, [(-128, -1, St 513), (33, 33, St 513), (35, 35, Tr 563), (36,
  36, St 513), (37, 37, St 243), (38, 59, St 513), (61, 61, St 513), (63, 63, Tr 565), (64, 90, St 513), (95, 95, St 513), (97, 122, St
  513), (126, 126, St 513)]), (243, [(48, 57, St 244), (65, 70, St 244), (97, 102, St 244)]), (244, [(48, 57, St 513), (65, 70, St 513),
  (97, 102, St 513)]), (514, [(35, 35, Tr 566), (47, 47, Tr 567), (48, 57, Tr 568), (63, 63, Tr 569)]), (515, [(35, 35, Tr 570), (47, 47,
  Tr 571), (48, 57, St 515), (63, 63, Tr 573)])])"
definition uri_block49 :: uri_block where "uri_block49 = ([], [(516, [(35, 35, Tr 559), (47, 47, Tr 560), (48, 57, St 517), (58, 58, Tr
  561), (63, 63, Tr 562)]), (517, [(35, 35, Tr 559), (47, 47, Tr 560), (48, 57, St 512), (58, 58, Tr 561), (63, 63, Tr 562)]), (518, [(35,
  35, Tr 559), (47, 47, Tr 560), (48, 52, St 512), (53, 53, St 519), (54, 57, St 512), (58, 58, Tr 561), (63, 63, Tr 562)]), (519, [(35,
  35, Tr 559), (47, 47, Tr 560), (48, 53, St 512), (58, 58, Tr 561), (63, 63, Tr 562)]), (245, [(46, 46, St 240), (48, 57, St 246)]),
  (246, [(46, 46, St 240), (48, 57, St 239)]), (247, [(46, 46, St 240), (48, 52, St 239), (53, 53, St 248), (54, 57, St 239)]), (248,
  [(46, 46, St 240), (48, 53, St 239)]), (249, [(46, 46, St 236), (48, 57, St 250)]), (250, [(46, 46, St 236), (48, 57, St 235)]), (251,
  [(46, 46, St 236), (48, 52, St 235), (53, 53, St 252), (54, 57, St 235)]), (252, [(46, 46, St 236), (48, 53, St 235)])])"
definition uri_block50 :: uri_block where "uri_block50 = ([(547, [Markh], 520), (549, [Markh], 253), (555, [Markh, Save_host], 521), (576,
  [Save_host], 521)], [(520, [(33, 33, St 520), (35, 35, Tr 559), (36, 36, St 520), (37, 37, St 253), (38, 46, St 520), (47, 47, Tr 560),
  (48, 57, St 520), (58, 58, Tr 576), (59, 59, St 520), (61, 61, St 520), (63, 63, Tr 562), (64, 64, Tr 263), (65, 90, St 520), (95, 95,
  St 520), (97, 122, St 520), (126, 126, St 520)]), (253, [(48, 57, St 254), (65, 70, St 254), (97, 102, St 254)]), (254, [(48, 57, St
  520), (65, 70, St 520), (97, 102, St 520)]), (521, [(33, 33, St 255), (35, 35, Tr 566), (36, 36, St 255), (37, 37, St 256), (38, 46, St
  255), (47, 47, Tr 567), (48, 57, Tr 577), (58, 59, St 255), (61, 61, St 255), (63, 63, Tr 569), (64, 64, Tr 263), (65, 90, St 255), (95,
  95, St 255), (97, 122, St 255), (126, 126, St 255)])])"
definition uri_block51 :: uri_block where "uri_block51 = ([(263, [Save_userinfo], 522), (557, [Markh, Save_userinfo], 522), (578, [Markh],
  523)], [(255, [(33, 33, St 255), (36, 36, St 255), (37, 37, St 256), (38, 46, St 255), (48, 59, St 255), (61, 61, St 255), (64, 64, Tr
  263), (65, 90, St 255), (95, 95, St 255), (97, 122, St 255), (126, 126, St 255)]), (256, [(48, 57, St 257), (65, 70, St 257), (97, 102,
  St 257)]), (257, [(48, 57, St 255), (65, 70, St 255), (97, 102, St 255)]), (522, [(2, 2, Tr 546), (33, 33, Tr 578), (35, 35, Tr 548),
  (36, 36, Tr 578), (37, 37, Tr 579), (38, 46, Tr 578), (47, 47, Tr 550), (48, 48, Tr 580), (49, 49, Tr 581), (50, 50, Tr 582), (51, 57,
  Tr 583), (58, 58, Tr 584), (59, 59, Tr 578), (61, 61, Tr 578), (63, 63, Tr 556), (65, 90, Tr 578), (91, 91, Tr 558), (95, 95, Tr 578),
  (97, 122, Tr 578), (126, 126, Tr 578)])])"
definition uri_block52 :: uri_block where "uri_block52 = ([(579, [Markh], 258), (580, [Markh], 524)], [(523, [(33, 33, St 523), (35, 35,
  Tr 559), (36, 36, St 523), (37, 37, St 258), (38, 46, St 523), (47, 47, Tr 560), (48, 57, St 523), (58, 58, Tr 561), (59, 59, St 523),
  (61, 61, St 523), (63, 63, Tr 562), (65, 90, St 523), (95, 95, St 523), (97, 122, St 523), (126, 126, St 523)]), (258, [(48, 57, St
  259), (65, 70, St 259), (97, 102, St 259)]), (259, [(48, 57, St 523), (65, 70, St 523), (97, 102, St 523)]), (524, [(33, 33, St 523),
  (35, 35, Tr 559), (36, 36, St 523), (37, 37, St 258), (38, 45, St 523), (46, 46, St 525), (47, 47, Tr 560), (48, 57, St 523), (58, 58,
  Tr 561), (59, 59, St 523), (61, 61, St 523), (63, 63, Tr 562), (65, 90, St 523), (95, 95, St 523), (97, 122, St 523), (126, 126, St
  523)])])"
definition uri_block53 :: uri_block where "uri_block53 = ([], [(525, [(2, 2, St 233), (33, 33, St 523), (35, 35, Tr 559), (36, 36, St
  523), (37, 37, St 258), (38, 46, St 523), (47, 47, Tr 560), (48, 48, St 526), (49, 49, St 534), (50, 50, St 536), (51, 57, St 535), (58,
  58, Tr 561), (59, 59, St 523), (61, 61, St 523), (63, 63, Tr 562), (65, 90, St 523), (95, 95, St 523), (97, 122, St 523), (126, 126, St
  523)]), (526, [(33, 33, St 523), (35, 35, Tr 559), (36, 36, St 523), (37, 37, St 258), (38, 45, St 523), (46, 46, St 527), (47, 47, Tr
  560), (48, 57, St 523), (58, 58, Tr 561), (59, 59, St 523), (61, 61, St 523), (63, 63, Tr 562), (65, 90, St 523), (95, 95, St 523), (97,
  122, St 523), (126, 126, St 523)]), (527, [(2, 2, St 237), (33, 33, St 523), (35, 35, Tr 559), (36, 36, St 523), (37, 37, St 258), (38,
  46, St 523), (47, 47, Tr 560), (48, 48, St 528), (49, 49, St 530), (50, 50, St 532), (51, 57, St 531), (58, 58, Tr 561), (59, 59, St
  523), (61, 61, St 523), (63, 63, Tr 562), (65, 90, St 523), (95, 95, St 523), (97, 122, St 523), (126, 126, St 523)])])"
definition uri_block54 :: uri_block where "uri_block54 = ([], [(528, [(33, 33, St 523), (35, 35, Tr 559), (36, 36, St 523), (37, 37, St
  258), (38, 45, St 523), (46, 46, St 529), (47, 47, Tr 560), (48, 57, St 523), (58, 58, Tr 561), (59, 59, St 523), (61, 61, St 523), (63,
  63, Tr 562), (65, 90, St 523), (95, 95, St 523), (97, 122, St 523), (126, 126, St 523)]), (529, [(2, 2, St 241), (33, 33, St 523), (35,
  35, Tr 559), (36, 36, St 523), (37, 37, St 258), (38, 46, St 523), (47, 47, Tr 560), (48, 57, St 523), (58, 58, Tr 561), (59, 59, St
  523), (61, 61, St 523), (63, 63, Tr 562), (65, 90, St 523), (95, 95, St 523), (97, 122, St 523), (126, 126, St 523)]), (530, [(33, 33,
  St 523), (35, 35, Tr 559), (36, 36, St 523), (37, 37, St 258), (38, 45, St 523), (46, 46, St 529), (47, 47, Tr 560), (48, 57, St 531),
  (58, 58, Tr 561), (59, 59, St 523), (61, 61, St 523), (63, 63, Tr 562), (65, 90, St 523), (95, 95, St 523), (97, 122, St 523), (126,
  126, St 523)]), (531, [(33, 33, St 523), (35, 35, Tr 559), (36, 36, St 523), (37, 37, St 258), (38, 45, St 523), (46, 46, St 529), (47,
  47, Tr 560), (48, 57, St 528), (58, 58, Tr 561), (59, 59, St 523), (61, 61, St 523), (63, 63, Tr 562), (65, 90, St 523), (95, 95, St
  523), (97, 122, St 523), (126, 126, St 523)])])"
definition uri_block55 :: uri_block where "uri_block55 = ([], [(532, [(33, 33, St 523), (35, 35, Tr 559), (36, 36, St 523), (37, 37, St
  258), (38, 45, St 523), (46, 46, St 529), (47, 47, Tr 560), (48, 52, St 528), (53, 53, St 533), (54, 57, St 528), (58, 58, Tr 561), (59,
  59, St 523), (61, 61, St 523), (63, 63, Tr 562), (65, 90, St 523), (95, 95, St 523), (97, 122, St 523), (126, 126, St 523)]), (533,
  [(33, 33, St 523), (35, 35, Tr 559), (36, 36, St 523), (37, 37, St 258), (38, 45, St 523), (46, 46, St 529), (47, 47, Tr 560), (48, 53,
  St 528), (54, 57, St 523), (58, 58, Tr 561), (59, 59, St 523), (61, 61, St 523), (63, 63, Tr 562), (65, 90, St 523), (95, 95, St 523),
  (97, 122, St 523), (126, 126, St 523)]), (534, [(33, 33, St 523), (35, 35, Tr 559), (36, 36, St 523), (37, 37, St 258), (38, 45, St
  523), (46, 46, St 527), (47, 47, Tr 560), (48, 57, St 535), (58, 58, Tr 561), (59, 59, St 523), (61, 61, St 523), (63, 63, Tr 562), (65,
  90, St 523), (95, 95, St 523), (97, 122, St 523), (126, 126, St 523)])])"
definition uri_block56 :: uri_block where "uri_block56 = ([(581, [Markh], 538)], [(535, [(33, 33, St 523), (35, 35, Tr 559), (36, 36, St
  523), (37, 37, St 258), (38, 45, St 523), (46, 46, St 527), (47, 47, Tr 560), (48, 57, St 526), (58, 58, Tr 561), (59, 59, St 523), (61,
  61, St 523), (63, 63, Tr 562), (65, 90, St 523), (95, 95, St 523), (97, 122, St 523), (126, 126, St 523)]), (536, [(33, 33, St 523),
  (35, 35, Tr 559), (36, 36, St 523), (37, 37, St 258), (38, 45, St 523), (46, 46, St 527), (47, 47, Tr 560), (48, 52, St 526), (53, 53,
  St 537), (54, 57, St 526), (58, 58, Tr 561), (59, 59, St 523), (61, 61, St 523), (63, 63, Tr 562), (65, 90, St 523), (95, 95, St 523),
  (97, 122, St 523), (126, 126, St 523)]), (537, [(33, 33, St 523), (35, 35, Tr 559), (36, 36, St 523), (37, 37, St 258), (38, 45, St
  523), (46, 46, St 527), (47, 47, Tr 560), (48, 53, St 526), (54, 57, St 523), (58, 58, Tr 561), (59, 59, St 523), (61, 61, St 523), (63,
  63, Tr 562), (65, 90, St 523), (95, 95, St 523), (97, 122, St 523), (126, 126, St 523)])])"
definition uri_block57 :: uri_block where "uri_block57 = ([(583, [Markh], 539), (582, [Markh], 540)], [(538, [(33, 33, St 523), (35, 35,
  Tr 559), (36, 36, St 523), (37, 37, St 258), (38, 45, St 523), (46, 46, St 525), (47, 47, Tr 560), (48, 57, St 539), (58, 58, Tr 561),
  (59, 59, St 523), (61, 61, St 523), (63, 63, Tr 562), (65, 90, St 523), (95, 95, St 523), (97, 122, St 523), (126, 126, St 523)]), (539,
  [(33, 33, St 523), (35, 35, Tr 559), (36, 36, St 523), (37, 37, St 258), (38, 45, St 523), (46, 46, St 525), (47, 47, Tr 560), (48, 57,
  St 524), (58, 58, Tr 561), (59, 59, St 523), (61, 61, St 523), (63, 63, Tr 562), (65, 90, St 523), (95, 95, St 523), (97, 122, St 523),
  (126, 126, St 523)]), (540, [(33, 33, St 523), (35, 35, Tr 559), (36, 36, St 523), (37, 37, St 258), (38, 45, St 523), (46, 46, St 525),
  (47, 47, Tr 560), (48, 52, St 524), (53, 53, St 541), (54, 57, St 524), (58, 58, Tr 561), (59, 59, St 523), (61, 61, St 523), (63, 63,
  Tr 562), (65, 90, St 523), (95, 95, St 523), (97, 122, St 523), (126, 126, St 523)])])"
definition uri_block58 :: uri_block where "uri_block58 = ([(558, [Markh], 260)], [(541, [(33, 33, St 523), (35, 35, Tr 559), (36, 36, St
  523), (37, 37, St 258), (38, 45, St 523), (46, 46, St 525), (47, 47, Tr 560), (48, 53, St 524), (54, 57, St 523), (58, 58, Tr 561), (59,
  59, St 523), (61, 61, St 523), (63, 63, Tr 562), (65, 90, St 523), (95, 95, St 523), (97, 122, St 523), (126, 126, St 523)]), (260,
  [(48, 57, St 261), (58, 58, St 368), (65, 70, St 261), (97, 102, St 261), (118, 118, St 447)]), (261, [(48, 57, St 262), (58, 58, St
  265), (65, 70, St 262), (97, 102, St 262)]), (262, [(48, 57, St 263), (58, 58, St 265), (65, 70, St 263), (97, 102, St 263)]), (263,
  [(48, 57, St 264), (58, 58, St 265), (65, 70, St 264), (97, 102, St 264)]), (264, [(58, 58, St 265)]), (265, [(48, 57, St 266), (58, 58,
  St 363), (65, 70, St 266), (97, 102, St 266)]), (266, [(48, 57, St 267), (58, 58, St 270), (65, 70, St 267), (97, 102, St 267)])])"
definition uri_block59 :: uri_block where "uri_block59 = ([], [(267, [(48, 57, St 268), (58, 58, St 270), (65, 70, St 268), (97, 102, St
  268)]), (268, [(48, 57, St 269), (58, 58, St 270), (65, 70, St 269), (97, 102, St 269)]), (269, [(58, 58, St 270)]), (270, [(48, 57, St
  271), (58, 58, St 358), (65, 70, St 271), (97, 102, St 271)]), (271, [(48, 57, St 272), (58, 58, St 275), (65, 70, St 272), (97, 102, St
  272)]), (272, [(48, 57, St 273), (58, 58, St 275), (65, 70, St 273), (97, 102, St 273)]), (273, [(48, 57, St 274), (58, 58, St 275),
  (65, 70, St 274), (97, 102, St 274)]), (274, [(58, 58, St 275)]), (275, [(48, 57, St 276), (58, 58, St 353), (65, 70, St 276), (97, 102,
  St 276)]), (276, [(48, 57, St 277), (58, 58, St 280), (65, 70, St 277), (97, 102, St 277)]), (277, [(48, 57, St 278), (58, 58, St 280),
  (65, 70, St 278), (97, 102, St 278)])])"
definition uri_block60 :: uri_block where "uri_block60 = ([], [(278, [(48, 57, St 279), (58, 58, St 280), (65, 70, St 279), (97, 102, St
  279)]), (279, [(58, 58, St 280)]), (280, [(48, 57, St 281), (58, 58, St 348), (65, 70, St 281), (97, 102, St 281)]), (281, [(48, 57, St
  282), (58, 58, St 285), (65, 70, St 282), (97, 102, St 282)]), (282, [(48, 57, St 283), (58, 58, St 285), (65, 70, St 283), (97, 102, St
  283)]), (283, [(48, 57, St 284), (58, 58, St 285), (65, 70, St 284), (97, 102, St 284)]), (284, [(58, 58, St 285)]), (285, [(48, 57, St
  286), (58, 58, St 335), (65, 70, St 286), (97, 102, St 286)]), (286, [(48, 57, St 287), (58, 58, St 290), (65, 70, St 287), (97, 102, St
  287)]), (287, [(48, 57, St 288), (58, 58, St 290), (65, 70, St 288), (97, 102, St 288)]), (288, [(48, 57, St 289), (58, 58, St 290),
  (65, 70, St 289), (97, 102, St 289)])])"
definition uri_block61 :: uri_block where "uri_block61 = ([], [(289, [(58, 58, St 290)]), (290, [(2, 2, St 291), (48, 48, St 318), (49,
  49, St 326), (50, 50, St 329), (51, 57, St 332), (58, 58, St 333), (65, 70, St 334), (97, 102, St 334)]), (291, [(48, 52, St 292)]),
  (292, [(48, 57, St 293)]), (293, [(46, 46, St 294)]), (294, [(2, 2, St 295), (48, 48, St 297), (49, 49, St 314), (50, 50, St 316), (51,
  57, St 315)]), (295, [(48, 52, St 296)]), (296, [(48, 57, St 297)]), (297, [(46, 46, St 298)]), (298, [(2, 2, St 299), (48, 48, St 301),
  (49, 49, St 310), (50, 50, St 312), (51, 57, St 311)]), (299, [(48, 52, St 300)]), (300, [(48, 57, St 301)]), (301, [(46, 46, St 302)]),
  (302, [(2, 2, St 303), (48, 48, St 305), (49, 49, St 306), (50, 50, St 308), (51, 57, St 307)])])"
definition uri_block62 :: uri_block where "uri_block62 = ([], [(303, [(48, 52, St 304)]), (304, [(48, 57, St 305)]), (305, [(93, 93, St
  512)]), (306, [(48, 57, St 307), (93, 93, St 512)]), (307, [(48, 57, St 305), (93, 93, St 512)]), (308, [(48, 52, St 305), (53, 53, St
  309), (54, 57, St 305), (93, 93, St 512)]), (309, [(48, 53, St 305), (93, 93, St 512)]), (310, [(46, 46, St 302), (48, 57, St 311)]),
  (311, [(46, 46, St 302), (48, 57, St 301)]), (312, [(46, 46, St 302), (48, 52, St 301), (53, 53, St 313), (54, 57, St 301)]), (313,
  [(46, 46, St 302), (48, 53, St 301)]), (314, [(46, 46, St 298), (48, 57, St 315)]), (315, [(46, 46, St 298), (48, 57, St 297)]), (316,
  [(46, 46, St 298), (48, 52, St 297), (53, 53, St 317), (54, 57, St 297)]), (317, [(46, 46, St 298), (48, 53, St 297)])])"
definition uri_block63 :: uri_block where "uri_block63 = ([], [(318, [(46, 46, St 294), (48, 57, St 319), (58, 58, St 322), (65, 70, St
  319), (97, 102, St 319)]), (319, [(48, 57, St 320), (58, 58, St 322), (65, 70, St 320), (97, 102, St 320)]), (320, [(48, 57, St 321),
  (58, 58, St 322), (65, 70, St 321), (97, 102, St 321)]), (321, [(58, 58, St 322)]), (322, [(48, 57, St 323), (58, 58, St 305), (65, 70,
  St 323), (97, 102, St 323)]), (323, [(48, 57, St 324), (65, 70, St 324), (93, 93, St 512), (97, 102, St 324)]), (324, [(48, 57, St 325),
  (65, 70, St 325), (93, 93, St 512), (97, 102, St 325)]), (325, [(48, 57, St 305), (65, 70, St 305), (93, 93, St 512), (97, 102, St
  305)]), (326, [(46, 46, St 294), (48, 57, St 327), (58, 58, St 322), (65, 70, St 319), (97, 102, St 319)])])"
definition uri_block64 :: uri_block where "uri_block64 = ([], [(327, [(46, 46, St 294), (48, 57, St 328), (58, 58, St 322), (65, 70, St
  320), (97, 102, St 320)]), (328, [(46, 46, St 294), (48, 57, St 321), (58, 58, St 322), (65, 70, St 321), (97, 102, St 321)]), (329,
  [(46, 46, St 294), (48, 52, St 330), (53, 53, St 331), (54, 57, St 330), (58, 58, St 322), (65, 70, St 319), (97, 102, St 319)]), (330,
  [(46, 46, St 294), (48, 57, St 320), (58, 58, St 322), (65, 70, St 320), (97, 102, St 320)]), (331, [(46, 46, St 294), (48, 53, St 328),
  (54, 57, St 320), (58, 58, St 322), (65, 70, St 320), (97, 102, St 320)]), (332, [(46, 46, St 294), (48, 57, St 330), (58, 58, St 322),
  (65, 70, St 319), (97, 102, St 319)]), (333, [(48, 57, St 323), (65, 70, St 323), (97, 102, St 323)]), (334, [(48, 57, St 319), (58, 58,
  St 322), (65, 70, St 319), (97, 102, St 319)])])"
definition uri_block65 :: uri_block where "uri_block65 = ([], [(335, [(2, 2, St 291), (48, 48, St 336), (49, 49, St 340), (50, 50, St
  343), (51, 57, St 346), (65, 70, St 347), (97, 102, St 347)]), (336, [(46, 46, St 294), (48, 57, St 337), (58, 58, St 333), (65, 70, St
  337), (97, 102, St 337)]), (337, [(48, 57, St 338), (58, 58, St 333), (65, 70, St 338), (97, 102, St 338)]), (338, [(48, 57, St 339),
  (58, 58, St 333), (65, 70, St 339), (97, 102, St 339)]), (339, [(58, 58, St 333)]), (340, [(46, 46, St 294), (48, 57, St 341), (58, 58,
  St 333), (65, 70, St 337), (97, 102, St 337)]), (341, [(46, 46, St 294), (48, 57, St 342), (58, 58, St 333), (65, 70, St 338), (97, 102,
  St 338)]), (342, [(46, 46, St 294), (48, 57, St 339), (58, 58, St 333), (65, 70, St 339), (97, 102, St 339)])])"
definition uri_block66 :: uri_block where "uri_block66 = ([], [(343, [(46, 46, St 294), (48, 52, St 344), (53, 53, St 345), (54, 57, St
  344), (58, 58, St 333), (65, 70, St 337), (97, 102, St 337)]), (344, [(46, 46, St 294), (48, 57, St 338), (58, 58, St 333), (65, 70, St
  338), (97, 102, St 338)]), (345, [(46, 46, St 294), (48, 53, St 342), (54, 57, St 338), (58, 58, St 333), (65, 70, St 338), (97, 102, St
  338)]), (346, [(46, 46, St 294), (48, 57, St 344), (58, 58, St 333), (65, 70, St 337), (97, 102, St 337)]), (347, [(48, 57, St 337),
  (58, 58, St 333), (65, 70, St 337), (97, 102, St 337)]), (348, [(48, 57, St 349), (65, 70, St 349), (97, 102, St 349)]), (349, [(48, 57,
  St 350), (58, 58, St 335), (65, 70, St 350), (97, 102, St 350)]), (350, [(48, 57, St 351), (58, 58, St 335), (65, 70, St 351), (97, 102,
  St 351)])])"
definition uri_block67 :: uri_block where "uri_block67 = ([], [(351, [(48, 57, St 352), (58, 58, St 335), (65, 70, St 352), (97, 102, St
  352)]), (352, [(58, 58, St 335)]), (353, [(48, 57, St 354), (65, 70, St 354), (97, 102, St 354)]), (354, [(48, 57, St 355), (58, 58, St
  348), (65, 70, St 355), (97, 102, St 355)]), (355, [(48, 57, St 356), (58, 58, St 348), (65, 70, St 356), (97, 102, St 356)]), (356,
  [(48, 57, St 357), (58, 58, St 348), (65, 70, St 357), (97, 102, St 357)]), (357, [(58, 58, St 348)]), (358, [(48, 57, St 359), (65, 70,
  St 359), (97, 102, St 359)]), (359, [(48, 57, St 360), (58, 58, St 353), (65, 70, St 360), (97, 102, St 360)]), (360, [(48, 57, St 361),
  (58, 58, St 353), (65, 70, St 361), (97, 102, St 361)]), (361, [(48, 57, St 362), (58, 58, St 353), (65, 70, St 362), (97, 102, St
  362)])])"
definition uri_block68 :: uri_block where "uri_block68 = ([], [(362, [(58, 58, St 353)]), (363, [(48, 57, St 364), (65, 70, St 364), (97,
  102, St 364)]), (364, [(48, 57, St 365), (58, 58, St 358), (65, 70, St 365), (97, 102, St 365)]), (365, [(48, 57, St 366), (58, 58, St
  358), (65, 70, St 366), (97, 102, St 366)]), (366, [(48, 57, St 367), (58, 58, St 358), (65, 70, St 367), (97, 102, St 367)]), (367,
  [(58, 58, St 358)]), (368, [(58, 58, St 369)]), (369, [(2, 2, St 291), (48, 48, St 370), (49, 49, St 439), (50, 50, St 442), (51, 57, St
  445), (65, 70, St 446), (93, 93, St 512), (97, 102, St 446)]), (370, [(46, 46, St 294), (48, 57, St 371), (58, 58, St 374), (65, 70, St
  371), (93, 93, St 512), (97, 102, St 371)]), (371, [(48, 57, St 372), (58, 58, St 374), (65, 70, St 372), (93, 93, St 512), (97, 102, St
  372)])])"
definition uri_block69 :: uri_block where "uri_block69 = ([], [(372, [(48, 57, St 373), (58, 58, St 374), (65, 70, St 373), (93, 93, St
  512), (97, 102, St 373)]), (373, [(58, 58, St 374), (93, 93, St 512)]), (374, [(2, 2, St 291), (48, 48, St 375), (49, 49, St 431), (50,
  50, St 434), (51, 57, St 437), (65, 70, St 438), (97, 102, St 438)]), (375, [(46, 46, St 294), (48, 57, St 376), (58, 58, St 379), (65,
  70, St 376), (93, 93, St 512), (97, 102, St 376)]), (376, [(48, 57, St 377), (58, 58, St 379), (65, 70, St 377), (93, 93, St 512), (97,
  102, St 377)]), (377, [(48, 57, St 378), (58, 58, St 379), (65, 70, St 378), (93, 93, St 512), (97, 102, St 378)]), (378, [(58, 58, St
  379), (93, 93, St 512)]), (379, [(2, 2, St 291), (48, 48, St 380), (49, 49, St 423), (50, 50, St 426), (51, 57, St 429), (65, 70, St
  430), (97, 102, St 430)])])"
definition uri_block70 :: uri_block where "uri_block70 = ([], [(380, [(46, 46, St 294), (48, 57, St 381), (58, 58, St 384), (65, 70, St
  381), (93, 93, St 512), (97, 102, St 381)]), (381, [(48, 57, St 382), (58, 58, St 384), (65, 70, St 382), (93, 93, St 512), (97, 102, St
  382)]), (382, [(48, 57, St 383), (58, 58, St 384), (65, 70, St 383), (93, 93, St 512), (97, 102, St 383)]), (383, [(58, 58, St 384),
  (93, 93, St 512)]), (384, [(2, 2, St 291), (48, 48, St 385), (49, 49, St 415), (50, 50, St 418), (51, 57, St 421), (65, 70, St 422),
  (97, 102, St 422)]), (385, [(46, 46, St 294), (48, 57, St 386), (58, 58, St 389), (65, 70, St 386), (93, 93, St 512), (97, 102, St
  386)]), (386, [(48, 57, St 387), (58, 58, St 389), (65, 70, St 387), (93, 93, St 512), (97, 102, St 387)])])"
definition uri_block71 :: uri_block where "uri_block71 = ([], [(387, [(48, 57, St 388), (58, 58, St 389), (65, 70, St 388), (93, 93, St
  512), (97, 102, St 388)]), (388, [(58, 58, St 389), (93, 93, St 512)]), (389, [(2, 2, St 291), (48, 48, St 390), (49, 49, St 407), (50,
  50, St 410), (51, 57, St 413), (65, 70, St 414), (97, 102, St 414)]), (390, [(46, 46, St 294), (48, 57, St 391), (58, 58, St 394), (65,
  70, St 391), (93, 93, St 512), (97, 102, St 391)]), (391, [(48, 57, St 392), (58, 58, St 394), (65, 70, St 392), (93, 93, St 512), (97,
  102, St 392)]), (392, [(48, 57, St 393), (58, 58, St 394), (65, 70, St 393), (93, 93, St 512), (97, 102, St 393)]), (393, [(58, 58, St
  394), (93, 93, St 512)]), (394, [(2, 2, St 291), (48, 48, St 395), (49, 49, St 399), (50, 50, St 402), (51, 57, St 405), (65, 70, St
  406), (97, 102, St 406)])])"
definition uri_block72 :: uri_block where "uri_block72 = ([], [(395, [(46, 46, St 294), (48, 57, St 396), (58, 58, St 333), (65, 70, St
  396), (93, 93, St 512), (97, 102, St 396)]), (396, [(48, 57, St 397), (58, 58, St 333), (65, 70, St 397), (93, 93, St 512), (97, 102, St
  397)]), (397, [(48, 57, St 398), (58, 58, St 333), (65, 70, St 398), (93, 93, St 512), (97, 102, St 398)]), (398, [(58, 58, St 333),
  (93, 93, St 512)]), (399, [(46, 46, St 294), (48, 57, St 400), (58, 58, St 333), (65, 70, St 396), (93, 93, St 512), (97, 102, St
  396)]), (400, [(46, 46, St 294), (48, 57, St 401), (58, 58, St 333), (65, 70, St 397), (93, 93, St 512), (97, 102, St 397)]), (401,
  [(46, 46, St 294), (48, 57, St 398), (58, 58, St 333), (65, 70, St 398), (93, 93, St 512), (97, 102, St 398)])])"
definition uri_block73 :: uri_block where "uri_block73 = ([], [(402, [(46, 46, St 294), (48, 52, St 403), (53, 53, St 404), (54, 57, St
  403), (58, 58, St 333), (65, 70, St 396), (93, 93, St 512), (97, 102, St 396)]), (403, [(46, 46, St 294), (48, 57, St 397), (58, 58, St
  333), (65, 70, St 397), (93, 93, St 512), (97, 102, St 397)]), (404, [(46, 46, St 294), (48, 53, St 401), (54, 57, St 397), (58, 58, St
  333), (65, 70, St 397), (93, 93, St 512), (97, 102, St 397)]), (405, [(46, 46, St 294), (48, 57, St 403), (58, 58, St 333), (65, 70, St
  396), (93, 93, St 512), (97, 102, St 396)]), (406, [(48, 57, St 396), (58, 58, St 333), (65, 70, St 396), (93, 93, St 512), (97, 102, St
  396)]), (407, [(46, 46, St 294), (48, 57, St 408), (58, 58, St 394), (65, 70, St 391), (93, 93, St 512), (97, 102, St 391)]), (408,
  [(46, 46, St 294), (48, 57, St 409), (58, 58, St 394), (65, 70, St 392), (93, 93, St 512), (97, 102, St 392)])])"
definition uri_block74 :: uri_block where "uri_block74 = ([], [(409, [(46, 46, St 294), (48, 57, St 393), (58, 58, St 394), (65, 70, St
  393), (93, 93, St 512), (97, 102, St 393)]), (410, [(46, 46, St 294), (48, 52, St 411), (53, 53, St 412), (54, 57, St 411), (58, 58, St
  394), (65, 70, St 391), (93, 93, St 512), (97, 102, St 391)]), (411, [(46, 46, St 294), (48, 57, St 392), (58, 58, St 394), (65, 70, St
  392), (93, 93, St 512), (97, 102, St 392)]), (412, [(46, 46, St 294), (48, 53, St 409), (54, 57, St 392), (58, 58, St 394), (65, 70, St
  392), (93, 93, St 512), (97, 102, St 392)]), (413, [(46, 46, St 294), (48, 57, St 411), (58, 58, St 394), (65, 70, St 391), (93, 93, St
  512), (97, 102, St 391)]), (414, [(48, 57, St 391), (58, 58, St 394), (65, 70, St 391), (93, 93, St 512), (97, 102, St 391)]), (415,
  [(46, 46, St 294), (48, 57, St 416), (58, 58, St 389), (65, 70, St 386), (93, 93, St 512), (97, 102, St 386)])])"
definition uri_block75 :: uri_block where "uri_block75 = ([], [(416, [(46, 46, St 294), (48, 57, St 417), (58, 58, St 389), (65, 70, St
  387), (93, 93, St 512), (97, 102, St 387)]), (417, [(46, 46, St 294), (48, 57, St 388), (58, 58, St 389), (65, 70, St 388), (93, 93, St
  512), (97, 102, St 388)]), (418, [(46, 46, St 294), (48, 52, St 419), (53, 53, St 420), (54, 57, St 419), (58, 58, St 389), (65, 70, St
  386), (93, 93, St 512), (97, 102, St 386)]), (419, [(46, 46, St 294), (48, 57, St 387), (58, 58, St 389), (65, 70, St 387), (93, 93, St
  512), (97, 102, St 387)]), (420, [(46, 46, St 294), (48, 53, St 417), (54, 57, St 387), (58, 58, St 389), (65, 70, St 387), (93, 93, St
  512), (97, 102, St 387)]), (421, [(46, 46, St 294), (48, 57, St 419), (58, 58, St 389), (65, 70, St 386), (93, 93, St 512), (97, 102, St
  386)]), (422, [(48, 57, St 386), (58, 58, St 389), (65, 70, St 386), (93, 93, St 512), (97, 102, St 386)])])"
definition uri_block76 :: uri_block where "uri_block76 = ([], [(423, [(46, 46, St 294), (48, 57, St 424), (58, 58, St 384), (65, 70, St
  381), (93, 93, St 512), (97, 102, St 381)]), (424, [(46, 46, St 294), (48, 57, St 425), (58, 58, St 384), (65, 70, St 382), (93, 93, St
  512), (97, 102, St 382)]), (425, [(46, 46, St 294), (48, 57, St 383), (58, 58, St 384), (65, 70, St 383), (93, 93, St 512), (97, 102, St
  383)]), (426, [(46, 46, St 294), (48, 52, St 427), (53, 53, St 428), (54, 57, St 427), (58, 58, St 384), (65, 70, St 381), (93, 93, St
  512), (97, 102, St 381)]), (427, [(46, 46, St 294), (48, 57, St 382), (58, 58, St 384), (65, 70, St 382), (93, 93, St 512), (97, 102, St
  382)]), (428, [(46, 46, St 294), (48, 53, St 425), (54, 57, St 382), (58, 58, St 384), (65, 70, St 382), (93, 93, St 512), (97, 102, St
  382)])])"
definition uri_block77 :: uri_block where "uri_block77 = ([], [(429, [(46, 46, St 294), (48, 57, St 427), (58, 58, St 384), (65, 70, St
  381), (93, 93, St 512), (97, 102, St 381)]), (430, [(48, 57, St 381), (58, 58, St 384), (65, 70, St 381), (93, 93, St 512), (97, 102, St
  381)]), (431, [(46, 46, St 294), (48, 57, St 432), (58, 58, St 379), (65, 70, St 376), (93, 93, St 512), (97, 102, St 376)]), (432,
  [(46, 46, St 294), (48, 57, St 433), (58, 58, St 379), (65, 70, St 377), (93, 93, St 512), (97, 102, St 377)]), (433, [(46, 46, St 294),
  (48, 57, St 378), (58, 58, St 379), (65, 70, St 378), (93, 93, St 512), (97, 102, St 378)]), (434, [(46, 46, St 294), (48, 52, St 435),
  (53, 53, St 436), (54, 57, St 435), (58, 58, St 379), (65, 70, St 376), (93, 93, St 512), (97, 102, St 376)]), (435, [(46, 46, St 294),
  (48, 57, St 377), (58, 58, St 379), (65, 70, St 377), (93, 93, St 512), (97, 102, St 377)])])"
definition uri_block78 :: uri_block where "uri_block78 = ([], [(436, [(46, 46, St 294), (48, 53, St 433), (54, 57, St 377), (58, 58, St
  379), (65, 70, St 377), (93, 93, St 512), (97, 102, St 377)]), (437, [(46, 46, St 294), (48, 57, St 435), (58, 58, St 379), (65, 70, St
  376), (93, 93, St 512), (97, 102, St 376)]), (438, [(48, 57, St 376), (58, 58, St 379), (65, 70, St 376), (93, 93, St 512), (97, 102, St
  376)]), (439, [(46, 46, St 294), (48, 57, St 440), (58, 58, St 374), (65, 70, St 371), (93, 93, St 512), (97, 102, St 371)]), (440,
  [(46, 46, St 294), (48, 57, St 441), (58, 58, St 374), (65, 70, St 372), (93, 93, St 512), (97, 102, St 372)]), (441, [(46, 46, St 294),
  (48, 57, St 373), (58, 58, St 374), (65, 70, St 373), (93, 93, St 512), (97, 102, St 373)]), (442, [(46, 46, St 294), (48, 52, St 443),
  (53, 53, St 444), (54, 57, St 443), (58, 58, St 374), (65, 70, St 371), (93, 93, St 512), (97, 102, St 371)])])"
definition uri_block79 :: uri_block where "uri_block79 = ([], [(443, [(46, 46, St 294), (48, 57, St 372), (58, 58, St 374), (65, 70, St
  372), (93, 93, St 512), (97, 102, St 372)]), (444, [(46, 46, St 294), (48, 53, St 441), (54, 57, St 372), (58, 58, St 374), (65, 70, St
  372), (93, 93, St 512), (97, 102, St 372)]), (445, [(46, 46, St 294), (48, 57, St 443), (58, 58, St 374), (65, 70, St 371), (93, 93, St
  512), (97, 102, St 371)]), (446, [(48, 57, St 371), (58, 58, St 374), (65, 70, St 371), (93, 93, St 512), (97, 102, St 371)]), (447,
  [(48, 57, St 448), (65, 70, St 448), (97, 102, St 448)]), (448, [(46, 46, St 449), (48, 57, St 448), (65, 70, St 448), (97, 102, St
  448)]), (449, [(33, 33, St 450), (36, 36, St 450), (38, 46, St 450), (48, 59, St 450), (61, 61, St 450), (65, 90, St 450), (95, 95, St
  450), (97, 122, St 450), (126, 126, St 450)])])"
definition uri_block80 :: uri_block where "uri_block80 = ([(577, [Markh], 542), (551, [Markh], 543)], [(450, [(33, 33, St 450), (36, 36,
  St 450), (38, 46, St 450), (48, 59, St 450), (61, 61, St 450), (65, 90, St 450), (93, 93, St 512), (95, 95, St 450), (97, 122, St 450),
  (126, 126, St 450)]), (542, [(33, 33, St 255), (35, 35, Tr 570), (36, 36, St 255), (37, 37, St 256), (38, 46, St 255), (47, 47, Tr 571),
  (48, 57, St 542), (58, 59, St 255), (61, 61, St 255), (63, 63, Tr 573), (64, 64, Tr 263), (65, 90, St 255), (95, 95, St 255), (97, 122,
  St 255), (126, 126, St 255)]), (543, [(33, 33, St 520), (35, 35, Tr 559), (36, 36, St 520), (37, 37, St 253), (38, 45, St 520), (46, 46,
  St 544), (47, 47, Tr 560), (48, 57, St 520), (58, 58, Tr 576), (59, 59, St 520), (61, 61, St 520), (63, 63, Tr 562), (64, 64, Tr 263),
  (65, 90, St 520), (95, 95, St 520), (97, 122, St 520), (126, 126, St 520)])])"
definition uri_block81 :: uri_block where "uri_block81 = ([], [(544, [(2, 2, St 233), (33, 33, St 520), (35, 35, Tr 559), (36, 36, St
  520), (37, 37, St 253), (38, 46, St 520), (47, 47, Tr 560), (48, 48, St 545), (49, 49, St 553), (50, 50, St 555), (51, 57, St 554), (58,
  58, Tr 576), (59, 59, St 520), (61, 61, St 520), (63, 63, Tr 562), (64, 64, Tr 263), (65, 90, St 520), (95, 95, St 520), (97, 122, St
  520), (126, 126, St 520)]), (545, [(33, 33, St 520), (35, 35, Tr 559), (36, 36, St 520), (37, 37, St 253), (38, 45, St 520), (46, 46, St
  546), (47, 47, Tr 560), (48, 57, St 520), (58, 58, Tr 576), (59, 59, St 520), (61, 61, St 520), (63, 63, Tr 562), (64, 64, Tr 263), (65,
  90, St 520), (95, 95, St 520), (97, 122, St 520), (126, 126, St 520)]), (546, [(2, 2, St 237), (33, 33, St 520), (35, 35, Tr 559), (36,
  36, St 520), (37, 37, St 253), (38, 46, St 520), (47, 47, Tr 560), (48, 48, St 547), (49, 49, St 549), (50, 50, St 551), (51, 57, St
  550), (58, 58, Tr 576), (59, 59, St 520), (61, 61, St 520), (63, 63, Tr 562), (64, 64, Tr 263), (65, 90, St 520), (95, 95, St 520), (97,
  122, St 520), (126, 126, St 520)])])"
definition uri_block82 :: uri_block where "uri_block82 = ([], [(547, [(33, 33, St 520), (35, 35, Tr 559), (36, 36, St 520), (37, 37, St
  253), (38, 45, St 520), (46, 46, St 548), (47, 47, Tr 560), (48, 57, St 520), (58, 58, Tr 576), (59, 59, St 520), (61, 61, St 520), (63,
  63, Tr 562), (64, 64, Tr 263), (65, 90, St 520), (95, 95, St 520), (97, 122, St 520), (126, 126, St 520)]), (548, [(2, 2, St 241), (33,
  33, St 520), (35, 35, Tr 559), (36, 36, St 520), (37, 37, St 253), (38, 46, St 520), (47, 47, Tr 560), (48, 57, St 520), (58, 58, Tr
  576), (59, 59, St 520), (61, 61, St 520), (63, 63, Tr 562), (64, 64, Tr 263), (65, 90, St 520), (95, 95, St 520), (97, 122, St 520),
  (126, 126, St 520)]), (549, [(33, 33, St 520), (35, 35, Tr 559), (36, 36, St 520), (37, 37, St 253), (38, 45, St 520), (46, 46, St 548),
  (47, 47, Tr 560), (48, 57, St 550), (58, 58, Tr 576), (59, 59, St 520), (61, 61, St 520), (63, 63, Tr 562), (64, 64, Tr 263), (65, 90,
  St 520), (95, 95, St 520), (97, 122, St 520), (126, 126, St 520)])])"
definition uri_block83 :: uri_block where "uri_block83 = ([], [(550, [(33, 33, St 520), (35, 35, Tr 559), (36, 36, St 520), (37, 37, St
  253), (38, 45, St 520), (46, 46, St 548), (47, 47, Tr 560), (48, 57, St 547), (58, 58, Tr 576), (59, 59, St 520), (61, 61, St 520), (63,
  63, Tr 562), (64, 64, Tr 263), (65, 90, St 520), (95, 95, St 520), (97, 122, St 520), (126, 126, St 520)]), (551, [(33, 33, St 520),
  (35, 35, Tr 559), (36, 36, St 520), (37, 37, St 253), (38, 45, St 520), (46, 46, St 548), (47, 47, Tr 560), (48, 52, St 547), (53, 53,
  St 552), (54, 57, St 547), (58, 58, Tr 576), (59, 59, St 520), (61, 61, St 520), (63, 63, Tr 562), (64, 64, Tr 263), (65, 90, St 520),
  (95, 95, St 520), (97, 122, St 520), (126, 126, St 520)]), (552, [(33, 33, St 520), (35, 35, Tr 559), (36, 36, St 520), (37, 37, St
  253), (38, 45, St 520), (46, 46, St 548), (47, 47, Tr 560), (48, 53, St 547), (54, 57, St 520), (58, 58, Tr 576), (59, 59, St 520), (61,
  61, St 520), (63, 63, Tr 562), (64, 64, Tr 263), (65, 90, St 520), (95, 95, St 520), (97, 122, St 520), (126, 126, St 520)])])"
definition uri_block84 :: uri_block where "uri_block84 = ([], [(553, [(33, 33, St 520), (35, 35, Tr 559), (36, 36, St 520), (37, 37, St
  253), (38, 45, St 520), (46, 46, St 546), (47, 47, Tr 560), (48, 57, St 554), (58, 58, Tr 576), (59, 59, St 520), (61, 61, St 520), (63,
  63, Tr 562), (64, 64, Tr 263), (65, 90, St 520), (95, 95, St 520), (97, 122, St 520), (126, 126, St 520)]), (554, [(33, 33, St 520),
  (35, 35, Tr 559), (36, 36, St 520), (37, 37, St 253), (38, 45, St 520), (46, 46, St 546), (47, 47, Tr 560), (48, 57, St 545), (58, 58,
  Tr 576), (59, 59, St 520), (61, 61, St 520), (63, 63, Tr 562), (64, 64, Tr 263), (65, 90, St 520), (95, 95, St 520), (97, 122, St 520),
  (126, 126, St 520)]), (555, [(33, 33, St 520), (35, 35, Tr 559), (36, 36, St 520), (37, 37, St 253), (38, 45, St 520), (46, 46, St 546),
  (47, 47, Tr 560), (48, 52, St 545), (53, 53, St 556), (54, 57, St 545), (58, 58, Tr 576), (59, 59, St 520), (61, 61, St 520), (63, 63,
  Tr 562), (64, 64, Tr 263), (65, 90, St 520), (95, 95, St 520), (97, 122, St 520), (126, 126, St 520)])])"
definition uri_block85 :: uri_block where "uri_block85 = ([(552, [Markh], 557), (554, [Markh], 558), (553, [Markh], 559)], [(556, [(33,
  33, St 520), (35, 35, Tr 559), (36, 36, St 520), (37, 37, St 253), (38, 45, St 520), (46, 46, St 546), (47, 47, Tr 560), (48, 53, St
  545), (54, 57, St 520), (58, 58, Tr 576), (59, 59, St 520), (61, 61, St 520), (63, 63, Tr 562), (64, 64, Tr 263), (65, 90, St 520), (95,
  95, St 520), (97, 122, St 520), (126, 126, St 520)]), (557, [(33, 33, St 520), (35, 35, Tr 559), (36, 36, St 520), (37, 37, St 253),
  (38, 45, St 520), (46, 46, St 544), (47, 47, Tr 560), (48, 57, St 558), (58, 58, Tr 576), (59, 59, St 520), (61, 61, St 520), (63, 63,
  Tr 562), (64, 64, Tr 263), (65, 90, St 520), (95, 95, St 520), (97, 122, St 520), (126, 126, St 520)]), (558, [(33, 33, St 520), (35,
  35, Tr 559), (36, 36, St 520), (37, 37, St 253), (38, 45, St 520), (46, 46, St 544), (47, 47, Tr 560), (48, 57, St 543), (58, 58, Tr
  576), (59, 59, St 520), (61, 61, St 520), (63, 63, Tr 562), (64, 64, Tr 263), (65, 90, St 520), (95, 95, St 520), (97, 122, St 520),
  (126, 126, St 520)])])"
definition uri_block86 :: uri_block where "uri_block86 = ([], [(559, [(33, 33, St 520), (35, 35, Tr 559), (36, 36, St 520), (37, 37, St
  253), (38, 45, St 520), (46, 46, St 544), (47, 47, Tr 560), (48, 52, St 543), (53, 53, St 560), (54, 57, St 543), (58, 58, Tr 576), (59,
  59, St 520), (61, 61, St 520), (63, 63, Tr 562), (64, 64, Tr 263), (65, 90, St 520), (95, 95, St 520), (97, 122, St 520), (126, 126, St
  520)]), (560, [(33, 33, St 520), (35, 35, Tr 559), (36, 36, St 520), (37, 37, St 253), (38, 45, St 520), (46, 46, St 544), (47, 47, Tr
  560), (48, 53, St 543), (54, 57, St 520), (58, 58, Tr 576), (59, 59, St 520), (61, 61, St 520), (63, 63, Tr 562), (64, 64, Tr 263), (65,
  90, St 520), (95, 95, St 520), (97, 122, St 520), (126, 126, St 520)])])"

text \<open>The block a label or a state is in, and what it is there; the error state has no transitions.\<close>

definition tr_block :: "int \<Rightarrow> uri_block" where
  "tr_block n = (if n < 504 then (if n < 483 then (if n < 472 then (if n < 466 then (if n < 461 then (if n < 263 then uri_block10 else
    uri_block51) else if n < 462 then uri_block45 else uri_block2) else if n < 468 then (if n < 467 then uri_block5 else uri_block1) else
    if n < 469 then uri_block5 else uri_block1) else if n < 476 then (if n < 474 then (if n < 473 then uri_block6 else uri_block8) else if
    n < 475 then uri_block1 else uri_block9) else if n < 478 then (if n < 477 then uri_block3 else uri_block39) else if n < 481 then
    uri_block44 else if n < 482 then uri_block9 else uri_block4) else if n < 491 then (if n < 487 then (if n < 485 then (if n < 484 then
    uri_block10 else uri_block17) else if n < 486 then uri_block1 else uri_block3) else if n < 489 then (if n < 488 then uri_block7 else
    uri_block4) else if n < 490 then uri_block1 else uri_block3) else if n < 496 then (if n < 493 then (if n < 492 then uri_block7 else
    uri_block4) else if n < 494 then uri_block1 else uri_block3) else if n < 500 then (if n < 499 then uri_block4 else uri_block9) else if
    n < 501 then uri_block39 else if n < 502 then uri_block10 else uri_block11) else if n < 562 then (if n < 550 then (if n < 546 then (if
    n < 507 then (if n < 505 then uri_block15 else uri_block16) else if n < 543 then uri_block7 else uri_block45) else if n < 548 then (if
    n < 547 then uri_block46 else uri_block50) else if n < 549 then uri_block2 else uri_block50) else if n < 556 then (if n < 552 then (if
    n < 551 then uri_block47 else uri_block80) else if n < 555 then uri_block85 else uri_block50) else if n < 558 then (if n < 557 then
    uri_block4 else uri_block51) else if n < 559 then uri_block58 else if n < 560 then uri_block2 else uri_block48) else if n < 571 then
    (if n < 567 then (if n < 565 then (if n < 563 then uri_block4 else uri_block2) else if n < 566 then uri_block4 else uri_block2) else
    if n < 569 then (if n < 568 then uri_block47 else uri_block48) else if n < 570 then uri_block4 else uri_block2) else if n < 578 then
    (if n < 576 then (if n < 573 then uri_block48 else uri_block4) else if n < 577 then uri_block50 else uri_block80) else if n < 581 then
    (if n < 579 then uri_block51 else uri_block52) else if n < 582 then uri_block56 else if n < 584 then uri_block57 else uri_block48)"

definition st_block :: "int \<Rightarrow> uri_block" where
  "st_block n = (if n < 387 then (if n < 194 then (if n < 81 then (if n < 31 then (if n < 9 then (if n < 6 then uri_block3 else if n < 7
    then uri_block4 else uri_block5) else if n < 19 then uri_block6 else if n < 23 then uri_block7 else uri_block8) else if n < 38 then
    (if n < 33 then uri_block9 else if n < 36 then uri_block10 else uri_block11) else if n < 56 then (if n < 45 then uri_block17 else
    uri_block18) else if n < 67 then uri_block19 else uri_block20) else if n < 140 then (if n < 113 then (if n < 96 then uri_block21 else
    if n < 105 then uri_block22 else uri_block23) else if n < 121 then uri_block24 else if n < 129 then uri_block25 else uri_block26) else
    if n < 165 then (if n < 150 then uri_block27 else if n < 158 then uri_block28 else uri_block29) else if n < 180 then (if n < 173 then
    uri_block30 else uri_block31) else if n < 187 then uri_block32 else uri_block33) else if n < 260 then (if n < 229 then (if n < 214
    then (if n < 201 then uri_block34 else if n < 207 then uri_block35 else uri_block36) else if n < 221 then uri_block37 else if n < 228
    then uri_block38 else uri_block39) else if n < 245 then (if n < 232 then uri_block46 else if n < 243 then uri_block47 else
    uri_block48) else if n < 255 then (if n < 253 then uri_block49 else uri_block50) else if n < 258 then uri_block51 else uri_block52)
    else if n < 327 then (if n < 289 then (if n < 267 then uri_block58 else if n < 278 then uri_block59 else uri_block60) else if n < 303
    then uri_block61 else if n < 318 then uri_block62 else uri_block63) else if n < 351 then (if n < 335 then uri_block64 else if n < 343
    then uri_block65 else uri_block66) else if n < 372 then (if n < 362 then uri_block67 else uri_block68) else if n < 380 then
    uri_block69 else uri_block70) else if n < 489 then (if n < 456 then (if n < 429 then (if n < 409 then (if n < 395 then uri_block71
    else if n < 402 then uri_block72 else uri_block73) else if n < 416 then uri_block74 else if n < 423 then uri_block75 else uri_block76)
    else if n < 450 then (if n < 436 then uri_block77 else if n < 443 then uri_block78 else uri_block79) else if n < 453 then (if n < 451
    then uri_block80 else uri_block1) else if n < 455 then uri_block2 else uri_block3) else if n < 470 then (if n < 465 then (if n < 459
    then uri_block5 else if n < 460 then uri_block6 else uri_block7) else if n < 467 then uri_block8 else if n < 469 then uri_block9 else
    uri_block10) else if n < 479 then (if n < 472 then uri_block11 else if n < 475 then uri_block12 else uri_block13) else if n < 485 then
    (if n < 482 then uri_block14 else uri_block15) else if n < 488 then uri_block16 else uri_block17) else if n < 523 then (if n < 506
    then (if n < 497 then (if n < 491 then uri_block39 else if n < 494 then uri_block40 else uri_block41) else if n < 500 then uri_block42
    else if n < 503 then uri_block43 else uri_block44) else if n < 513 then (if n < 509 then uri_block45 else if n < 512 then uri_block46
    else uri_block47) else if n < 520 then (if n < 516 then uri_block48 else uri_block49) else if n < 522 then uri_block50 else
    uri_block51) else if n < 542 then (if n < 532 then (if n < 525 then uri_block52 else if n < 528 then uri_block53 else uri_block54)
    else if n < 538 then (if n < 535 then uri_block55 else uri_block56) else if n < 541 then uri_block57 else uri_block58) else if n < 550
    then (if n < 544 then uri_block80 else if n < 547 then uri_block81 else uri_block82) else if n < 556 then (if n < 553 then uri_block83
    else uri_block84) else if n < 559 then uri_block85 else uri_block86)"

definition goto_st :: "int \<Rightarrow> uri_goto" where "goto_st n = ([], n)"

definition goto_tr :: "int \<Rightarrow> uri_goto" where
  "goto_tr k = (case map_of (fst (tr_block k)) k of None \<Rightarrow> goto_st 0 | Some g \<Rightarrow> g)"

fun goto_label :: "uri_label \<Rightarrow> uri_goto" where
  "goto_label (Tr k) = goto_tr k"
| "goto_label (St n) = goto_st n"

definition uri_row :: "int \<Rightarrow> uri_edges" where
  "uri_row n =
    (case map_of (snd (st_block n)) n of
       None \<Rightarrow> []
     | Some row \<Rightarrow> map (\<lambda>(lo, hi, l). (lo, hi, goto_label l)) row)"

text \<open>The actions at the end of the text, by state.\<close>

definition uri_eof :: "int \<Rightarrow> uri_action list" where
  "uri_eof n = (if n = 453 then [Marku, Save_fragment] else if n = 454 then [Save_fragment] else if n = 456 then [Marku, Save_query] else
    if n = 457 then [Save_query] else if n = 459 \<or> n = 469 then [Markh, Save_host] else if n = 460 \<or> 463 \<le> n \<and> n \<le>
    467 \<or> 470 \<le> n \<and> n \<le> 488 \<or> 490 \<le> n \<and> n \<le> 507 then [Save_host] else if n = 461 \<or> n = 468 then
    [Markh, Save_port] else if n = 462 \<or> n = 489 then [Save_port] else if n = 511 \<or> n = 522 then [Markh, Save_host, Save_path]
    else if n = 512 \<or> 516 \<le> n \<and> n \<le> 520 \<or> 523 \<le> n \<and> n \<le> 541 \<or> 543 \<le> n \<and> n \<le> 560 then
    [Save_host, Markh, Save_path] else if n = 513 then [Save_path] else if n = 514 \<or> n = 521 then [Markh, Save_port, Save_path] else
    if n = 515 \<or> n = 542 then [Save_port, Markh, Save_path] else [])"

end
