(* ===== verification/Sylar_Uri.thy ===== *)
theory Sylar_Uri
  imports Sylar_UriTable Sylar_Address
begin

text \<open>
  URIs (\<^verbatim>\<open>sylar/uri.cpp\<close>): the parser around the state machine of \<^verbatim>\<open>Sylar_UriTable\<close>, the components of a
  URI and its text. The pointer \<open>mark\<close> is an offset into the text, or null.
\<close>

section \<open>Components\<close>

record uri =
  ur_scheme :: string
  ur_userinfo :: string
  ur_host :: string
  ur_path :: string
  ur_query :: string
  ur_fragment :: string
  ur_port :: int

definition Uri :: uri where
  "Uri = \<lparr>ur_scheme = [], ur_userinfo = [], ur_host = [], ur_path = [], ur_query = [], ur_fragment = [], ur_port = 0\<rparr>"

definition ur_setScheme :: "uri \<Rightarrow> string \<Rightarrow> uri" where "ur_setScheme u v = u\<lparr>ur_scheme := v\<rparr>"
definition ur_setUserinfo :: "uri \<Rightarrow> string \<Rightarrow> uri" where "ur_setUserinfo u v = u\<lparr>ur_userinfo := v\<rparr>"
definition ur_setHost :: "uri \<Rightarrow> string \<Rightarrow> uri" where "ur_setHost u v = u\<lparr>ur_host := v\<rparr>"
definition ur_setPath :: "uri \<Rightarrow> string \<Rightarrow> uri" where "ur_setPath u v = u\<lparr>ur_path := v\<rparr>"
definition ur_setQuery :: "uri \<Rightarrow> string \<Rightarrow> uri" where "ur_setQuery u v = u\<lparr>ur_query := v\<rparr>"
definition ur_setFragment :: "uri \<Rightarrow> string \<Rightarrow> uri" where "ur_setFragment u v = u\<lparr>ur_fragment := v\<rparr>"
definition ur_setPort :: "uri \<Rightarrow> int \<Rightarrow> uri" where "ur_setPort u v = u\<lparr>ur_port := v\<rparr>"

definition isDefaultPort :: "uri \<Rightarrow> bool" where
  "isDefaultPort u =
    (if ur_port u = 0 then True
     else if ur_scheme u = ''http'' \<or> ur_scheme u = ''ws'' then ur_port u = 80
     else if ur_scheme u = ''https'' \<or> ur_scheme u = ''wss'' then ur_port u = 443
     else False)"

definition ur_getPath :: "uri \<Rightarrow> string" where
  "ur_getPath u = (if ur_path u = [] then ''/'' else ur_path u)"

definition ur_getPort :: "uri \<Rightarrow> int" where
  "ur_getPort u =
    (if ur_port u \<noteq> 0 then ur_port u
     else if ur_scheme u = ''http'' \<or> ur_scheme u = ''ws'' then 80
     else if ur_scheme u = ''https'' \<or> ur_scheme u = ''wss'' then 443
     else ur_port u)"

definition ur_toString :: "uri \<Rightarrow> string" where
  "ur_toString u =
    ur_scheme u @ ''://'' @ ur_userinfo u @ (if ur_userinfo u = [] then '''' else ''@'') @ ur_host u @
    (if isDefaultPort u then '''' else '':'' @ dec_int (ur_port u)) @ ur_getPath u @
    (if ur_query u = [] then '''' else ''?'') @ ur_query u @
    (if ur_fragment u = [] then '''' else ''#'') @ ur_fragment u"

text \<open>The port goes through a 16-bit parameter.\<close>

definition createAddress :: "u8 \<Rightarrow> resolver \<Rightarrow> uri \<Rightarrow> address option" where
  "createAddress host gai u =
    map_option (\<lambda>a. setPort host a (word_of_int (ur_getPort u))) (LookupAnyIPAddress gai (ur_host u) AF_INET 0 0)"

section \<open>Parsing\<close>

text \<open>A character as the signed number the comparisons of the machine see.\<close>

definition char_int :: "char \<Rightarrow> int" where
  "char_int c = (let k = of_char c :: nat in if k < 128 then int k else int k - 256)"

fun find_range :: "uri_edges \<Rightarrow> int \<Rightarrow> uri_goto" where
  "find_range [] k = goto_st 0"
| "find_range ((lo, hi, g) # row) k = (if lo \<le> k \<and> k \<le> hi then g else find_range row k)"

text \<open>\<^verbatim>\<open>std::string(mark, p - mark)\<close>: a null \<open>mark\<close> makes the constructor throw.\<close>

definition marked :: "string \<Rightarrow> nat \<Rightarrow> nat option \<Rightarrow> string res" where
  "marked s p mark =
    (case mark of
       None \<Rightarrow> Inl (Logic_error ''basic_string: construction from null is not valid'')
     | Some m \<Rightarrow> Inr (take (p - m) (drop m s)))"

fun uri_act :: "string \<Rightarrow> nat \<Rightarrow> uri_action \<Rightarrow> nat option \<times> uri \<Rightarrow> (nat option \<times> uri) res" where
  "uri_act s p Marku (mark, u) = Inr (Some p, u)"
| "uri_act s p Markh (mark, u) = Inr (Some p, u)"
| "uri_act s p Save_scheme (mark, u) = bindE (marked s p mark) (\<lambda>v. Inr (None, ur_setScheme u v))"
| "uri_act s p Save_port (mark, u) =
     (if mark = Some p then Inr (None, u)
      else case mark of None \<Rightarrow> Inl Null_deref | Some m \<Rightarrow> Inr (None, ur_setPort u (atoi (drop m s))))"
| "uri_act s p Save_userinfo (mark, u) =
     (if mark = None then Inr (None, u) else bindE (marked s p mark) (\<lambda>v. Inr (None, ur_setUserinfo u v)))"
| "uri_act s p Save_host (mark, u) =
     (if mark = None then Inr (mark, u) else bindE (marked s p mark) (\<lambda>v. Inr (mark, ur_setHost u v)))"
| "uri_act s p Save_path (mark, u) = bindE (marked s p mark) (\<lambda>v. Inr (None, ur_setPath u v))"
| "uri_act s p Save_query (mark, u) = bindE (marked s p mark) (\<lambda>v. Inr (None, ur_setQuery u v))"
| "uri_act s p Save_fragment (mark, u) = bindE (marked s p mark) (\<lambda>v. Inr (None, ur_setFragment u v))"

fun uri_acts :: "string \<Rightarrow> nat \<Rightarrow> uri_action list \<Rightarrow> nat option \<times> uri \<Rightarrow> (nat option \<times> uri) res" where
  "uri_acts s p [] x = Inr x"
| "uri_acts s p (a # as) x = bindE (uri_act s p a x) (\<lambda>x'. uri_acts s p as x')"

text \<open>The machine, from the state \<open>cs\<close> at offset \<open>p\<close>; the last argument but two is the text from there on.\<close>

fun uri_exec :: "string \<Rightarrow> nat \<Rightarrow> string \<Rightarrow> int \<Rightarrow> nat option \<times> uri \<Rightarrow> (int \<times> uri) res" where
  "uri_exec s p [] cs x = bindE (uri_acts s p (uri_eof cs) x) (\<lambda>(_, u). Inr (cs, u))"
| "uri_exec s p (c # rest) cs x =
     (case find_range (uri_row cs) (char_int c) of
        (as, t) \<Rightarrow> if t = 0 then Inr (0, snd x) else bindE (uri_acts s p as x) (\<lambda>x'. uri_exec s (p + 1) rest t x'))"

definition uri_parser_start :: int where "uri_parser_start = 451"
definition uri_parser_first_final :: int where "uri_parser_first_final = 451"
definition uri_parser_error :: int where "uri_parser_error = 0"

definition Uri_Create :: "string \<Rightarrow> uri option res" where
  "Uri_Create uristr =
    bindE (uri_exec uristr 0 uristr uri_parser_start (None, Uri)) (\<lambda>(cs, u).
      Inr (if cs = uri_parser_error then None else if cs \<ge> uri_parser_first_final then Some u else None))"
section \<open>Where the parser may throw\<close>

text \<open>A URI with an authority whose port is empty: a colon before a slash, a question mark, a hash or the end.\<close>

definition delim :: "char \<Rightarrow> bool" where "delim c \<longleftrightarrow> c = CHR ''/'' \<or> c = CHR ''?'' \<or> c = CHR ''#''"

definition empty_port :: "string \<Rightarrow> bool" where
  "empty_port s \<longleftrightarrow> (\<exists>x a b. s = x @ ''://'' @ a @ '':'' @ b \<and> \<not> list_ex delim a \<and> (b = [] \<or> delim (hd b)))"

text \<open>
  What the states of the machine know. In an authority state the text read so far ends in an authority; a port state
  follows a colon in it; in a marked state \<open>mark\<close> is not null, and in a path state it is null only
  after an empty port.
\<close>

definition auth_state :: "int \<Rightarrow> bool" where
  "auth_state n \<longleftrightarrow> 229 \<le> n \<and> n \<le> 242 \<or> 245 \<le> n \<and> n \<le> 450 \<or> n = 511 \<or> n = 512 \<or> 514 \<le> n \<and> n \<le> 560"

definition port_state :: "int \<Rightarrow> bool" where "port_state n \<longleftrightarrow> n = 514 \<or> n = 521"
definition path_state :: "int \<Rightarrow> bool" where "path_state n \<longleftrightarrow> n = 513 \<or> n = 243 \<or> n = 244"

definition marked_state :: "int \<Rightarrow> bool" where
  "marked_state n \<longleftrightarrow> n = 1 \<or> n = 2 \<or> 7 \<le> n \<and> n \<le> 242 \<or> 245 \<le> n \<and> n \<le> 450 \<or> n = 454 \<or> n = 457 \<or> 460 \<le> n \<and> n \<le> 468 \<or>
    470 \<le> n \<and> n \<le> 508 \<or> n = 512 \<or> 514 \<le> n \<and> n \<le> 521 \<or> 523 \<le> n \<and> n \<le> 560"

text \<open>The actions on a \<open>mark\<close> of which only is known whether it is set; \<open>None\<close> if they fail.\<close>

fun mark_act :: "uri_action \<Rightarrow> bool \<Rightarrow> bool option" where
  "mark_act Marku b = Some True"
| "mark_act Markh b = Some True"
| "mark_act Save_host b = Some b"
| "mark_act Save_userinfo b = Some False"
| "mark_act a b = (if b then Some False else None)"

fun mark_acts :: "uri_action list \<Rightarrow> bool \<Rightarrow> bool option" where
  "mark_acts [] b = Some b"
| "mark_acts (a # as) b = (case mark_act a b of None \<Rightarrow> None | Some b' \<Rightarrow> mark_acts as b')"

lemma mark_act_sound:
  "mark_act a (mark \<noteq> None) = Some b \<Longrightarrow> \<exists>mark' u'. uri_act s p a (mark, u) = Inr (mark', u') \<and> (mark' \<noteq> None) = b"
  by (cases a; cases mark) (auto simp: marked_def split: if_splits)

lemma mark_acts_sound:
  "mark_acts as (mark \<noteq> None) = Some b \<Longrightarrow> \<exists>mark' u'. uri_acts s p as (mark, u) = Inr (mark', u') \<and> (mark' \<noteq> None) = b"
proof (induction as arbitrary: mark u)
  case (Cons a as)
  then obtain b' where b': "mark_act a (mark \<noteq> None) = Some b'" "mark_acts as b' = Some b" by (auto split: option.splits)
  obtain mark' u' where m: "uri_act s p a (mark, u) = Inr (mark', u')" "(mark' \<noteq> None) = b'" using mark_act_sound [OF b'(1)] by blast
  have "mark_acts as (mark' \<noteq> None) = Some b" using b'(2) m(2) by simp
  from Cons.IH [OF this] show ?case using m(1) by auto
qed simp

text \<open>A transition keeps what the states know, or fails after an empty port.\<close>

definition check_mark :: "int \<Rightarrow> int \<times> int \<times> uri_goto \<Rightarrow> bool \<Rightarrow> bool" where
  "check_mark n = (\<lambda>(lo, hi, as, t) b.
    case mark_acts as b of
      None \<Rightarrow> port_state n \<and> lo = hi \<and> (lo = 35 \<or> lo = 47 \<or> lo = 63) \<or> path_state n \<and> \<not> b
    | Some b' \<Rightarrow> (marked_state t \<longrightarrow> b') \<and> (path_state t \<and> \<not> b' \<longrightarrow> port_state n \<and> lo = 47 \<and> hi = 47 \<or> path_state n \<and> \<not> b))"

definition check_edge :: "int \<Rightarrow> int \<times> int \<times> uri_goto \<Rightarrow> bool" where
  "check_edge n = (\<lambda>(lo, hi, as, t).
    0 \<le> t \<and> t \<le> 560 \<and> check_mark n (lo, hi, as, t) True \<and> (marked_state n \<or> check_mark n (lo, hi, as, t) False) \<and>
    (t = 509 \<longrightarrow> lo = 58 \<and> hi = 58) \<and> (t = 510 \<longrightarrow> n = 509 \<and> lo = 47 \<and> hi = 47) \<and>
    (auth_state t \<longrightarrow> n = 510 \<and> lo = 47 \<and> hi = 47 \<and> t = 511 \<or>
      auth_state n \<and> (hi < 35 \<or> 35 < lo) \<and> (hi < 47 \<or> 47 < lo) \<and> (hi < 63 \<or> 63 < lo)) \<and>
    (port_state t \<longrightarrow> lo = 58 \<and> hi = 58))"

definition check_eof :: "int \<Rightarrow> bool \<Rightarrow> bool" where
  "check_eof n b \<longleftrightarrow> mark_acts (uri_eof n) b \<noteq> None \<or> port_state n \<or> path_state n \<and> \<not> b"

definition check_state :: "int \<Rightarrow> bool" where
  "check_state n \<longleftrightarrow> list_all (check_edge n) (uri_row n) \<and> check_eof n True \<and> (marked_state n \<or> check_eof n False)"

lemma check_states: "list_all check_state [0..560]"
  by code_simp
lemma find_range_in:
  "find_range row k = (as, t) \<Longrightarrow> t \<noteq> 0 \<Longrightarrow> \<exists>lo hi. (lo, hi, as, t) \<in> set row \<and> lo \<le> k \<and> k \<le> hi"
proof (induction row)
  case (Cons e row)
  then show ?case by (cases e) (force split: if_splits)
qed (simp add: goto_st_def)

lemma char_int_inj: "char_int c = char_int d \<longleftrightarrow> c = d"
proof -
  obtain i j :: nat where ij: "of_char c = i" "i < 256" "of_char d = j" "j < 256" using nat_of_char_less_256 by blast
  have "c = d \<longleftrightarrow> i = j" using ij of_char_eq_iff [of c d, where 'a = nat] by simp
  then show ?thesis using ij by (auto simp: char_int_def Let_def split: if_splits)
qed

lemma char_int_delims [simp]:
  "char_int CHR ''/'' = 47" "char_int CHR ''?'' = 63" "char_int CHR ''#'' = 35" "char_int CHR '':'' = 58"
  by (simp_all add: char_int_def)

lemma char_int_iff:
  "char_int c = 47 \<longleftrightarrow> c = CHR ''/''" "char_int c = 63 \<longleftrightarrow> c = CHR ''?''" "char_int c = 35 \<longleftrightarrow> c = CHR ''#''" "char_int c = 58 \<longleftrightarrow> c = CHR '':''"
  using char_int_inj [of c "CHR ''/''"] char_int_inj [of c "CHR ''?''"] char_int_inj [of c "CHR ''#''"] char_int_inj [of c "CHR '':''"] by simp_all

text \<open>What is known of the text \<open>pre\<close> read so far.\<close>

definition knows :: "int \<Rightarrow> bool \<Rightarrow> string \<Rightarrow> bool" where
  "knows n b pre \<longleftrightarrow> 0 \<le> n \<and> n \<le> 560 \<and> (marked_state n \<longrightarrow> b) \<and> (path_state n \<and> \<not> b \<longrightarrow> (\<forall>rest. empty_port (pre @ rest))) \<and>
    (n = 509 \<longrightarrow> (\<exists>x. pre = x @ '':'')) \<and> (n = 510 \<longrightarrow> (\<exists>x. pre = x @ '':/'')) \<and>
    (auth_state n \<longrightarrow> (\<exists>x a. pre = x @ ''://'' @ a \<and> \<not> list_ex delim a)) \<and>
    (port_state n \<longrightarrow> (\<exists>x a. pre = x @ ''://'' @ a @ '':'' \<and> \<not> list_ex delim a))"

lemma port_then_delim:
  assumes "knows n b pre" "port_state n" "delim c"
  shows "empty_port (pre @ c # rest)"
proof -
  obtain x a where "pre = x @ ''://'' @ a @ '':''" "\<not> list_ex delim a" using assms(1,2) by (auto simp: knows_def)
  then have "pre @ c # rest = x @ ''://'' @ a @ '':'' @ (c # rest)" by simp
  then show ?thesis using \<open>\<not> list_ex delim a\<close> assms(3) unfolding empty_port_def by fastforce
qed

lemma checked: "0 \<le> n \<Longrightarrow> n \<le> 560 \<Longrightarrow> check_state n"
  using check_states by (simp add: list_all_iff)

lemma knows_step:
  assumes "knows n (mark \<noteq> None) pre" "find_range (uri_row n) (char_int c) = (as, t)" "t \<noteq> 0" "\<not> empty_port (pre @ c # rest)"
  shows "\<exists>mark' u'. uri_acts s p as (mark, u) = Inr (mark', u') \<and> knows t (mark' \<noteq> None) (pre @ [c])"
proof -
  let ?b = "mark \<noteq> None"
  obtain lo hi where e: "(lo, hi, as, t) \<in> set (uri_row n)" "lo \<le> char_int c" "char_int c \<le> hi"
    using find_range_in [OF assms(2,3)] by blast
  have n: "0 \<le> n" "n \<le> 560" using assms(1) by (simp_all add: knows_def)
  then have chk: "check_edge n (lo, hi, as, t)" using checked e(1) by (auto simp: check_state_def list_all_iff)
  have "marked_state n \<longrightarrow> ?b" using assms(1) by (simp add: knows_def)
  then have cm: "check_mark n (lo, hi, as, t) ?b" using chk by (cases ?b) (auto simp: check_edge_def)
  have dead: "\<not> (path_state n \<and> \<not> ?b)" using assms(1,4) by (auto simp: knows_def)
  have port: "\<not> (port_state n \<and> lo = hi \<and> (lo = 35 \<or> lo = 47 \<or> lo = 63))"
    using port_then_delim [OF assms(1), of c rest] assms(4) e(2,3) char_int_iff [of c] by (auto simp: delim_def)
  obtain b' where b': "mark_acts as ?b = Some b'" "marked_state t \<longrightarrow> b'" "\<not> (path_state t \<and> \<not> b')"
    using cm dead port by (auto simp: check_mark_def split: option.splits)
  obtain mark' u' where m: "uri_acts s p as (mark, u) = Inr (mark', u')" "(mark' \<noteq> None) = b'"
    using mark_acts_sound [OF b'(1)] by blast
  have eq: "c = CHR '':''" if "lo = 58" "hi = 58" using that e(2,3) char_int_iff(4) by auto
  have slash: "c = CHR ''/''" if "lo = 47" "hi = 47" using that e(2,3) char_int_iff(1) by auto
  have "\<exists>x a. pre @ [c] = x @ ''://'' @ a \<and> \<not> list_ex delim a" if t: "auth_state t"
  proof (cases "auth_state n")
    case True
    have "n \<noteq> 510" using True by (auto simp: auth_state_def)
    then have "\<not> delim c" using chk t e(2,3) char_int_delims by (auto simp: check_edge_def delim_def)
    moreover obtain x a where "pre = x @ ''://'' @ a" "\<not> list_ex delim a" using assms(1) True by (auto simp: knows_def)
    ultimately show ?thesis by (intro exI [of _ x] exI [of _ "a @ [c]"]) simp
  next
    case False
    then have "n = 510" "c = CHR ''/''" using chk t slash by (auto simp: check_edge_def)
    then obtain x where "pre = x @ '':/''" using assms(1) by (auto simp: knows_def)
    then show ?thesis using \<open>c = CHR ''/''\<close> by (intro exI [of _ x] exI [of _ "[]"]) simp
  qed
  moreover have "\<exists>x a. pre @ [c] = x @ ''://'' @ a @ '':'' \<and> \<not> list_ex delim a" if t: "port_state t"
  proof -
    have "auth_state t" "t \<noteq> 511" using t by (auto simp: auth_state_def port_state_def)
    then have "auth_state n" "c = CHR '':''" using chk t eq by (auto simp: check_edge_def)
    then obtain x a where "pre = x @ ''://'' @ a" "\<not> list_ex delim a" using assms(1) by (auto simp: knows_def)
    then show ?thesis using \<open>c = CHR '':''\<close> by auto
  qed
  moreover have "\<exists>x. pre @ [c] = x @ '':''" if "t = 509" using chk that eq by (auto simp: check_edge_def)
  moreover have "\<exists>x. pre @ [c] = x @ '':/''" if "t = 510"
  proof -
    have "n = 509" "c = CHR ''/''" using chk that slash by (auto simp: check_edge_def)
    then show ?thesis using assms(1) by (auto simp: knows_def)
  qed
  moreover have "0 \<le> t" "t \<le> 560" using chk by (simp_all add: check_edge_def)
  ultimately show ?thesis using m b' unfolding knows_def by blast
qed
lemma uri_exec_safe:
  assumes "knows n (mark \<noteq> None) pre" "\<not> empty_port (pre @ rest)"
  shows "\<exists>r. uri_exec s p rest n (mark, u) = Inr r"
  using assms
proof (induction rest arbitrary: n mark pre p u)
  case Nil
  have n: "0 \<le> n" "n \<le> 560" "marked_state n \<longrightarrow> mark \<noteq> None" using Nil.prems(1) by (simp_all add: knows_def)
  have "\<not> port_state n"
  proof
    assume "port_state n"
    then obtain x a where "pre = x @ ''://'' @ a @ '':'' @ []" "\<not> list_ex delim a" using Nil.prems(1) by (auto simp: knows_def)
    then have "empty_port pre" unfolding empty_port_def by blast
    then show False using Nil.prems(2) by simp
  qed
  moreover have "\<not> (path_state n \<and> mark = None)" using Nil.prems by (auto simp: knows_def dest: spec [of _ "[]"])
  ultimately obtain b where "mark_acts (uri_eof n) (mark \<noteq> None) = Some b"
    using checked [OF n(1,2)] n(3) by (cases "mark = None") (auto simp: check_state_def check_eof_def)
  from mark_acts_sound [OF this] show ?case by force
next
  case (Cons c rest)
  obtain as t where g: "find_range (uri_row n) (char_int c) = (as, t)" by fastforce
  show ?case
  proof (cases "t = 0")
    case True
    then show ?thesis using g by simp
  next
    case False
    from knows_step [OF Cons.prems(1) g False Cons.prems(2)] obtain mark' u' where
      k: "uri_acts s p as (mark, u) = Inr (mark', u')" "knows t (mark' \<noteq> None) (pre @ [c])" by blast
    have "\<not> empty_port ((pre @ [c]) @ rest)" using Cons.prems(2) by simp
    from Cons.IH [OF k(2) this] show ?thesis using g False k(1) by simp
  qed
qed
section \<open>Printing and parsing\<close>

text \<open>Classes of characters, by their numbers.\<close>

definition alpha :: "int \<Rightarrow> bool" where "alpha k \<longleftrightarrow> 65 \<le> k \<and> k \<le> 90 \<or> 97 \<le> k \<and> k \<le> 122"
definition ur_digit :: "int \<Rightarrow> bool" where "ur_digit k \<longleftrightarrow> 48 \<le> k \<and> k \<le> 57"
definition scheme_char :: "int \<Rightarrow> bool" where "scheme_char k \<longleftrightarrow> alpha k \<or> ur_digit k \<or> k = 43 \<or> k = 45 \<or> k = 46"
definition host_char :: "int \<Rightarrow> bool" where "host_char k \<longleftrightarrow> alpha k \<or> ur_digit k \<or> k = 45 \<or> k = 46 \<or> k = 95 \<or> k = 126"
definition path_char :: "int \<Rightarrow> bool" where
  "path_char k \<longleftrightarrow> alpha k \<or> 38 \<le> k \<and> k \<le> 59 \<or> k < 0 \<or> k = 33 \<or> k = 36 \<or> k = 61 \<or> k = 64 \<or> k = 95 \<or> k = 126"
definition query_char :: "int \<Rightarrow> bool" where "query_char k \<longleftrightarrow> path_char k \<or> k = 63"

definition moves :: "(int \<Rightarrow> bool) \<Rightarrow> int \<Rightarrow> uri_goto \<Rightarrow> bool" where
  "moves P n g \<longleftrightarrow> list_all (\<lambda>k. P k \<longrightarrow> find_range (uri_row n) k = g) [-128..127]"

lemma moves_checked:
  "moves alpha 451 ([Marku], 508) \<and> moves scheme_char 508 ([], 508) \<and> moves ((=) 58) 508 ([Save_scheme], 509) \<and>
   moves ((=) 47) 509 ([], 510) \<and> moves ((=) 47) 510 ([], 511) \<and> moves alpha 511 ([Markh], 520) \<and>
   moves host_char 520 ([], 520) \<and> moves ((=) 47) 520 ([Save_host, Markh], 513) \<and> moves ((=) 58) 520 ([Save_host], 521) \<and>
   moves ur_digit 521 ([Markh], 542) \<and> moves ur_digit 542 ([], 542) \<and> moves ((=) 47) 542 ([Save_port, Markh], 513) \<and>
   moves path_char 513 ([], 513) \<and> moves ((=) 63) 513 ([Save_path], 456) \<and> moves ((=) 35) 513 ([Save_path], 453) \<and>
   moves query_char 456 ([Marku], 457) \<and> moves query_char 457 ([], 457) \<and> moves ((=) 35) 457 ([Save_query], 453) \<and>
   moves query_char 453 ([Marku], 454) \<and> moves query_char 454 ([], 454)"
  by code_simp
lemma char_int_bounds: "- 128 \<le> char_int c" "char_int c \<le> 127"
proof -
  obtain k :: nat where "of_char c = k" "k < 256" using nat_of_char_less_256 by blast
  then show "- 128 \<le> char_int c" "char_int c \<le> 127" by (simp_all add: char_int_def Let_def)
qed

lemma exec_step:
  assumes "moves P n (as, t)" "P (char_int c)" "t \<noteq> 0"
  shows "uri_exec s p (c # rest) n x = bindE (uri_acts s p as x) (\<lambda>x'. uri_exec s (p + 1) rest t x')"
proof -
  have "char_int c \<in> set [-128..127]" using char_int_bounds [of c] by (subst set_upto) auto
  then have "find_range (uri_row n) (char_int c) = (as, t)" using assms(1,2) unfolding moves_def list_all_iff by blast
  then show ?thesis using assms(3) by simp
qed

lemma uri_moves:
  "moves alpha 451 ([Marku], 508)"
  "moves scheme_char 508 ([], 508)"
  "moves ((=) 58) 508 ([Save_scheme], 509)"
  "moves ((=) 47) 509 ([], 510)"
  "moves ((=) 47) 510 ([], 511)"
  "moves alpha 511 ([Markh], 520)"
  "moves host_char 520 ([], 520)"
  "moves ((=) 47) 520 ([Save_host, Markh], 513)"
  "moves ((=) 58) 520 ([Save_host], 521)"
  "moves ur_digit 521 ([Markh], 542)"
  "moves ur_digit 542 ([], 542)"
  "moves ((=) 47) 542 ([Save_port, Markh], 513)"
  "moves path_char 513 ([], 513)"
  "moves ((=) 63) 513 ([Save_path], 456)"
  "moves ((=) 35) 513 ([Save_path], 453)"
  "moves query_char 456 ([Marku], 457)"
  "moves query_char 457 ([], 457)"
  "moves ((=) 35) 457 ([Save_query], 453)"
  "moves query_char 453 ([Marku], 454)"
  "moves query_char 454 ([], 454)"
  using moves_checked by simp_all

lemma exec_skip:
  assumes "moves P n ([], n)" "n \<noteq> 0" "list_all (\<lambda>c. P (char_int c)) w"
  shows "uri_exec s p (w @ rest) n x = uri_exec s (p + length w) rest n x"
  using assms(3)
proof (induction w arbitrary: p)
  case (Cons c w)
  then show ?case using exec_step [OF assms(1) _ assms(2), of c s p "w @ rest" x] by simp
qed simp

lemma marked_run: "drop m s = w @ rest \<Longrightarrow> marked s (m + length w) (Some m) = Inr w"
  by (simp add: marked_def)

lemma drop_next: "drop p s = w @ rest \<Longrightarrow> drop (p + length w) s = rest"
  by (metis add.commute append_eq_conv_conj drop_drop)

text \<open>A URI whose text the parser reads back: no user information, and a host that starts with a letter.\<close>

definition uri_ok :: "uri \<Rightarrow> bool" where
  "uri_ok u \<longleftrightarrow>
    (case ur_scheme u of [] \<Rightarrow> False | c # w \<Rightarrow> alpha (char_int c) \<and> list_all (\<lambda>c. scheme_char (char_int c)) w) \<and>
    ur_userinfo u = [] \<and>
    (case ur_host u of [] \<Rightarrow> False | c # w \<Rightarrow> alpha (char_int c) \<and> list_all (\<lambda>c. host_char (char_int c)) w) \<and>
    (case ur_path u of [] \<Rightarrow> True | c # w \<Rightarrow> c = CHR ''/'' \<and> list_all (\<lambda>c. path_char (char_int c)) w) \<and>
    list_all (\<lambda>c. query_char (char_int c)) (ur_query u) \<and> list_all (\<lambda>c. query_char (char_int c)) (ur_fragment u) \<and>
    0 \<le> ur_port u \<and> ur_port u < 2 ^ 31"

definition after_hash :: "string \<Rightarrow> string" where "after_hash f = (if f = [] then '''' else ''#'') @ f"
definition after_path :: "string \<Rightarrow> string \<Rightarrow> string" where "after_path q f = (if q = [] then '''' else ''?'') @ q @ after_hash f"

lemma exec_fragment:
  assumes "f \<noteq> []" "list_all (\<lambda>c. query_char (char_int c)) f" "drop p s = f"
  shows "uri_exec s p f 453 (mark, u) = Inr (454, ur_setFragment u f)"
proof -
  obtain c w where f: "f = c # w" using assms(1) by (cases f) auto
  have "uri_exec s (p + 1) (w @ []) 454 (Some p, u) = uri_exec s (p + 1 + length w) [] 454 (Some p, u)"
    using exec_skip [OF uri_moves(20), of w s "p + 1" "[]"] assms(2) f by simp
  moreover have "marked s (p + length f) (Some p) = Inr f" using assms(3) by (intro marked_run [of p s f "[]"]) simp
  moreover have "uri_eof 454 = [Save_fragment]" by (simp add: uri_eof_def)
  ultimately show ?thesis
    using exec_step [OF uri_moves(19), of c s p w "(mark, u)"] assms(2) f by simp
qed

lemma no_fragment: "ur_fragment u = [] \<Longrightarrow> ur_setFragment (ur_setQuery u q) [] = ur_setQuery u q"
  by (cases u) (simp add: ur_setFragment_def ur_setQuery_def)

lemma exec_query:
  assumes "q \<noteq> []" "list_all (\<lambda>c. query_char (char_int c)) q" "list_all (\<lambda>c. query_char (char_int c)) f" "drop p s = q @ after_hash f"
    "ur_fragment u = []"
  shows "\<exists>t. uri_exec s p (q @ after_hash f) 456 (mark, u) = Inr (t, ur_setFragment (ur_setQuery u q) f) \<and> 451 \<le> t"
proof -
  obtain c w where q: "q = c # w" using assms(1) by (cases q) auto
  have "uri_exec s p (q @ after_hash f) 456 (mark, u) = uri_exec s (p + 1) (w @ after_hash f) 457 (Some p, u)"
    using exec_step [OF uri_moves(16), of c s p "w @ after_hash f" "(mark, u)"] assms(2) q by simp
  also have "\<dots> = uri_exec s (p + length q) (after_hash f) 457 (Some p, u)"
    using exec_skip [OF uri_moves(17), of w s "p + 1" "after_hash f" "(Some p, u)"] assms(2) q by simp
  finally have e: "uri_exec s p (q @ after_hash f) 456 (mark, u) = uri_exec s (p + length q) (after_hash f) 457 (Some p, u)" .
  note m = marked_run [OF assms(4)]
  show ?thesis
  proof (cases "f = []")
    case True
    have eof: "uri_eof 457 = [Save_query]" by (simp add: uri_eof_def)
    have "uri_exec s (p + length q) [] 457 (Some p, u) = Inr (457, ur_setQuery u q)" using m by (simp add: eof)
    moreover have "ur_setFragment (ur_setQuery u q) f = ur_setQuery u q" using no_fragment assms(5) True by simp
    ultimately show ?thesis using e True by (simp add: after_hash_def del: uri_exec.simps)
  next
    case False
    then have "uri_exec s (p + length q) (after_hash f) 457 (Some p, u) = uri_exec s (p + length q + 1) f 453 (None, ur_setQuery u q)"
      using exec_step [OF uri_moves(18), of "CHR ''#''" s "p + length q" f "(Some p, u)"] m by (simp add: after_hash_def del: uri_exec.simps)
    moreover have "drop (p + length q + 1) s = f"
      using drop_next [OF assms(4)] drop_next [of "p + length q" s "''#''" f] False by (simp add: after_hash_def)
    ultimately show ?thesis using e exec_fragment [OF False assms(3)] by (simp del: uri_exec.simps)
  qed
qed
lemma exec_path:
  assumes "drop m s = w @ after_path q f" "list_all (\<lambda>c. query_char (char_int c)) q" "list_all (\<lambda>c. query_char (char_int c)) f"
    "ur_query u = []" "ur_fragment u = []"
  shows "\<exists>t. uri_exec s (m + length w) (after_path q f) 513 (Some m, u) = Inr (t, ur_setFragment (ur_setQuery (ur_setPath u w) q) f) \<and> 451 \<le> t"
proof -
  note mk = marked_run [OF assms(1)]
  note nxt = drop_next [OF assms(1)]
  let ?p = "m + length w"
  have eof: "uri_eof 513 = [Save_path]" by (simp add: uri_eof_def)
  have same: "ur_setQuery (ur_setPath u w) [] = ur_setPath u w" "ur_setFragment (ur_setPath u w) [] = ur_setPath u w"
    using assms(4,5) by (cases u; simp add: ur_setQuery_def ur_setPath_def ur_setFragment_def)+
  consider "q = []" "f = []" | "q = []" "f \<noteq> []" | "q \<noteq> []" by blast
  then show ?thesis
  proof cases
    case 1
    then show ?thesis using mk eof same by (simp add: after_path_def after_hash_def)
  next
    case 2
    have d: "drop (?p + 1) s = f" using nxt drop_next [of ?p s "''#''" f] 2 by (simp add: after_path_def after_hash_def)
    have "uri_exec s ?p (''#'' @ f) 513 (Some m, u) = uri_exec s (?p + 1) f 453 (None, ur_setPath u w)"
      using exec_step [OF uri_moves(15), of "CHR ''#''" s ?p f "(Some m, u)"] mk by (simp del: uri_exec.simps)
    then show ?thesis
      using exec_fragment [OF 2(2) assms(3) d, of None] 2 same by (simp add: after_path_def after_hash_def del: uri_exec.simps)
  next
    case 3
    have d: "drop (?p + 1) s = q @ after_hash f" using nxt drop_next [of ?p s "''?''" "q @ after_hash f"] 3 by (simp add: after_path_def)
    have "uri_exec s ?p (''?'' @ q @ after_hash f) 513 (Some m, u) = uri_exec s (?p + 1) (q @ after_hash f) 456 (None, ur_setPath u w)"
      using exec_step [OF uri_moves(14), of "CHR ''?''" s ?p "q @ after_hash f" "(Some m, u)"] mk by (simp del: uri_exec.simps)
    moreover have "ur_fragment (ur_setPath u w) = []" using assms(5) by (simp add: ur_setPath_def)
    ultimately show ?thesis
      using exec_query [OF 3 assms(2,3) d, of "ur_setPath u w" None] 3 by (simp add: after_path_def del: uri_exec.simps)
  qed
qed

definition port_text :: "uri \<Rightarrow> string" where "port_text u = (if isDefaultPort u then '''' else '':'' @ dec_int (ur_port u))"

lemma exec_port:
  assumes "drop p s = dec n @ CHR ''/'' # rest" "int n < 2 ^ 31"
  shows "uri_exec s p (dec n @ CHR ''/'' # rest) 521 (mark, u) =
    uri_exec s (p + length (dec n) + 1) rest 513 (Some (p + length (dec n)), ur_setPort u (int n))"
proof -
  obtain c w where c: "dec n = c # w" using show_nat_nonempty [of 10 n] by (meson neq_Nil_conv)
  have d: "ur_digit (char_int x)" if "x \<in> set (dec n)" for x
    using digit_10(6) [OF show_nat_digits [OF _ that]] by (auto simp: ur_digit_def char_int_def Let_def)
  have w: "list_all (\<lambda>c. ur_digit (char_int c)) w" "ur_digit (char_int c)" using d c by (auto simp: list_all_iff)
  let ?q = "p + length (dec n)"
  have "uri_exec s p (dec n @ CHR ''/'' # rest) 521 (mark, u) = uri_exec s (p + 1) (w @ CHR ''/'' # rest) 542 (Some p, u)"
    using exec_step [OF uri_moves(10) w(2), of s p "w @ CHR ''/'' # rest" "(mark, u)"] c by (simp del: uri_exec.simps)
  also have "\<dots> = uri_exec s ?q (CHR ''/'' # rest) 542 (Some p, u)"
    using exec_skip [OF uri_moves(11) _ w(1), of s "p + 1" "CHR ''/'' # rest" "(Some p, u)"] c by (simp del: uri_exec.simps)
  also have "\<dots> = bindE (uri_acts s ?q [Save_port, Markh] (Some p, u)) (\<lambda>x. uri_exec s (?q + 1) rest 513 x)"
    by (rule exec_step [OF uri_moves(12)]) simp_all
  also have "uri_acts s ?q [Save_port, Markh] (Some p, u) = Inr (Some ?q, ur_setPort u (int n))"
    using atoi_dec [OF assms(2), of "CHR ''/'' # rest"] assms(1) c by (simp add: is_base_def xdigit_val_def tolower_def)
  finally show ?thesis by simp
qed

lemma exec_authority:
  assumes "uri_ok u" "drop p s = ur_host u @ port_text u @ CHR ''/'' # rest" "ur_port u0 = 0"
  shows "\<exists>m. drop m s = CHR ''/'' # rest \<and>
    uri_exec s p (ur_host u @ port_text u @ CHR ''/'' # rest) 511 (mark, u0) =
      uri_exec s (m + 1) rest 513 (Some m, ur_setPort (ur_setHost u0 (ur_host u)) (if isDefaultPort u then 0 else ur_port u))"
proof -
  let ?h = "ur_host u" and ?t = "port_text u @ CHR ''/'' # rest"
  obtain c w where h: "?h = c # w" "alpha (char_int c)" "list_all (\<lambda>c. host_char (char_int c)) w"
    using assms(1) by (auto simp: uri_ok_def split: list.splits)
  let ?q = "p + length ?h"
  have "uri_exec s p (?h @ ?t) 511 (mark, u0) = uri_exec s (p + 1) (w @ ?t) 520 (Some p, u0)"
    using exec_step [OF uri_moves(6) h(2), of s p "w @ ?t" "(mark, u0)"] h(1) by (simp del: uri_exec.simps)
  also have "\<dots> = uri_exec s ?q ?t 520 (Some p, u0)"
    using exec_skip [OF uri_moves(7) _ h(3), of s "p + 1" ?t "(Some p, u0)"] h(1) by (simp del: uri_exec.simps)
  finally have e: "uri_exec s p (?h @ ?t) 511 (mark, u0) = uri_exec s ?q ?t 520 (Some p, u0)" .
  note mk = marked_run [OF assms(2)]
  note nxt = drop_next [OF assms(2)]
  show ?thesis
  proof (cases "isDefaultPort u")
    case True
    have "uri_exec s ?q (CHR ''/'' # rest) 520 (Some p, u0) = uri_exec s (?q + 1) rest 513 (Some ?q, ur_setHost u0 ?h)"
      using exec_step [OF uri_moves(8), of "CHR ''/''" s ?q rest "(Some p, u0)"] mk by (simp del: uri_exec.simps)
    moreover have "ur_setPort (ur_setHost u0 ?h) 0 = ur_setHost u0 ?h"
      using assms(3) by (cases u0) (simp add: ur_setPort_def ur_setHost_def)
    ultimately show ?thesis using e nxt True by (intro exI [of _ ?q]) (simp add: port_text_def del: uri_exec.simps)
  next
    case False
    let ?n = "nat (ur_port u)" and ?m = "?q + 1 + length (dec (nat (ur_port u)))"
    have n: "int ?n = ur_port u" "int ?n < 2 ^ 31" using assms(1) by (auto simp: uri_ok_def)
    have t: "?t = CHR '':'' # dec ?n @ CHR ''/'' # rest" using False n by (auto simp: port_text_def dec_int_def)
    have d: "drop (?q + 1) s = dec ?n @ CHR ''/'' # rest" using nxt t drop_next [of ?q s "'':''" "dec ?n @ CHR ''/'' # rest"] by simp
    have "uri_exec s ?q ?t 520 (Some p, u0) = uri_exec s (?q + 1) (dec ?n @ CHR ''/'' # rest) 521 (Some p, ur_setHost u0 ?h)"
      using exec_step [OF uri_moves(9), of "CHR '':''" s ?q "dec ?n @ CHR ''/'' # rest" "(Some p, u0)"] mk t by (simp del: uri_exec.simps)
    moreover note exec_port [OF d n(2), of "Some p" "ur_setHost u0 ?h"]
    ultimately show ?thesis using e n(1) drop_next [OF d] False by (intro exI [of _ ?m]) (simp del: uri_exec.simps)
  qed
qed
text \<open>What the parser gives for the text of a URI: the path and port the text shows.\<close>

definition read_back :: "uri \<Rightarrow> uri" where
  "read_back u = u\<lparr>ur_path := ur_getPath u, ur_port := (if isDefaultPort u then 0 else ur_port u)\<rparr>"

lemma toString_parts:
  "ur_userinfo u = [] \<Longrightarrow>
    ur_toString u = ur_scheme u @ ''://'' @ ur_host u @ port_text u @ ur_getPath u @ after_path (ur_query u) (ur_fragment u)"
  by (simp add: ur_toString_def port_text_def after_path_def after_hash_def)

lemma after_scheme: "s = (c # w) @ ''://'' @ rest \<Longrightarrow> drop (length w + 4) s = rest"
  using drop_next [of 0 s "(c # w) @ ''://''" rest] by (simp add: eval_nat_numeral)

lemma exec_scheme:
  assumes "alpha (char_int c)" "list_all (\<lambda>c. scheme_char (char_int c)) w" "s = (c # w) @ ''://'' @ rest"
  shows "uri_exec s 0 s 451 (None, u) = uri_exec s (length w + 4) rest 511 (None, ur_setScheme u (c # w))"
proof -
  let ?t = "''://'' @ rest" and ?u = "ur_setScheme u (c # w)"
  have "uri_exec s 0 s 451 (None, u) = uri_exec s 1 (w @ ?t) 508 (Some 0, u)"
    using exec_step [OF uri_moves(1) assms(1), of s 0 "w @ ?t" "(None, u)"] assms(3) by (simp del: uri_exec.simps)
  also have "\<dots> = uri_exec s (length w + 1) ?t 508 (Some 0, u)"
    using exec_skip [OF uri_moves(2) _ assms(2), of s 1 ?t "(Some 0, u)"] by (simp add: add.commute del: uri_exec.simps)
  also have "\<dots> = uri_exec s (length w + 2) (''//'' @ rest) 509 (None, ?u)"
    using exec_step [OF uri_moves(3), of "CHR '':''" s "length w + 1" "''//'' @ rest" "(Some 0, u)"]
      marked_run [of 0 s "c # w" "''://'' @ rest"] assms(3) by (simp del: uri_exec.simps)
  also have "\<dots> = uri_exec s (length w + 3) (''/'' @ rest) 510 (None, ?u)"
    using exec_step [OF uri_moves(4), of "CHR ''/''" s "length w + 2" "''/'' @ rest" "(None, ?u)"]
    by (simp add: numeral_3_eq_3 del: uri_exec.simps)
  also have "\<dots> = uri_exec s (length w + 4) rest 511 (None, ?u)"
    using exec_step [OF uri_moves(5), of "CHR ''/''" s "length w + 3" rest "(None, ?u)"]
    by (simp add: eval_nat_numeral del: uri_exec.simps)
  finally show ?thesis .
qed

lemma uri_parts:
  "ur_setFragment (ur_setQuery (ur_setPath (ur_setPort (ur_setHost (ur_setScheme Uri a) b) i) w) q) f =
    \<lparr>ur_scheme = a, ur_userinfo = [], ur_host = b, ur_path = w, ur_query = q, ur_fragment = f, ur_port = i\<rparr>"
  by (simp add: ur_setFragment_def ur_setQuery_def ur_setPath_def ur_setPort_def ur_setHost_def ur_setScheme_def Uri_def)

lemma exec_toString:
  assumes "uri_ok u"
  shows "\<exists>t. uri_exec (ur_toString u) 0 (ur_toString u) 451 (None, Uri) = Inr (t, read_back u) \<and> 451 \<le> t"
proof -
  let ?s = "ur_toString u" and ?q = "after_path (ur_query u) (ur_fragment u)" and ?i = "if isDefaultPort u then 0 else ur_port u"
  obtain c w where sch: "ur_scheme u = c # w" "alpha (char_int c)" "list_all (\<lambda>c. scheme_char (char_int c)) w"
    using assms by (auto simp: uri_ok_def split: list.splits)
  obtain y where pth: "ur_getPath u = CHR ''/'' # y" "list_all (\<lambda>c. path_char (char_int c)) y"
    using assms by (cases "ur_path u") (auto simp: uri_ok_def ur_getPath_def)
  have usr: "ur_userinfo u = []" and qf: "list_all (\<lambda>c. query_char (char_int c)) (ur_query u)" "list_all (\<lambda>c. query_char (char_int c)) (ur_fragment u)"
    using assms by (simp_all add: uri_ok_def)
  let ?rest = "ur_host u @ port_text u @ CHR ''/'' # y @ ?q" and ?u0 = "ur_setScheme Uri (ur_scheme u)"
  have s: "?s = (c # w) @ ''://'' @ ?rest" using toString_parts [OF usr] sch(1) pth(1) by simp
  have d: "drop (length w + 4) ?s = ?rest" using after_scheme [OF s] .
  obtain m where m: "drop m ?s = CHR ''/'' # y @ ?q"
    "uri_exec ?s (length w + 4) ?rest 511 (None, ?u0) = uri_exec ?s (m + 1) (y @ ?q) 513 (Some m, ur_setPort (ur_setHost ?u0 (ur_host u)) ?i)"
    using exec_authority [OF assms d, of ?u0 None] by (auto simp: ur_setScheme_def Uri_def simp del: uri_exec.simps)
  let ?u1 = "ur_setPort (ur_setHost ?u0 (ur_host u)) ?i"
  have "uri_exec ?s (m + 1) (y @ ?q) 513 (Some m, ?u1) = uri_exec ?s (m + length (ur_getPath u)) ?q 513 (Some m, ?u1)"
    using exec_skip [OF uri_moves(13) _ pth(2), of ?s "m + 1" ?q "(Some m, ?u1)"] pth(1) by (simp del: uri_exec.simps)
  moreover have "drop m ?s = ur_getPath u @ ?q" using m(1) pth(1) by simp
  moreover have "ur_query ?u1 = []" "ur_fragment ?u1 = []"
    by (simp_all add: ur_setPort_def ur_setHost_def ur_setScheme_def Uri_def)
  ultimately obtain t where t: "uri_exec ?s (m + 1) (y @ ?q) 513 (Some m, ?u1) =
      Inr (t, ur_setFragment (ur_setQuery (ur_setPath ?u1 (ur_getPath u)) (ur_query u)) (ur_fragment u))" "451 \<le> t"
    using exec_path [OF _ qf, of m ?s "ur_getPath u" ?u1] by (auto simp del: uri_exec.simps)
  have "read_back u = ur_setFragment (ur_setQuery (ur_setPath ?u1 (ur_getPath u)) (ur_query u)) (ur_fragment u)"
    using usr by (cases u) (simp add: read_back_def uri_parts)
  then show ?thesis using exec_scheme [OF sch(2,3) s, of Uri] m(2) t sch(1) by (simp del: uri_exec.simps)
qed


definition example_uri :: uri where
  "example_uri = \<lparr>ur_scheme = ''http'', ur_userinfo = [], ur_host = ''www.sylar.top'', ur_path = ''/a/b'', ur_query = ''id=1'', ur_fragment = [], ur_port = 8020\<rparr>"


text \<open>
  C18: \<^verbatim>\<open>Uri::Create\<close> returns on every text without an empty port: no action of the state machine builds a string from a null
  \<open>mark\<close>, whatever the text, and the result is a URI or null. The machine has 560 states; that a state which reads \<open>mark\<close> is only reached with one set is checked for
  every transition of each.
\<close>

theorem uri_create_total:
  assumes "\<not> empty_port s"
  shows "\<exists>r. Uri_Create s = Inr r"
proof -
  have "knows 451 False []" by (simp add: knows_def marked_state_def path_state_def auth_state_def port_state_def)
  then obtain t u where "uri_exec s 0 s 451 (None, Uri) = Inr (t, u)" using uri_exec_safe [of 451 None "[]" s s 0 Uri] assms by auto
  then show ?thesis by (simp add: Uri_Create_def uri_parser_start_def del: uri_exec.simps)
qed

theorem uri_create_total_witness: "\<not> empty_port ''sip:ping'' \<and> (\<exists>r. Uri_Create ''sip:ping'' = Inr r)"
proof -
  have "\<not> empty_port ''sip:ping''" by (auto simp: empty_port_def Cons_eq_append_conv append_eq_Cons_conv)
  then show ?thesis using uri_create_total by blast
qed

text \<open>The machine fails on an authority that ends in a colon.\<close>

theorem empty_port_throws:
  assumes "uri_ok u"
  shows "Uri_Create (ur_scheme u @ ''://'' @ ur_host u @ '':'') = Inl (Logic_error ''basic_string: construction from null is not valid'')"
proof -
  let ?s = "ur_scheme u @ ''://'' @ ur_host u @ '':''"
  obtain c w where sch: "ur_scheme u = c # w" "alpha (char_int c)" "list_all (\<lambda>c. scheme_char (char_int c)) w"
    using assms by (auto simp: uri_ok_def split: list.splits)
  obtain d v where hst: "ur_host u = d # v" "alpha (char_int d)" "list_all (\<lambda>c. host_char (char_int c)) v"
    using assms by (auto simp: uri_ok_def split: list.splits)
  let ?p = "length w + 4" and ?u = "ur_setScheme Uri (ur_scheme u)"
  have at: "drop ?p ?s = (d # v) @ '':''" using sch(1) hst(1) by (intro after_scheme) simp
  define q where "q = ?p + length (d # v)"
  have mk: "marked ?s q (Some ?p) = Inr (d # v)" unfolding q_def by (rule marked_run [OF at])
  have "uri_exec ?s 0 ?s 451 (None, Uri) = uri_exec ?s ?p (d # v @ '':'') 511 (None, ?u)"
    using exec_scheme [OF sch(2,3), of ?s "ur_host u @ '':''"] sch(1) hst(1) by (simp del: uri_exec.simps)
  also have "\<dots> = uri_exec ?s (?p + 1) (v @ '':'') 520 (Some ?p, ?u)"
    using exec_step [OF uri_moves(6) hst(2), of ?s ?p "v @ '':''" "(None, ?u)"] by (simp del: uri_exec.simps)
  also have "\<dots> = uri_exec ?s q '':'' 520 (Some ?p, ?u)"
    using exec_skip [OF uri_moves(7) _ hst(3), of ?s "?p + 1" "'':''" "(Some ?p, ?u)"] by (simp add: q_def ac_simps del: uri_exec.simps)
  also have "\<dots> = uri_exec ?s (q + 1) [] 521 (Some ?p, ur_setHost ?u (d # v))"
    using exec_step [OF uri_moves(9), of "CHR '':''" ?s q "[]" "(Some ?p, ?u)"] mk by (simp del: uri_exec.simps)
  also have "\<dots> = Inl (Logic_error ''basic_string: construction from null is not valid'')"
    by (simp add: marked_def uri_eof_def)
  finally show ?thesis by (simp add: Uri_Create_def uri_parser_start_def del: uri_exec.simps)
qed
text \<open>
  Two texts the grammar of RFC 3986 allows. The start of a port resets \<open>mark\<close>, so that a numeric password loses the user name; and
  the digit 2 that starts an octet from 200 to 249 is taken for the character with number 2.
\<close>

theorem uri_misread:
  "Uri_Create ''http://u:1@h/'' =
     Inr (Some \<lparr>ur_scheme = ''http'', ur_userinfo = ''1'', ur_host = ''h'', ur_path = ''/'', ur_query = [], ur_fragment = [], ur_port = 0\<rparr>) \<and>
   Uri_Create ''http://[::1.1.1.210]/'' = Inr None \<and> Uri_Create ''http://[::1.1.1.110]/'' \<noteq> Inr None"
  by code_simp

end
