(* ===== verification/Sylar_HttpConnection.thy ===== *)
theory Sylar_HttpConnection
  imports Sylar_HttpSession Sylar_Uri
begin

text \<open>
  The client side of an HTTP connection and the pool of connections (\<^verbatim>\<open>sylar/http/http_connection.cpp\<close>). A connection is the socket
  stream of \<^verbatim>\<open>Sylar_Stream\<close>. The arguments shared by the operations are gathered in two records: what receiving a
  response depends on, and what the world answers to a new connection. A pointer to a connection that goes out of scope
  closes it; a pooled one goes back to its pool.
\<close>

section \<open>Results\<close>

datatype HttpResult_Error =
  HR_OK | INVALID_URL | INVALID_HOST | CONNECT_FAIL | SEND_CLOSE_BY_PEER | SEND_SOCKET_ERROR | TIMEOUT |
  CREATE_SOCKET_ERROR | POOL_GET_CONNECTION | POOL_INVALID_CONNECTION

fun error_num :: "HttpResult_Error \<Rightarrow> int" where
  "error_num HR_OK = 0"
| "error_num INVALID_URL = 1"
| "error_num INVALID_HOST = 2"
| "error_num CONNECT_FAIL = 3"
| "error_num SEND_CLOSE_BY_PEER = 4"
| "error_num SEND_SOCKET_ERROR = 5"
| "error_num TIMEOUT = 6"
| "error_num CREATE_SOCKET_ERROR = 7"
| "error_num POOL_GET_CONNECTION = 8"
| "error_num POOL_INVALID_CONNECTION = 9"

record http_result =
  hr_result :: int
  hr_response :: "HttpResponse option"
  hr_error :: string

definition HttpResult :: "HttpResult_Error \<Rightarrow> HttpResponse option \<Rightarrow> string \<Rightarrow> http_result" where
  "HttpResult e response error = \<lparr>hr_result = error_num e, hr_response = response, hr_error = error\<rparr>"

definition hr_toString :: "http_result \<Rightarrow> string" where
  "hr_toString r =
    ''[HttpResult result='' @ dec_int (hr_result r) @ '' error='' @ hr_error r @ '' response='' @
    (case hr_response r of Some rsp \<Rightarrow> rs_dump rsp | None \<Rightarrow> ''nullptr'') @ '']''"

section \<open>Receiving a response\<close>

record client_env =
  ce_tables :: "client_action ragel"
  ce_junk :: httpclient_parser
  ce_sizes :: http_sizes
  ce_cast :: "string \<Rightarrow> u64 option"
  ce_close :: "int \<times> int"

definition response_parsing :: "client_action ragel \<Rightarrow> bool \<Rightarrow> HttpResponseParser parsing" where
  "response_parsing m chunck =
    \<lparr>ps_exec = (\<lambda>p data. cl_execute m p data chunck), ps_error = cl_hasError m, ps_finished = cl_isFinished m\<rparr>"

definition ce_buff :: "client_env \<Rightarrow> u64" where "ce_buff en = GetHttpRequestBufferSize (ce_sizes en)"

text \<open>The head of a chunk: what is pending is parsed before more is read.\<close>

definition chunk_head ::
  "client_env \<Rightarrow> link \<Rightarrow> HttpResponseParser \<Rightarrow> string \<Rightarrow> ((string \<times> HttpResponseParser) option \<times> link) run"
where
  "chunk_head en l parser data =
    parse_loop (response_parsing (ce_tables en) True) (ce_buff en) (ce_close en) (data \<noteq> []) l parser data"

text \<open>The rest of a chunk that is not in the buffer.\<close>

partial_function (option) chunk_rest :: "client_env \<Rightarrow> link \<Rightarrow> int \<Rightarrow> string \<Rightarrow> (string option \<times> link) run" where
  "chunk_rest en l left body =
    (if left > 0 then
       Option.bind (ss_read l (unat (word_of_int (min left (to_int (uint (ce_buff en)))) :: u64))) (\<lambda>r.
         case r of
           Inl e \<Rightarrow> Some (Inl e)
         | Inr (rt, d, l1) \<Rightarrow>
             if rt \<le> 0 then give_up (ce_close en) l1 else chunk_rest en l1 (left - rt) (body @ chars d))
     else Some (Inr (Some body, l)))"

text \<open>
  The content of a chunk and the line end after it; the sum of the size and 2 must not overflow, and an impossible size makes the string
  operations throw.
\<close>

definition chunk_data ::
  "client_env \<Rightarrow> link \<Rightarrow> int \<Rightarrow> string \<Rightarrow> string \<Rightarrow> ((string \<times> string) option \<times> link) run"
where
  "chunk_data en l content_len data body =
    (if content_len + 2 \<ge> 2 ^ 31 then Some (Inl (Undefined ''signed overflow''))
     else if content_len + 2 \<le> int (length data) then
       if content_len < 0 then Some (Inl (Logic_error ''basic_string::append''))
       else Some (Inr (Some (body @ take (nat content_len) data, drop (nat content_len + 2) data), l))
     else
       bindR (chunk_rest en l (content_len - int (length data) + 2) (body @ data)) (\<lambda>(r, l1).
         case r of
           None \<Rightarrow> Some (Inr (None, l1))
         | Some b \<Rightarrow>
             if length b < 2 then Some (Inl (Logic_error ''basic_string::resize''))
             else Some (Inr (Some (take (length b - 2) b, []), l1))))"

definition chunk_round ::
  "client_env \<Rightarrow> link \<Rightarrow> HttpResponseParser \<Rightarrow> string \<Rightarrow> string \<Rightarrow> ((string \<times> string \<times> HttpResponseParser) option \<times> link) run"
where
  "chunk_round en l parser data body =
    bindR (chunk_head en l parser data) (\<lambda>(r, l1).
      case r of
        None \<Rightarrow> Some (Inr (None, l1))
      | Some (data1, parser1) \<Rightarrow>
          bindR (chunk_data en l1 (cp_content_len (cl_parser parser1)) data1 body) (\<lambda>(q, l2).
            Some (Inr (map_option (\<lambda>(body2, data2). (body2, data2, parser1)) q, l2))))"

partial_function (option) chunk_loop ::
  "client_env \<Rightarrow> link \<Rightarrow> HttpResponseParser \<Rightarrow> string \<Rightarrow> string \<Rightarrow> ((string \<times> HttpResponseParser) option \<times> link) run"
where
  "chunk_loop en l parser data body =
    Option.bind (chunk_round en l parser data body) (\<lambda>r.
      case r of
        Inl e \<Rightarrow> Some (Inl e)
      | Inr (None, l1) \<Rightarrow> Some (Inr (None, l1))
      | Inr (Some (body1, data1, parser1), l1) \<Rightarrow>
          if cp_chunks_done (cl_parser parser1) then Some (Inr (Some (body1, parser1), l1))
          else chunk_loop en l1 parser1 data1 body1)"

definition response_body :: "client_env \<Rightarrow> link \<Rightarrow> HttpResponseParser \<Rightarrow> string \<Rightarrow> (HttpResponse option \<times> link) run" where
  "response_body en l parser pending =
    (let len = sint (cl_getContentLenght (ce_cast en) parser); rsp = cl_data parser in
     if len > 0 then
       bindR (read_body (ce_close en) l len pending) (\<lambda>(r, l1). Some (Inr (map_option (rs_setBody rsp) r, l1)))
     else Some (Inr (Some rsp, l)))"

definition recvResponse :: "client_env \<Rightarrow> link \<Rightarrow> (HttpResponse option \<times> link) run" where
  "recvResponse en l =
    bindR (parse_loop (response_parsing (ce_tables en) False) (ce_buff en) (ce_close en) False l
        (new_HttpResponseParser (ce_tables en) (ce_junk en)) []) (\<lambda>(r, l1).
      case r of
        None \<Rightarrow> Some (Inr (None, l1))
      | Some (rest, parser) \<Rightarrow>
          if cp_chunked (cl_parser parser) then
            bindR (chunk_loop en l1 parser rest []) (\<lambda>(q, l2).
              Some (Inr (map_option (\<lambda>(body, parser1). rs_setBody (cl_data parser1) body) q, l2)))
          else response_body en l1 parser rest)"

definition sendRequest :: "link \<Rightarrow> HttpRequest \<Rightarrow> (int \<times> link) run" where
  "sendRequest l req =
    (case rq_dump req of
       Inl e \<Rightarrow> Some (Inl e)
     | Inr data \<Rightarrow> writeFixSize ss_write l (bytes_of data))"

section \<open>Requests\<close>

text \<open>
  What a new connection meets: the kernel and the resolver, the answers for its socket, and the calls and bytes to come. \<open>strerror\<close>
  gives the text of an error number.
\<close>

record dial =
  dl_sys :: sys
  dl_host :: u8
  dl_gai :: resolver
  dl_strerror :: "int \<Rightarrow> string"
  dl_sock :: "int \<times> int \<times> bool option"
  dl_connect :: connect_answer
  dl_opt :: int
  dl_calls :: "(nat \<times> nat \<times> io_answer list) list"
  dl_in :: bytes

text \<open>A connected stream, or the socket is dropped. \<open>CreateTCP\<close> never gives a null pointer.\<close>

definition dial_up :: "client_env \<Rightarrow> dial \<Rightarrow> hook \<Rightarrow> address \<Rightarrow> (link option \<times> hook) run" where
  "dial_up en dl h addr =
    bindR (Socket_connect (dl_sys dl) h (CreateTCP addr) addr (-1) (dl_sock dl) (dl_connect dl)) (\<lambda>(ok, h1, s).
      if \<not> ok then
        bindR (Socket_close h1 s (fst (ce_close en)) (snd (ce_close en))) (\<lambda>(_, h2, _). Some (Inr (None, h2)))
      else Some (Inr (Some ((SocketStream h1 (Some s) True)\<lparr>ln_calls := dl_calls dl, ln_in := dl_in dl\<rparr>), h1)))"

definition set_timeout :: "dial \<Rightarrow> u64 \<Rightarrow> link \<Rightarrow> link run" where
  "set_timeout dl timeout_ms l =
    (case ln_socket l of
       None \<Rightarrow> Some (Inl Null_deref)
     | Some s \<Rightarrow> Some (bindE (setRecvTimeout (ln_hook l) s timeout_ms (dl_opt dl)) (\<lambda>h. Inr (l\<lparr>ln_hook := h\<rparr>))))"

text \<open>The request goes out and the response comes in; \<open>peer\<close> is the text of the remote address.\<close>

definition exchange ::
  "client_env \<Rightarrow> (int \<Rightarrow> string) \<Rightarrow> (link \<Rightarrow> string) \<Rightarrow> link \<Rightarrow> HttpRequest \<Rightarrow> u64 \<Rightarrow> (http_result \<times> link) run"
where
  "exchange en strerror peer l req timeout_ms =
    bindR (sendRequest l req) (\<lambda>(rt, l1).
      if rt = 0 then
        Some (Inr (HttpResult SEND_CLOSE_BY_PEER None (''send request closed by peer: '' @ peer l1), l1))
      else if rt < 0 then
        Some (Inr (HttpResult SEND_SOCKET_ERROR None
          (''send request socket error errno='' @ dec_int (hk_errno (ln_hook l1)) @ '' errstr='' @ strerror (hk_errno (ln_hook l1))), l1))
      else
        bindR (recvResponse en l1) (\<lambda>(rsp, l2).
          case rsp of
            None \<Rightarrow>
              Some (Inr (HttpResult TIMEOUT None
                (''recv response timeout: '' @ peer l2 @ '' timeout_ms:'' @ dec (unat timeout_ms)), l2))
          | Some r \<Rightarrow> Some (Inr (HttpResult HR_OK (Some r) ''ok'', l2))))"

text \<open>The result, the state of the hooks and what was sent; the connection is closed on the way out.\<close>

definition DoRequest ::
  "client_env \<Rightarrow> dial \<Rightarrow> hook \<Rightarrow> HttpRequest \<Rightarrow> uri \<Rightarrow> u64 \<Rightarrow> (http_result \<times> hook \<times> bytes) run"
where
  "DoRequest en dl h req uri timeout_ms =
    (case createAddress (dl_host dl) (dl_gai dl) uri of
       None \<Rightarrow> Some (Inr (HttpResult INVALID_HOST None (''invalid host: '' @ ur_host uri), h, []))
     | Some addr \<Rightarrow>
         bindR (dial_up en dl h addr) (\<lambda>(conn, h1).
           case conn of
             None \<Rightarrow> Some (Inr (HttpResult CONNECT_FAIL None (''connect fail: '' @ address_toString (dl_host dl) addr), h1, []))
           | Some l \<Rightarrow>
               bindR (set_timeout dl timeout_ms l) (\<lambda>l1.
               bindR (exchange en (dl_strerror dl) (\<lambda>_. address_toString (dl_host dl) addr) l1 req timeout_ms) (\<lambda>(res, l2).
               bindR (ss_destroy l2 (fst (ce_close en)) (snd (ce_close en))) (\<lambda>l3.
                 Some (Inr (res, ln_hook l3, ln_out l3)))))))"

text \<open>The header fields the caller gives: a \<^verbatim>\<open>connection\<close> field only sets the flag, and a non-empty \<^verbatim>\<open>host\<close> field is noted.\<close>

fun add_headers :: "(string \<times> string) list \<Rightarrow> bool \<Rightarrow> HttpRequest \<Rightarrow> bool \<times> HttpRequest" where
  "add_headers [] has_host req = (has_host, req)"
| "add_headers ((k, v) # hs) has_host req =
     (if same_key k ''connection'' then
        add_headers hs has_host (if same_key v ''keep-alive'' then setClose req False else req)
      else
        add_headers hs (if \<not> has_host \<and> same_key k ''host'' then v \<noteq> [] else has_host) (setHeader req k v))"

definition DoRequest_uri ::
  "client_env \<Rightarrow> dial \<Rightarrow> hook \<Rightarrow> HttpMethod \<Rightarrow> uri \<Rightarrow> u64 \<Rightarrow> (string \<times> string) list \<Rightarrow> string \<Rightarrow> (http_result \<times> hook \<times> bytes) run"
where
  "DoRequest_uri en dl h mtext uri timeout_ms headers body =
    (let req = setMethod (setFragment (setQuery (setPath (new_HttpRequest 0x11 True) (ur_getPath uri)) (ur_query uri)) (ur_fragment uri)) mtext;
         (has_host, req1) = add_headers headers False req;
         req2 = (if has_host then req1 else setHeader req1 ''Host'' (ur_host uri))
     in DoRequest en dl h (setBody req2 body) uri timeout_ms)"

definition DoRequest_url ::
  "client_env \<Rightarrow> dial \<Rightarrow> hook \<Rightarrow> HttpMethod \<Rightarrow> string \<Rightarrow> u64 \<Rightarrow> (string \<times> string) list \<Rightarrow> string \<Rightarrow> (http_result \<times> hook \<times> bytes) run"
where
  "DoRequest_url en dl h mtext url timeout_ms headers body =
    bindR (Some (Uri_Create url)) (\<lambda>u.
      case u of
        None \<Rightarrow> Some (Inr (HttpResult INVALID_URL None (''invalid url: '' @ url), h, []))
      | Some uri \<Rightarrow> DoRequest_uri en dl h mtext uri timeout_ms headers body)"

definition DoGet_uri ::
  "client_env \<Rightarrow> dial \<Rightarrow> hook \<Rightarrow> uri \<Rightarrow> u64 \<Rightarrow> (string \<times> string) list \<Rightarrow> string \<Rightarrow> (http_result \<times> hook \<times> bytes) run"
where
  "DoGet_uri en dl h uri timeout_ms headers body = DoRequest_uri en dl h GET uri timeout_ms headers body"

definition DoGet_url ::
  "client_env \<Rightarrow> dial \<Rightarrow> hook \<Rightarrow> string \<Rightarrow> u64 \<Rightarrow> (string \<times> string) list \<Rightarrow> string \<Rightarrow> (http_result \<times> hook \<times> bytes) run"
where
  "DoGet_url en dl h url timeout_ms headers body =
    bindR (Some (Uri_Create url)) (\<lambda>u.
      case u of
        None \<Rightarrow> Some (Inr (HttpResult INVALID_URL None (''invalid url:'' @ url), h, []))
      | Some uri \<Rightarrow> DoGet_uri en dl h uri timeout_ms headers body)"

definition DoPost_uri ::
  "client_env \<Rightarrow> dial \<Rightarrow> hook \<Rightarrow> uri \<Rightarrow> u64 \<Rightarrow> (string \<times> string) list \<Rightarrow> string \<Rightarrow> (http_result \<times> hook \<times> bytes) run"
where
  "DoPost_uri en dl h uri timeout_ms headers body = DoRequest_uri en dl h POST uri timeout_ms headers body"

definition DoPost_url ::
  "client_env \<Rightarrow> dial \<Rightarrow> hook \<Rightarrow> string \<Rightarrow> u64 \<Rightarrow> (string \<times> string) list \<Rightarrow> string \<Rightarrow> (http_result \<times> hook \<times> bytes) run"
where
  "DoPost_url en dl h url timeout_ms headers body =
    bindR (Some (Uri_Create url)) (\<lambda>u.
      case u of
        None \<Rightarrow> Some (Inr (HttpResult INVALID_URL None (''invalid url:'' @ url), h, []))
      | Some uri \<Rightarrow> DoPost_uri en dl h uri timeout_ms headers body)"

section \<open>The pool\<close>

record http_conn =
  hc_link :: link
  hc_createTime :: u64
  hc_request :: u64

record http_pool =
  pl_host :: string
  pl_vhost :: string
  pl_port :: u32
  pl_maxSize :: u32
  pl_maxAliveTime :: u32
  pl_maxRequest :: u32
  pl_conns :: "http_conn list"
  pl_total :: u32

definition HttpConnection :: "link \<Rightarrow> http_conn" where
  "HttpConnection l = \<lparr>hc_link = l, hc_createTime = 0, hc_request = 0\<rparr>"

definition HttpConnectionPool :: "string \<Rightarrow> string \<Rightarrow> u32 \<Rightarrow> u32 \<Rightarrow> u32 \<Rightarrow> u32 \<Rightarrow> http_pool" where
  "HttpConnectionPool host vhost port max_size max_alive_time max_request =
    \<lparr>pl_host = host, pl_vhost = vhost, pl_port = (if port \<noteq> 0 then port else 80), pl_maxSize = max_size,
     pl_maxAliveTime = max_alive_time, pl_maxRequest = max_request, pl_conns = [], pl_total = 0\<rparr>"

text \<open>A URI that does not parse is logged, and then the null pointer is used.\<close>

definition Pool_Create :: "string \<Rightarrow> string \<Rightarrow> u32 \<Rightarrow> u32 \<Rightarrow> u32 \<Rightarrow> http_pool res" where
  "Pool_Create uri vhost max_size max_alive_time max_request =
    bindE (Uri_Create uri) (\<lambda>turi.
      case turi of
        None \<Rightarrow> Inl Null_deref
      | Some u \<Rightarrow> Inr (HttpConnectionPool (ur_host u) vhost (word_of_int (ur_getPort u)) max_size max_alive_time max_request))"

text \<open>The search for a connection: those passed over, the one found, and those left.\<close>

fun pick_conn :: "u64 \<Rightarrow> u32 \<Rightarrow> http_conn list \<Rightarrow> http_conn list \<Rightarrow> http_conn list \<times> http_conn option \<times> http_conn list" where
  "pick_conn now_ms alive [] invalid = (invalid, None, [])"
| "pick_conn now_ms alive (c # cs) invalid =
     (if \<not> ss_isConnected (hc_link c) then pick_conn now_ms alive cs (invalid @ [c])
      else if hc_createTime c + ucast alive > now_ms then pick_conn now_ms alive cs (invalid @ [c])
      else (invalid, Some c, cs))"

text \<open>\<^verbatim>\<open>delete\<close> on connections.\<close>

fun delete_conns :: "client_env \<Rightarrow> hook \<Rightarrow> http_conn list \<Rightarrow> hook run" where
  "delete_conns en h [] = Some (Inr h)"
| "delete_conns en h (c # cs) =
     bindR (ss_destroy ((hc_link c)\<lparr>ln_hook := h\<rparr>) (fst (ce_close en)) (snd (ce_close en))) (\<lambda>l. delete_conns en (ln_hook l) cs)"

definition getConnection ::
  "client_env \<Rightarrow> dial \<Rightarrow> u64 \<Rightarrow> http_pool \<Rightarrow> hook \<Rightarrow> (http_conn option \<times> http_pool \<times> hook) run"
where
  "getConnection en dl now_ms pool h =
    (let (invalid, ptr, left) = pick_conn now_ms (pl_maxAliveTime pool) (pl_conns pool) [] in
     bindR (delete_conns en h invalid) (\<lambda>h1.
       let pool1 = pool\<lparr>pl_conns := left, pl_total := pl_total pool - of_nat (length invalid)\<rparr> in
       case ptr of
         Some c \<Rightarrow> Some (Inr (Some (c\<lparr>hc_link := (hc_link c)\<lparr>ln_hook := h1\<rparr>\<rparr>), pool1, h1))
       | None \<Rightarrow>
           (case LookupAnyIPAddress (dl_gai dl) (pl_host pool) AF_INET 0 0 of
              None \<Rightarrow> Some (Inr (None, pool1, h1))
            | Some addr \<Rightarrow>
                bindR (dial_up en dl h1 (setPort (dl_host dl) addr (ucast (pl_port pool)))) (\<lambda>(conn, h2).
                  case conn of
                    None \<Rightarrow> Some (Inr (None, pool1, h2))
                  | Some l \<Rightarrow> Some (Inr (Some (HttpConnection l), pool1\<lparr>pl_total := pl_total pool1 + 1\<rparr>, h2))))))"

definition ReleasePtr :: "client_env \<Rightarrow> u64 \<Rightarrow> http_conn \<Rightarrow> http_pool \<Rightarrow> hook \<Rightarrow> (http_pool \<times> hook) run" where
  "ReleasePtr en now_ms ptr pool h =
    (let c = ptr\<lparr>hc_request := hc_request ptr + 1\<rparr> in
     if \<not> ss_isConnected (hc_link c) \<or> hc_createTime c + ucast (pl_maxAliveTime pool) \<ge> now_ms \<or> hc_request c \<ge> ucast (pl_maxRequest pool)
     then bindR (delete_conns en h [c]) (\<lambda>h1. Some (Inr (pool\<lparr>pl_total := pl_total pool - 1\<rparr>, h1)))
     else Some (Inr (pool\<lparr>pl_conns := pl_conns pool @ [c]\<rparr>, h)))"

text \<open>\<open>now_ms\<close> and \<open>later_ms\<close> are the clock when the connection is taken and when it is given back.\<close>

definition doRequest ::
  "client_env \<Rightarrow> dial \<Rightarrow> u64 \<Rightarrow> u64 \<Rightarrow> http_pool \<Rightarrow> hook \<Rightarrow> HttpRequest \<Rightarrow> u64 \<Rightarrow> (http_result \<times> http_pool \<times> hook) run"
where
  "doRequest en dl now_ms later_ms pool h req timeout_ms =
    (let fail = ''pool host:'' @ pl_host pool @ '' port:'' @ dec (unat (pl_port pool)) in
     bindR (getConnection en dl now_ms pool h) (\<lambda>(conn, pool1, h1).
       case conn of
         None \<Rightarrow> Some (Inr (HttpResult POOL_GET_CONNECTION None fail, pool1, h1))
       | Some c \<Rightarrow>
           if ln_socket (hc_link c) = None then
             bindR (ReleasePtr en later_ms c pool1 h1) (\<lambda>(pool2, h2).
               Some (Inr (HttpResult POOL_INVALID_CONNECTION None fail, pool2, h2)))
           else
             bindR (set_timeout dl timeout_ms (hc_link c)) (\<lambda>l1.
             bindR (exchange en (dl_strerror dl) (getRemoteAddressString (dl_host dl) (dl_sys dl)) l1 req timeout_ms) (\<lambda>(res, l2).
             bindR (ReleasePtr en later_ms (c\<lparr>hc_link := l2\<rparr>) pool1 (ln_hook l2)) (\<lambda>(pool2, h2).
               Some (Inr (res, pool2, h2)))))))"

definition doRequest_url ::
  "client_env \<Rightarrow> dial \<Rightarrow> u64 \<Rightarrow> u64 \<Rightarrow> http_pool \<Rightarrow> hook \<Rightarrow> HttpMethod \<Rightarrow> string \<Rightarrow> u64 \<Rightarrow> (string \<times> string) list \<Rightarrow> string \<Rightarrow>
    (http_result \<times> http_pool \<times> hook) run"
where
  "doRequest_url en dl now_ms later_ms pool h mtext url timeout_ms headers body =
    (let req = setClose (setMethod (setPath (new_HttpRequest 0x11 True) url) mtext) False;
         (has_host, req1) = add_headers headers False req;
         req2 = (if has_host then req1
                 else if pl_vhost pool = [] then setHeader req1 ''Host'' (pl_host pool)
                 else setHeader req1 ''Host'' (pl_vhost pool))
     in doRequest en dl now_ms later_ms pool h (setBody req2 body) timeout_ms)"

definition uri_target :: "uri \<Rightarrow> string" where
  "uri_target uri =
    ur_getPath uri @ (if ur_query uri = [] then '''' else ''?'') @ ur_query uri @
    (if ur_fragment uri = [] then '''' else ''#'') @ ur_fragment uri"

definition doRequest_uri ::
  "client_env \<Rightarrow> dial \<Rightarrow> u64 \<Rightarrow> u64 \<Rightarrow> http_pool \<Rightarrow> hook \<Rightarrow> HttpMethod \<Rightarrow> uri \<Rightarrow> u64 \<Rightarrow> (string \<times> string) list \<Rightarrow> string \<Rightarrow>
    (http_result \<times> http_pool \<times> hook) run"
where
  "doRequest_uri en dl now_ms later_ms pool h mtext uri timeout_ms headers body =
    doRequest_url en dl now_ms later_ms pool h mtext (uri_target uri) timeout_ms headers body"

definition doGet_url where
  "doGet_url en dl now_ms later_ms pool h url timeout_ms headers body =
    doRequest_url en dl now_ms later_ms pool h GET url timeout_ms headers body"

definition doGet_uri where
  "doGet_uri en dl now_ms later_ms pool h uri timeout_ms headers body =
    doGet_url en dl now_ms later_ms pool h (uri_target uri) timeout_ms headers body"

definition doPost_url where
  "doPost_url en dl now_ms later_ms pool h url timeout_ms headers body =
    doRequest_url en dl now_ms later_ms pool h POST url timeout_ms headers body"

definition doPost_uri where
  "doPost_uri en dl now_ms later_ms pool h uri timeout_ms headers body =
    doPost_url en dl now_ms later_ms pool h (uri_target uri) timeout_ms headers body"
section \<open>The response on the wire\<close>

lemma client_loop_le: "client_loop m buf p cs st s = Inr (q, st', s') \<Longrightarrow> p \<le> q"
proof (induction m buf p cs st s rule: client_loop.induct)
  case (2 m buf p c rest cs s)
  show ?case
  proof (cases "cs = rg_error m \<or> snd (rg_step m cs c) = rg_error m")
    case True
    then show ?thesis using "2.prems" by (auto split: prod.splits if_splits)
  next
    case False
    obtain as cs' where st: "rg_step m cs c = (as, cs')" by fastforce
    obtain b s1 where r: "client_actions_run buf p as s = Inr (b, s1)" using "2.prems" False st by auto
    show ?thesis using "2.prems" "2.IH" [of as cs' "(b, s1)" b s1] False st r by (cases b) auto
  qed
qed simp

lemma client_loop_moves:
  assumes "client_loop m buf p (c # rest) st s = Inr (q, st', s')" "st' \<noteq> rg_error m"
  shows "p < q"
proof -
  obtain as cs' where st: "rg_step m st c = (as, cs')" by fastforce
  have ne: "st \<noteq> rg_error m" "cs' \<noteq> rg_error m" using assms st by (auto split: if_splits)
  obtain b s1 where r: "client_actions_run buf p as s = Inr (b, s1)" using assms ne st by auto
  then show ?thesis using assms ne st client_loop_le [of m buf "p + 1" rest cs' s1 q st' s'] by (cases b) auto
qed

interpretation clp: head_parser "response_parsing m chunck" for m chunck
proof
  fix p buf k rest p'
  assume "ps_exec (response_parsing m chunck) p buf = Inr (k, rest, p')"
  then obtain p0 n where ex: "httpclient_parser_execute m p0 buf = Inr (int n, p')" "k = n" "rest = drop k buf"
    by (auto simp: response_parsing_def cl_execute_def Let_def split: if_splits) (metis nat_0_le linorder_not_less)+
  then show "k \<le> length buf \<and> rest = drop k buf" by (auto simp: httpclient_parser_execute_def Let_def split: if_splits)
  assume "buf \<noteq> []" "\<not> ps_error (response_parsing m chunck) p'"
  then obtain c cs where buf: "buf = c # cs" "cp_cs (cl_parser p') \<noteq> rg_error m"
    by (cases buf) (auto simp: response_parsing_def cl_hasError_def httpclient_parser_has_error_def)
  obtain q st s s0 where lp: "client_loop m buf 0 buf (cp_cs (cl_parser s0)) s0 = Inr (q, st, s)"
    "p' = upd_client s (\<lambda>x. x\<lparr>cp_cs := st, cp_nread := cp_nread x + q\<rparr>)" "n = cp_nread (cl_parser p')"
    using ex(1) by (auto simp: httpclient_parser_execute_def Let_def split: if_splits)
  have "0 < q" using client_loop_moves lp(1,2) buf by (fastforce simp: upd_client_def simp del: client_loop.simps)
  then show "0 < k" using lp(2,3) ex(2) by (simp add: upd_client_def)
qed

lemma chunk_ask:
  assumes "uint (ce_buff en) < 2 ^ 31" "0 < left"
  shows "int (unat (word_of_int (min left (to_int (uint (ce_buff en)))) :: u64)) \<le> left"
proof -
  have "to_int (uint (ce_buff en)) = uint (ce_buff en)"
    unfolding to_int_def by (rule signed_take_bit_int_eq_self) (use assms(1) in \<open>simp_all add: order.trans [OF _ uint_ge_0]\<close>)
  moreover have "uint (word_of_int (min left (uint (ce_buff en))) :: u64) = min left (uint (ce_buff en))"
    unfolding uint_word_of_int_eq by (rule take_bit_int_eq_self) (use assms in \<open>simp_all add: min_def\<close>)
  ultimately show ?thesis by simp
qed

lemma chunk_rest_frame:
  assumes "chunk_rest en l left body = Some (Inr (Some b, l'))" "uint (ce_buff en) < 2 ^ 31"
  shows "\<exists>d. ln_in l = d @ ln_in l' \<and> b = body @ chars d \<and> int (length d) = max 0 left"
  using assms(1)
proof (induction "length (ln_in l)" arbitrary: l left body rule: less_induct)
  case less
  show ?case
  proof (cases "left > 0")
    case True
    let ?n = "unat (word_of_int (min left (to_int (uint (ce_buff en)))) :: u64)"
    obtain y where y: "ss_read l ?n = Some y" using less.prems True by (subst (asm) chunk_rest.simps) (cases "ss_read l ?n"; simp)
    obtain z where z: "y = Inr z" using less.prems True y by (subst (asm) chunk_rest.simps) (cases y; simp)
    obtain rt d l1 where d: "z = (rt, d, l1)" by (cases z)
    note rd = y [unfolded z d]
    have pos: "0 < rt" and nx: "chunk_rest en l1 (left - rt) (body @ chars d) = Some (Inr (Some b, l'))"
      using less.prems True rd by (subst (asm) chunk_rest.simps, auto split: if_splits)+
    note r = ss.rd_next [OF rd]
    have "length (ln_in l1) < length (ln_in l)" using r pos by auto
    from less.hyps [OF this nx] obtain d2 where "ln_in l1 = d2 @ ln_in l'" "b = (body @ chars d) @ chars d2"
      "int (length d2) = max 0 (left - rt)" by blast
    moreover have "ln_in l = d @ ln_in l1" "int (length d) = rt" using r pos by auto
    moreover have "rt \<le> left" using r chunk_ask [OF assms(2), of left] True by auto
    ultimately show ?thesis using True by (intro exI [of _ "d @ d2"]) simp
  next
    case False
    then show ?thesis using less.prems by (subst (asm) chunk_rest.simps) simp
  qed
qed


lemma chunk_data_frame:
  assumes "chunk_data en l n (chars db) body = Some (Inr (Some (body', data'), l'))" "uint (ce_buff en) < 2 ^ 31"
  shows "\<exists>b t db'. data' = chars db' \<and> db @ ln_in l = b @ t @ db' @ ln_in l' \<and>
    (0 \<le> n \<longrightarrow> int (length b) = n \<and> length t = 2 \<and> body' = body @ chars b)"
proof (cases "n + 2 \<le> int (length db)")
  case True
  then have "0 \<le> n" "l' = l" "body' = body @ take (nat n) (chars db)" "data' = drop (nat n + 2) (chars db)"
    using assms(1) by (auto simp: chunk_data_def split: if_splits)
  moreover have "db = take (nat n) db @ take 2 (drop (nat n) db) @ drop (nat n + 2) db"
    by (metis add.commute append_take_drop_id drop_drop)
  ultimately show ?thesis using True
    by (intro exI [of _ "take (nat n) db"] exI [of _ "take 2 (drop (nat n) db)"] exI [of _ "drop (nat n + 2) db"])
      (simp add: chars_def take_map drop_map)
next
  case False
  then obtain b where b: "chunk_rest en l (n - int (length db) + 2) (body @ chars db) = Some (Inr (Some b, l'))"
    "body' = take (length b - 2) b" "data' = []"
    using assms(1) by (auto simp: chunk_data_def split: if_splits option.splits)
  from chunk_rest_frame [OF b(1) assms(2)] obtain d where d: "ln_in l = d @ ln_in l'" "b = (body @ chars db) @ chars d"
    "int (length d) = n - int (length db) + 2" using False by auto
  let ?w = "db @ d"
  have w: "int (length ?w) = n + 2" using d(3) by simp
  have "body' = body @ take (length ?w - 2) (chars ?w)" if "0 \<le> n" using b(2) d(2) w that by simp
  then have "0 \<le> n \<longrightarrow> body' = body @ chars (take (length ?w - 2) ?w)" by (simp add: chars_def take_map)
  moreover have "0 \<le> n \<longrightarrow> int (length (take (length ?w - 2) ?w)) = n \<and> length (drop (length ?w - 2) ?w) = 2"
    using w by auto
  ultimately show ?thesis using d(1) b(3)
    by (intro exI [of _ "take (length ?w - 2) ?w"] exI [of _ "drop (length ?w - 2) ?w"] exI [of _ "[]"])
      (simp del: take_append drop_append)
qed
text \<open>A chunk as it came: the size it announced, its head, its content, and the line end.\<close>

type_synonym chunk = "int \<times> bytes \<times> bytes \<times> bytes"

definition chunk_ok :: "chunk \<Rightarrow> bool" where
  "chunk_ok = (\<lambda>(n, h, b, t). h \<noteq> [] \<and> (0 \<le> n \<longrightarrow> int (length b) = n \<and> length t = 2))"

definition chunk_wire :: "chunk \<Rightarrow> bytes" where "chunk_wire = (\<lambda>(n, h, b, t). h @ b @ t)"
definition chunk_content :: "chunk \<Rightarrow> bytes" where "chunk_content = (\<lambda>(n, h, b, t). b)"
definition chunk_sized :: "chunk \<Rightarrow> bool" where "chunk_sized = (\<lambda>(n, h, b, t). 0 \<le> n)"

lemma chars_split: "chars d = x @ y \<Longrightarrow> \<exists>a b. d = a @ b \<and> x = chars a \<and> y = chars b"
  unfolding chars_def by (auto simp: map_eq_append_conv)

lemma chunk_head_frame:
  assumes "chunk_head en l p (chars db) = Some (Inr (Some (rest, p'), l'))"
  shows "\<exists>hd rb. db @ ln_in l = hd @ rb @ ln_in l' \<and> hd \<noteq> [] \<and> rest = chars rb"
proof -
  obtain d head where d: "ln_in l = d @ ln_in l'" "chars db @ chars d = head @ rest" "head \<noteq> []"
    using clp.parse_loop_frame [OF assms [unfolded chunk_head_def]] by auto
  then obtain hd rb where "db @ d = hd @ rb" "head = chars hd" "rest = chars rb"
    using chars_split [of "db @ d" head rest] by auto
  then show ?thesis using d(1,3) by (intro exI [of _ hd] exI [of _ rb]) (auto simp: append_assoc [symmetric] simp del: append_assoc)
qed

lemma chunk_round_frame:
  assumes "chunk_round en l p (chars db) body = Some (Inr (Some (body', data', p'), l'))" "uint (ce_buff en) < 2 ^ 31"
  shows "\<exists>h b t db'. data' = chars db' \<and> db @ ln_in l = chunk_wire (cp_content_len (cl_parser p'), h, b, t) @ db' @ ln_in l' \<and>
    chunk_ok (cp_content_len (cl_parser p'), h, b, t) \<and> (0 \<le> cp_content_len (cl_parser p') \<longrightarrow> body' = body @ chars b)"
proof -
  let ?n = "cp_content_len (cl_parser p')"
  obtain data1 l1 where r: "chunk_head en l p (chars db) = Some (Inr (Some (data1, p'), l1))"
    "chunk_data en l1 ?n data1 body = Some (Inr (Some (body', data'), l'))"
    using assms(1) by (auto simp: chunk_round_def split: option.splits)
  obtain hd rb where h: "db @ ln_in l = hd @ rb @ ln_in l1" "hd \<noteq> []" "data1 = chars rb" using chunk_head_frame [OF r(1)] by blast
  obtain b t db' where "data' = chars db'" "rb @ ln_in l1 = b @ t @ db' @ ln_in l'"
    "0 \<le> ?n \<longrightarrow> int (length b) = ?n \<and> length t = 2 \<and> body' = body @ chars b"
    using chunk_data_frame [OF r(2) [unfolded h(3)] assms(2)] by blast
  then show ?thesis using h(1,2) by (intro exI [of _ hd] exI [of _ b] exI [of _ t] exI [of _ db']) (simp add: chunk_ok_def chunk_wire_def)
qed

lemma chunk_loop_cases:
  assumes "chunk_loop en l p data body = Some (Inr (Some (body', p'), l'))"
  obtains body1 data1 p1 l1 where "chunk_round en l p data body = Some (Inr (Some (body1, data1, p1), l1))"
    "if cp_chunks_done (cl_parser p1) then body' = body1 \<and> p' = p1 \<and> l' = l1
     else chunk_loop en l1 p1 data1 body1 = Some (Inr (Some (body', p'), l'))"
proof -
  let ?r = "chunk_round en l p data body"
  obtain y where y: "?r = Some (Inr y)"
    using assms by (subst (asm) chunk_loop.simps) (cases ?r; simp split: sum.splits)
  obtain q l1 where yq: "y = (q, l1)" by (cases y)
  obtain z where z: "q = Some z" using assms y yq by (subst (asm) chunk_loop.simps) (cases q; simp)
  obtain body1 data1 p1 where "z = (body1, data1, p1)" by (cases z)
  with y yq z have r: "?r = Some (Inr (Some (body1, data1, p1), l1))" by simp
  show thesis using that [OF r] assms r by (subst (asm) (2) chunk_loop.simps) (auto split: if_splits)
qed

lemma chunk_loop_frame:
  assumes "chunk_loop en l p (chars db) body = Some (Inr (Some (body', p'), l'))" "uint (ce_buff en) < 2 ^ 31"
  shows "\<exists>cs lost. cs \<noteq> [] \<and> list_all chunk_ok cs \<and> db @ ln_in l = concat (map chunk_wire cs) @ lost @ ln_in l' \<and>
    (list_all chunk_sized cs \<longrightarrow> body' = body @ chars (concat (map chunk_content cs)))"
  using assms(1)
proof (induction "length db + length (ln_in l)" arbitrary: l p db body rule: less_induct)
  case less
  from less.prems show ?case
  proof (cases rule: chunk_loop_cases)
    case (1 body2 data2 p1 l2)
    let ?n = "cp_content_len (cl_parser p1)"
    obtain h b t db' where d: "data2 = chars db'" "db @ ln_in l = chunk_wire (?n, h, b, t) @ db' @ ln_in l2" "chunk_ok (?n, h, b, t)"
      "0 \<le> ?n \<longrightarrow> body2 = body @ chars b" using chunk_round_frame [OF 1(1) assms(2)] by blast
    let ?c = "(?n, h, b, t)"
    show ?thesis
    proof (cases "cp_chunks_done (cl_parser p1)")
      case True
      then show ?thesis using 1(2) d by (intro exI [of _ "[?c]"] exI [of _ db']) (auto simp: chunk_sized_def chunk_content_def)
    next
      case False
      then have nx: "chunk_loop en l2 p1 (chars db') body2 = Some (Inr (Some (body', p'), l'))" using 1(2) d(1) by simp
      have "length db + length (ln_in l) = length (chunk_wire ?c) + length db' + length (ln_in l2)" using arg_cong [OF d(2), of length] by simp
      then have "length db' + length (ln_in l2) < length db + length (ln_in l)" using d(3) by (simp add: chunk_wire_def chunk_ok_def)
      from less.hyps [OF this nx] obtain cs lost where ih: "list_all chunk_ok cs" "db' @ ln_in l2 = concat (map chunk_wire cs) @ lost @ ln_in l'"
        "list_all chunk_sized cs \<longrightarrow> body' = body2 @ chars (concat (map chunk_content cs))" by blast
      have "list_all chunk_sized (?c # cs) \<longrightarrow> body' = body @ chars (concat (map chunk_content (?c # cs)))"
        using d(4) ih(3) by (auto simp: chunk_sized_def chunk_content_def)
      then show ?thesis using d(2,3) ih(1,2) by (intro exI [of _ "?c # cs"] exI [of _ lost]) simp
    qed
  qed
qed
section \<open>Receiving comes to an end\<close>

text \<open>How a step of receiving may end: with the connection closed, or with more calls to come than bytes.\<close>

definition goes_on :: "nat \<Rightarrow> link \<Rightarrow> ('a option \<times> link) res \<Rightarrow> bool" where
  "goes_on k l x =
    (case x of
       Inl _ \<Rightarrow> True
     | Inr (None, l') \<Rightarrow> ln_out l' = ln_out l \<and> closed l'
     | Inr (Some _, l') \<Rightarrow> ln_out l' = ln_out l \<and> served (Suc k + length (ln_in l')) l')"

lemma goes_on_simps [simp]:
  "goes_on k l (Inl e)" "goes_on k l (Inr (None, l')) \<longleftrightarrow> ln_out l' = ln_out l \<and> closed l'"
  "goes_on k l (Inr (Some y, l')) \<longleftrightarrow> ln_out l' = ln_out l \<and> served (Suc k + length (ln_in l')) l'"
  by (simp_all add: goes_on_def)

lemma goes_on_map [simp]: "goes_on k l (Inr (map_option f a, l')) = goes_on k l (Inr (a, l'))"
  by (cases a) simp_all

lemma goes_onI:
  "(\<And>r l'. x = Inr (r, l') \<Longrightarrow> ln_out l' = ln_out l \<and> (if r = None then closed l' else served (Suc k + length (ln_in l')) l')) \<Longrightarrow> goes_on k l x"
  by (cases x) (auto simp: goes_on_def split: option.splits)

lemma goes_on_from: "goes_on k l1 x \<Longrightarrow> ln_out l1 = ln_out l \<Longrightarrow> goes_on k l x"
  by (auto simp: goes_on_def split: sum.splits option.splits)

lemma give_up_goes_on:
  assumes "hooked l"
  obtains x :: "('a option \<times> link) res" where "give_up ans l = Some x" "goes_on k l x"
proof -
  obtain x :: "('a option \<times> link) res" where "give_up ans l = Some x" "\<And>r l'. x = Inr (r, l') \<Longrightarrow> r = None \<and> closed l' \<and> ln_out l' = ln_out l"
    using give_up_returns [OF assms, of ans] by blast
  then show thesis using that [of x] goes_onI [of x l k] by auto
qed

lemma parse_loop_goes_on:
  assumes "served (Suc k + length (ln_in l)) l"
  shows "\<exists>x. parse_loop pg n ans skip l parser pending = Some x \<and> goes_on k l x"
proof -
  obtain x where x: "parse_loop pg n ans skip l parser pending = Some x" "\<forall>r l'. x = Inr (r, l') \<longrightarrow> ln_out l' = ln_out l \<and>
      (if r = None then closed l' else served (Suc k + length (ln_in l')) l')"
    using parse_loop_served [OF assms, of pg n ans skip parser pending] by blast
  have "goes_on k l x" by (rule goes_onI) (use x(2) in blast)
  then show ?thesis using x(1) by blast
qed

lemma read_body_goes_on:
  assumes "served (Suc k + length (ln_in l)) l" "len < 2 ^ 63"
  shows "\<exists>x. read_body ans l len pending = Some x \<and> goes_on k l x"
proof -
  obtain x where x: "read_body ans l len pending = Some x" "\<forall>r l'. x = Inr (r, l') \<longrightarrow> ln_out l' = ln_out l \<and>
      (if r = None then closed l' else served (Suc k + length (ln_in l')) l')"
    using read_body_served [OF assms, of ans pending] by blast
  have "goes_on k l x" by (rule goes_onI) (use x(2) in blast)
  then show ?thesis using x(1) by blast
qed

lemma chunk_rest_served:
  assumes "served (Suc k + length (ln_in l)) l"
  shows "\<exists>x. chunk_rest en l left body = Some x \<and> goes_on k l x"
  using assms
proof (induction "length (ln_in l)" arbitrary: l left body rule: less_induct)
  case less
  show ?case
  proof (cases "left > 0")
    case True
    let ?n = "unat (word_of_int (min left (to_int (uint (ce_buff en)))) :: u64)"
    have "served (Suc (k + length (ln_in l))) l" using less.prems by simp
    from ss_read_served [OF this, of ?n] obtain x where x: "ss_read l ?n = Some x"
      "\<And>r d l'. x = Inr (r, d, l') \<Longrightarrow> served (k + length (ln_in l)) l'" by blast
    show ?thesis
    proof (cases x)
      case (Inl e)
      then show ?thesis using x True by (subst chunk_rest.simps) simp
    next
      case (Inr y)
      obtain rt d l1 where y: "y = (rt, d, l1)" by (cases y)
      note rd = x(1) [unfolded Inr y] and sv = x(2) [OF Inr [unfolded y]]
      have hk: "hooked l1" using sv by (simp add: served_def)
      obtain g :: "(string option \<times> link) res" where g: "give_up (ce_close en) l1 = Some g" "goes_on k l1 g" by (rule give_up_goes_on [OF hk])
      show ?thesis
      proof (cases "rt \<le> 0")
        case le: True
        then show ?thesis using rd True g goes_on_from [OF g(2) ss_read_out [OF rd]] by (subst chunk_rest.simps) simp
      next
        case False
        then have len: "length (ln_in l1) < length (ln_in l)" using ss.rd_next [OF rd] by auto
        then have "served (Suc k + length (ln_in l1)) l1" using served_mono [OF sv] by simp
        from less.hyps [OF len this, of "left - rt" "body @ chars d"] show ?thesis
          using rd True False goes_on_from [OF _ ss_read_out [OF rd]] by (subst chunk_rest.simps) auto
      qed
    qed
  next
    case False
    then show ?thesis using less.prems by (subst chunk_rest.simps) simp
  qed
qed

lemma chunk_data_served:
  assumes "served (Suc k + length (ln_in l)) l"
  shows "\<exists>x. chunk_data en l n data body = Some x \<and> goes_on k l x"
proof -
  obtain x where x: "chunk_rest en l (n - int (length data) + 2) (body @ data) = Some x" "goes_on k l x"
    using chunk_rest_served [OF assms] by blast
  show ?thesis
  proof (cases x)
    case (Inl e)
    then show ?thesis using x assms by (auto simp: chunk_data_def)
  next
    case (Inr y)
    obtain r l1 where y: "y = (r, l1)" by (cases y)
    then show ?thesis using x Inr assms x(2) [unfolded Inr y]
      by (cases r) (auto simp: chunk_data_def)
  qed
qed

lemma chunk_round_served:
  assumes "served (Suc k + length (ln_in l)) l"
  shows "\<exists>x. chunk_round en l p data body = Some x \<and> goes_on k l x"
proof -
  have "\<exists>x. chunk_head en l p data = Some x \<and> goes_on k l x" unfolding chunk_head_def by (rule parse_loop_goes_on [OF assms])
  then obtain x where x: "chunk_head en l p data = Some x" "goes_on k l x" by blast
  show ?thesis
  proof (cases x)
    case (Inr y)
    obtain r l1 where y: "y = (r, l1)" by (cases y)
    note on = x(2) [unfolded Inr y]
    show ?thesis
    proof (cases r)
      case (Some z)
      obtain data1 p1 where z: "z = (data1, p1)" by (cases z)
      have "served (Suc k + length (ln_in l1)) l1" using on Some by simp
      from chunk_data_served [OF this, of en "cp_content_len (cl_parser p1)" data1 body] obtain v where
        v: "chunk_data en l1 (cp_content_len (cl_parser p1)) data1 body = Some v" "goes_on k l1 v" by blast
      then show ?thesis using x(1) Inr y Some z on goes_on_from [OF v(2), of l] by (cases v) (auto simp: chunk_round_def)
    qed (use x Inr y on in \<open>simp add: chunk_round_def\<close>)
  qed (use x in \<open>simp add: chunk_round_def\<close>)
qed

lemma chunk_loop_served:
  assumes "served (Suc k + length (ln_in l)) l" "uint (ce_buff en) < 2 ^ 31"
  shows "\<exists>x. chunk_loop en l p (chars db) body = Some x \<and> goes_on k l x"
  using assms(1)
proof (induction "length db + length (ln_in l)" arbitrary: l p db body rule: less_induct)
  case less
  obtain x where x: "chunk_round en l p (chars db) body = Some x" "goes_on k l x" using chunk_round_served [OF less.prems] by blast
  show ?case
  proof (cases x)
    case (Inl e)
    then show ?thesis using x by (subst chunk_loop.simps) simp
  next
    case (Inr y)
    obtain r l1 where y: "y = (r, l1)" by (cases y)
    note rd = x(1) [unfolded Inr y] and on = x(2) [unfolded Inr y]
    show ?thesis
    proof (cases r)
      case None
      then show ?thesis using rd on by (subst chunk_loop.simps) simp
    next
      case (Some z)
      obtain body1 data1 p1 where z: "z = (body1, data1, p1)" by (cases z)
      have sv: "served (Suc k + length (ln_in l1)) l1" "ln_out l1 = ln_out l" using on Some by auto
      obtain h b t db' where d: "data1 = chars db'" "db @ ln_in l = chunk_wire (cp_content_len (cl_parser p1), h, b, t) @ db' @ ln_in l1"
        "chunk_ok (cp_content_len (cl_parser p1), h, b, t)" using chunk_round_frame [OF rd [unfolded Some z] assms(2)] by blast
      have "length db' + length (ln_in l1) < length db + length (ln_in l)"
        using arg_cong [OF d(2), of length] d(3) by (cases h) (auto simp: chunk_wire_def chunk_ok_def)
      from less.hyps [OF this sv(1), of p1 body1] obtain v where v: "chunk_loop en l1 p1 (chars db') body1 = Some v" "goes_on k l1 v" by blast
      then have "goes_on k l v" using goes_on_from sv(2) by blast
      then show ?thesis using rd Some z d(1) v(1) sv by (subst chunk_loop.simps) auto
    qed
  qed
qed
section \<open>Properties of receiving\<close>

lemma client_action_body: "client_action_run buf fpc a s = Inr s' \<Longrightarrow> rs_body (cl_data s') = rs_body (cl_data s)"
  by (cases a) (auto simp: upd_client_def Let_def on_response_http_field_def on_response_reason_def on_response_status_def
      on_response_chunk_def on_response_version_def on_response_header_done_def on_response_last_chunk_def cl_setError_def
      rs_setReason_def rs_setStatus_def rs_setVersion_def rs_setHeader_def split: if_splits option.splits)

lemma client_actions_body: "client_actions_run buf fpc as s = Inr (b, s') \<Longrightarrow> rs_body (cl_data s') = rs_body (cl_data s)"
  by (induction as arbitrary: s) (auto dest: client_action_body simp del: client_action_run.simps split: if_splits)

lemma client_loop_body: "client_loop m buf p cs st s = Inr (q, st', s') \<Longrightarrow> rs_body (cl_data s') = rs_body (cl_data s)"
proof (induction m buf p cs st s rule: client_loop.induct)
  case (2 m buf p c rest cs s)
  show ?case
  proof (cases "cs = rg_error m \<or> snd (rg_step m cs c) = rg_error m")
    case True
    then show ?thesis using "2.prems" by (auto split: prod.splits if_splits)
  next
    case False
    obtain as cs' where st: "rg_step m cs c = (as, cs')" by fastforce
    obtain b s1 where r: "client_actions_run buf p as s = Inr (b, s1)" using "2.prems" False st by auto
    show ?thesis using "2.prems" "2.IH" [of as cs' "(b, s1)" b s1] False st r client_actions_body [OF r] by (cases b) auto
  qed
qed simp

lemma client_execute_body:
  assumes "ps_exec (response_parsing m chunck) s buf = Inr (k, rest, s')"
  shows "rs_body (cl_data s') = rs_body (cl_data s)"
proof -
  have "rs_body (cl_data (upd_client s f)) = rs_body (cl_data s)" for f s by (simp add: upd_client_def)
  then show ?thesis
    using assms by (auto simp: response_parsing_def cl_execute_def httpclient_parser_execute_def Let_def dest!: client_loop_body split: if_splits)
qed

text \<open>What follows the head of a response: a body of the announced length, or chunks.\<close>

definition plain_frame :: "client_env \<Rightarrow> HttpResponse \<Rightarrow> bytes \<Rightarrow> bool" where
  "plain_frame en rsp rest \<longleftrightarrow>
    (\<exists>body lost. rest = body @ lost \<and> rs_body rsp = chars body \<and>
      int (length body) = max 0 (sint (rs_getHeaderAs (ce_cast en) rsp ''content-length'' 0)))"

definition chunked_frame :: "HttpResponse \<Rightarrow> bytes \<Rightarrow> bool" where
  "chunked_frame rsp rest \<longleftrightarrow>
    (\<exists>cs lost. cs \<noteq> [] \<and> list_all chunk_ok cs \<and> rest = concat (map chunk_wire cs) @ lost \<and>
      (list_all chunk_sized cs \<longrightarrow> rs_body rsp = chars (concat (map chunk_content cs))))"

lemma response_body_frame:
  assumes "response_body en l p (chars db) = Some (Inr (Some rsp, l'))" "rs_body (cl_data p) = []"
  shows "\<exists>rest. db @ ln_in l = rest @ ln_in l' \<and> plain_frame en rsp rest"
proof -
  let ?len = "sint (cl_getContentLenght (ce_cast en) p)"
  have small: "?len < 2 ^ 63" using sint_lt [of "cl_getContentLenght (ce_cast en) p"] by simp
  have h: "rs_getHeaderAs (ce_cast en) (rs_setBody r b) k d = rs_getHeaderAs (ce_cast en) r k d" "rs_body (rs_setBody r b) = b" for r b k d
    by (simp_all add: rs_getHeaderAs_def rs_setBody_def)
  show ?thesis
  proof (cases "?len > 0")
    case True
    then obtain b where b: "read_body (ce_close en) l ?len (chars db) = Some (Inr (Some b, l'))" "rsp = rs_setBody (cl_data p) b"
      using assms(1) by (auto simp: response_body_def Let_def)
    obtain body lost where f: "db @ ln_in l = body @ lost @ ln_in l'" "b = chars body" "int (length body) = ?len"
      using read_body_frame [OF b(1) True small] by blast
    show ?thesis
      using b(2) f True h by (intro exI [of _ "body @ lost"]) (auto simp: plain_frame_def cl_getContentLenght_def)
  next
    case False
    then have r: "rsp = cl_data p" "l' = l" using assms(1) by (auto simp: response_body_def Let_def)
    show ?thesis using r False assms(2)
      by (intro exI [of _ db]) (auto simp: plain_frame_def cl_getContentLenght_def intro: exI [of _ "[]"])
  qed
qed

lemma recvResponse_frame:
  assumes "recvResponse en l = Some (Inr (Some rsp, l'))" "uint (ce_buff en) < 2 ^ 31"
  shows "\<exists>head rest. ln_in l = head @ rest @ ln_in l' \<and> head \<noteq> [] \<and> (plain_frame en rsp rest \<or> chunked_frame rsp rest)"
proof -
  let ?pg = "response_parsing (ce_tables en) False" and ?p = "new_HttpResponseParser (ce_tables en) (ce_junk en)"
  obtain r1 p l1 where r: "parse_loop ?pg (ce_buff en) (ce_close en) False l ?p [] = Some (Inr (Some (r1, p), l1))"
    "(if cp_chunked (cl_parser p) then bindR (chunk_loop en l1 p r1 []) (\<lambda>(q, l2).
        Some (Inr (map_option (\<lambda>(body, parser1). rs_setBody (cl_data parser1) body) q, l2))) else response_body en l1 p r1) = Some (Inr (Some rsp, l'))"
    using assms(1) by (auto simp: recvResponse_def split: option.splits)
  obtain d head where d: "ln_in l = d @ ln_in l1" "chars d = head @ r1" "head \<noteq> []" using clp.parse_loop_frame [OF r(1)] by auto
  obtain hb db where hd: "d = hb @ db" "head = chars hb" "r1 = chars db" using chars_split [OF d(2)] by blast
  have b: "rs_body (cl_data p) = []"
    using clp.parse_loop_keeps [of _ _ "\<lambda>p. rs_body (cl_data p)", OF client_execute_body r(1)]
    by (simp add: new_HttpResponseParser_def new_HttpResponse_def)
  have "\<exists>rest. db @ ln_in l1 = rest @ ln_in l' \<and> (plain_frame en rsp rest \<or> chunked_frame rsp rest)"
  proof (cases "cp_chunked (cl_parser p)")
    case True
    then obtain body p1 where c: "chunk_loop en l1 p (chars db) [] = Some (Inr (Some (body, p1), l'))" "rsp = rs_setBody (cl_data p1) body"
      using r(2) hd(3) by auto
    from chunk_loop_frame [OF c(1) assms(2)] obtain cs lost where "cs \<noteq> []" "list_all chunk_ok cs"
      "db @ ln_in l1 = concat (map chunk_wire cs) @ lost @ ln_in l'" "list_all chunk_sized cs \<longrightarrow> body = chars (concat (map chunk_content cs))"
      by auto
    then show ?thesis using c(2)
      by (intro exI [of _ "concat (map chunk_wire cs) @ lost"]) (auto simp: chunked_frame_def rs_setBody_def)
  next
    case False
    then show ?thesis using response_body_frame [OF _ b, of en l1 db rsp l'] r(2) hd(3) by auto
  qed
  then show ?thesis using d(1,3) hd by (metis append.assoc chars_nil)
qed

lemma response_body_goes_on:
  assumes "served (Suc k + length (ln_in l)) l"
  shows "\<exists>x. response_body en l p rest = Some x \<and> goes_on k l x"
proof -
  let ?len = "sint (cl_getContentLenght (ce_cast en) p)"
  have "?len < 2 ^ 63" using sint_lt [of "cl_getContentLenght (ce_cast en) p"] by simp
  then obtain w where w: "read_body (ce_close en) l ?len rest = Some w" "goes_on k l w" using read_body_goes_on [OF assms] by blast
  then show ?thesis using assms by (cases w) (auto simp: response_body_def Let_def)
qed

lemma recvResponse_goes_on:
  assumes "served (Suc k + length (ln_in l)) l" "uint (ce_buff en) < 2 ^ 31"
  shows "\<exists>x. recvResponse en l = Some x \<and> goes_on k l x"
proof -
  let ?pg = "response_parsing (ce_tables en) False" and ?p = "new_HttpResponseParser (ce_tables en) (ce_junk en)"
  obtain x where x: "parse_loop ?pg (ce_buff en) (ce_close en) False l ?p [] = Some x" "goes_on k l x"
    using parse_loop_goes_on [OF assms(1), of ?pg "ce_buff en" "ce_close en" False ?p "[]"] by blast
  show ?thesis
  proof (cases x)
    case (Inr y)
    obtain r l1 where y: "y = (r, l1)" by (cases y)
    note on = x(2) [unfolded Inr y]
    show ?thesis
    proof (cases r)
      case (Some z)
      obtain rest p where z: "z = (rest, p)" by (cases z)
      have sv: "served (Suc k + length (ln_in l1)) l1" "ln_out l1 = ln_out l" using on Some by auto
      obtain d head where "chars d = head @ rest" using clp.parse_loop_frame [OF x(1) [unfolded Inr y Some z]] by auto
      then obtain db where db: "rest = chars db" using chars_split [of d head rest] by blast
      obtain v where v: "chunk_loop en l1 p (chars db) [] = Some v" "goes_on k l1 v" using chunk_loop_served [OF sv(1) assms(2)] by blast
      obtain w where w: "response_body en l1 p rest = Some w" "goes_on k l1 w" using response_body_goes_on [OF sv(1)] by blast
      have on': "goes_on k l v" "goes_on k l w" using goes_on_from v(2) w(2) sv(2) by blast+
      show ?thesis
      proof (cases "cp_chunked (cl_parser p)")
        case True
        then show ?thesis using x(1) Inr y Some z db v(1) on'(1) by (cases v) (auto simp: recvResponse_def)
      next
        case False
        then show ?thesis using x(1) Inr y Some z w(1) on'(2) by (simp add: recvResponse_def)
      qed
    qed (use x Inr y on in \<open>simp add: recvResponse_def\<close>)
  qed (use x in \<open>simp add: recvResponse_def\<close>)
qed

text \<open>
  A machine for which an exclamation mark ends the head of a response or of a chunk, a letter \<open>t\<close> announces chunks and a digit is the size
  of one; and a connection on which a chunk of three bytes and the last chunk come at once.
\<close>

definition bang_client :: client_env where
  "bang_client = \<lparr>ce_tables = \<lparr>rg_start = 1, rg_error = 0, rg_first_final = 2,
      rg_step = (\<lambda>cs c. if c = CHR ''!'' then ([CDone], 2) else if c = CHR ''t'' then ([Trans_chunked], 1) else ([Chunk_size], 1))\<rparr>,
    ce_junk = \<lparr>cp_cs = 0, cp_body_start = 0, cp_content_len = 0, cp_status = 0, cp_chunked = False, cp_chunks_done = False,
      cp_close = False, cp_nread = 0, cp_mark = 0, cp_field_start = 0, cp_field_len = 0\<rparr>,
    ce_sizes = RequestSizeIniter 4096 65536 4096 65536, ce_cast = (\<lambda>_. None), ce_close = (0, 0)\<rparr>"

definition chunk_link :: link where
  "chunk_link = bang_link\<lparr>ln_calls := replicate 14 (0, 0, [Sys 13 0]), ln_in := [116, 33, 51, 33, 97, 98, 99, 13, 10, 48, 33, 13, 10]\<rparr>"

lemma chunk_read: "ss_read chunk_link 4096 = Some (Inr (13, ln_in chunk_link, chunk_link\<lparr>ln_calls := replicate 13 (0, 0, [Sys 13 0]), ln_in := []\<rparr>))"
proof -
  have "fd_abs FdManager 7 = None" by (simp add: fd_abs_def FdManager_def)
  then have "get FdManager 7 False None fl = Inr (None, FdManager, fl)" for fl
    using get_spec [OF fd_inv_new(1), of 7 False None fl] by auto
  then show ?thesis
    by (simp add: ss_read_def chunk_link_def bang_link_def example_link_def SocketStream_def ss_isConnected_def isConnected_def socket_call_def
        Socket_recv_def recv_hook_def do_io_def do_io_enter_def returned_def Socket_def numeral_eq_Suc)
qed

lemmas client_run = cl_execute_def httpclient_parser_execute_def httpclient_parser_init_def upd_client_def Let_def
  cl_hasError_def httpclient_parser_has_error_def cl_isFinished_def httpclient_parser_finish_def httpclient_parser_is_finished_def
  on_response_header_done_def on_response_chunk_def on_response_last_chunk_def

lemma chunk_texts: "chars (ln_in chunk_link) = ''t!3!abc'' @ CRLF @ ''0!'' @ CRLF"
  by code_simp

lemma bang_chars [simp]:
  "tolower CHR ''3'' = CHR ''3''" "tolower CHR ''0'' = CHR ''0''" "tolower CHR ''!'' = CHR ''!''"
  "\<not> isspace CHR ''3''" "\<not> isspace CHR ''0''"
  by (simp_all add: tolower_def isspace_def)

lemma bang_digits [simp]: "xdigit_val CHR ''3'' = Some 3" "xdigit_val CHR ''0'' = Some 0" "xdigit_val CHR ''!'' = None"
  by (simp_all add: xdigit_val_def)

lemma bang_sizes: "strtol 16 (CHR ''3'' # CHR ''!'' # w) = 3" "strtol 16 (CHR ''0'' # CHR ''!'' # w) = 0"
  by (simp_all add: strtol_def is_base_def)

lemma chunk_response:
  "\<exists>rsp. recvResponse bang_client chunk_link =
    Some (Inr (Some rsp, chunk_link\<lparr>ln_calls := replicate 13 (0, 0, [Sys 13 0]), ln_in := []\<rparr>)) \<and> rs_body rsp = ''abc''"
proof -
  let ?m = "ce_tables bang_client" and ?l = "chunk_link\<lparr>ln_calls := replicate 13 (0, 0, [Sys 13 0]), ln_in := []\<rparr>"
  have buf: "ce_buff bang_client = 4096" by (simp add: ce_buff_def bang_client_def RequestSizeIniter_def GetHttpRequestBufferSize_def)
  obtain p1 where p1: "cl_execute ?m (new_HttpResponseParser ?m (ce_junk bang_client)) (''t!3!abc'' @ CRLF @ ''0!'' @ CRLF) False =
      Inr (2, ''3!abc'' @ CRLF @ ''0!'' @ CRLF, p1)"
    "\<not> cl_hasError ?m p1" "cl_isFinished ?m p1" "cp_chunked (cl_parser p1)" "cl_error p1 = 0"
    by (simp add: new_HttpResponseParser_def bang_client_def client_run CRLF_def)
  obtain p2 where p2: "cl_execute ?m p1 (''3!abc'' @ CRLF @ ''0!'' @ CRLF) True = Inr (2, ''abc'' @ CRLF @ ''0!'' @ CRLF, p2)"
    "\<not> cl_hasError ?m p2" "cl_isFinished ?m p2" "cp_content_len (cl_parser p2) = 3" "\<not> cp_chunks_done (cl_parser p2)" "cl_error p2 = 0"
    using p1(5) by (simp add: bang_client_def client_run CRLF_def to_int_def bang_sizes)
  obtain p3 where p3: "cl_execute ?m p2 (''0!'' @ CRLF) True = Inr (2, CRLF, p3)"
    "\<not> cl_hasError ?m p3" "cl_isFinished ?m p3" "cp_content_len (cl_parser p3) = 0" "cp_chunks_done (cl_parser p3)"
    using p2(6) by (simp add: bang_client_def client_run CRLF_def to_int_def bang_sizes)
  have h: "chunk_head bang_client ?l p1 (''3!abc'' @ CRLF @ ''0!'' @ CRLF) = Some (Inr (Some (''abc'' @ CRLF @ ''0!'' @ CRLF, p2), ?l))"
    "chunk_head bang_client ?l p2 (''0!'' @ CRLF) = Some (Inr (Some (CRLF, p3), ?l))"
    using p2 p3 buf by (simp_all add: chunk_head_def response_parsing_def parse_loop.simps CRLF_def to_int_def)
  have r: "chunk_round bang_client ?l p1 (''3!abc'' @ CRLF @ ''0!'' @ CRLF) [] = Some (Inr (Some (''abc'', ''0!'' @ CRLF, p2), ?l))"
    "chunk_round bang_client ?l p2 (''0!'' @ CRLF) ''abc'' = Some (Inr (Some (''abc'', [], p3), ?l))"
    unfolding chunk_round_def h using p2(4) p3(4) by (simp_all add: chunk_data_def CRLF_def numeral_eq_Suc)
  have "chunk_loop bang_client ?l p2 (''0!'' @ CRLF) ''abc'' = Some (Inr (Some (''abc'', p3), ?l))"
    by (subst chunk_loop.simps) (simp only: r(2), simp add: p3(5))
  then have "chunk_loop bang_client ?l p1 (''3!abc'' @ CRLF @ ''0!'' @ CRLF) [] = Some (Inr (Some (''abc'', p3), ?l))"
    by (subst chunk_loop.simps) (simp only: r(1), simp add: p2(5))
  moreover have "parse_loop (response_parsing ?m False) (ce_buff bang_client) (ce_close bang_client) False chunk_link
      (new_HttpResponseParser ?m (ce_junk bang_client)) [] = Some (Inr (Some (''3!abc'' @ CRLF @ ''0!'' @ CRLF, p1), ?l))"
    using p1 buf chunk_read chunk_texts by (subst parse_loop.simps) (simp add: response_parsing_def to_int_def CRLF_def)
  ultimately show ?thesis using p1(4) by (simp add: recvResponse_def rs_setBody_def)
qed

section \<open>Requests and their results\<close>

lemma sendRequest_served:
  assumes "rq_dump req = Inr data" "served (length data + k) l"
  shows "\<exists>x. sendRequest l req = Some x \<and> (\<forall>rt l1. x = Inr (rt, l1) \<longrightarrow> served k l1 \<and> ln_in l1 = ln_in l \<and>
    (\<exists>j. ln_out l1 = ln_out l @ take j (bytes_of data)) \<and> (0 < rt \<longrightarrow> ln_out l1 = ln_out l @ bytes_of data))"
proof -
  let ?bs = "bytes_of data"
  have n: "0 + length ?bs = length ?bs" "served (length ?bs + k) l" using assms(2) by (simp_all add: bytes_of_def)
  obtain x where x: "writeFix_loop ss_write l ?bs 0 (int (length ?bs)) = Some x"
    "\<And>r l'. x = Inr (r, l') \<Longrightarrow> served k l' \<and> ln_in l' = ln_in l"
    using writeFix_served [OF n] by blast
  show ?thesis
  proof (cases x)
    case (Inl e)
    then show ?thesis using x(1) assms(1) by (simp add: sendRequest_def writeFixSize_def)
  next
    case (Inr y)
    obtain r l1 where y: "y = (r, l1)" by (cases y)
    have s: "sendRequest l req = Some (Inr (fix_result (length ?bs) r, l1))"
      using x(1) Inr y assms(1) by (simp add: sendRequest_def writeFixSize_def)
    obtain j where j: "ln_out l1 = ln_out l @ take j ?bs" "case r of None \<Rightarrow> j = length ?bs | Some len \<Rightarrow> len \<le> 0"
      using ss.writeFix_loop_prefix [OF n(1) x(1) [unfolded Inr y]] by (auto split: option.splits)
    have "ln_out l1 = ln_out l @ ?bs" if "0 < fix_result (length ?bs) r" using j that by (cases r) (simp_all add: fix_result_def)
    then show ?thesis using s j(1) x(2) [OF Inr [unfolded y]] by auto
  qed
qed

text \<open>What the result of an exchange says of the connection.\<close>

definition exchange_ok :: "link \<Rightarrow> bytes \<Rightarrow> http_result \<times> link \<Rightarrow> bool" where
  "exchange_ok l bs = (\<lambda>(res, l').
    (if hr_result res = error_num HR_OK then ln_out l' = ln_out l @ bs \<and> hr_response res \<noteq> None
     else if hr_result res = error_num TIMEOUT then ln_out l' = ln_out l @ bs \<and> hr_response res = None \<and> closed l'
     else hr_result res \<in> {error_num SEND_CLOSE_BY_PEER, error_num SEND_SOCKET_ERROR} \<and> hr_response res = None \<and>
       (\<exists>j. ln_out l' = ln_out l @ take j bs)))"

text \<open>
  C15: An exchange on a connection, as \<open>DoRequest\<close> and the pool do it. With hooks, a buffer below 2 GiB and a kernel that answers one call per byte to send, one per byte
  to come and one more, it returns. A result \<^verbatim>\<open>OK\<close> has a response and means that exactly the text of the request was sent; \<^verbatim>\<open>TIMEOUT\<close> has none, though all was
  sent, and leaves the connection closed; every other result is one of the two send errors, after a prefix of the text.
\<close>

theorem http_exchange:
  assumes "rq_dump req = Inr data" "served (length data + Suc (length (ln_in l))) l" "uint (ce_buff en) < 2 ^ 31"
  shows "\<exists>x. exchange en strerror peer l req t = Some x \<and> (case x of Inl _ \<Rightarrow> True | Inr y \<Rightarrow> exchange_ok l (bytes_of data) y)"
proof -
  obtain x where x: "sendRequest l req = Some x" "\<And>rt l1. x = Inr (rt, l1) \<Longrightarrow> served (Suc (length (ln_in l))) l1 \<and> ln_in l1 = ln_in l \<and>
    (\<exists>j. ln_out l1 = ln_out l @ take j (bytes_of data)) \<and> (0 < rt \<longrightarrow> ln_out l1 = ln_out l @ bytes_of data)"
    using sendRequest_served [OF assms(1,2)] by blast
  show ?thesis
  proof (cases x)
    case (Inr y)
    obtain rt l1 where y: "y = (rt, l1)" by (cases y)
    note l1 = x(2) [OF Inr [unfolded y]]
    show ?thesis
    proof (cases "rt \<le> 0")
      case True
      then show ?thesis using x(1) Inr y l1 by (auto simp: exchange_def exchange_ok_def HttpResult_def)
    next
      case False
      obtain z where z: "recvResponse en l1 = Some z" "goes_on 0 l1 z" using recvResponse_goes_on [of 0 l1 en] l1 assms(3) by auto
      show ?thesis
      proof (cases z)
        case zr: (Inr w)
        obtain r l2 where w: "w = (r, l2)" by (cases w)
        then show ?thesis using x(1) Inr y l1 False z zr by (cases r) (auto simp: exchange_def exchange_ok_def HttpResult_def)
      qed (use x(1) Inr y False z in \<open>auto simp: exchange_def\<close>)
    qed
  qed (use x(1) in \<open>simp add: exchange_def\<close>)
qed

definition root_request :: HttpRequest where "root_request = new_HttpRequest 0x11 True"

definition long_link :: link where "long_link = chunk_link\<lparr>ln_calls := replicate 100 (0, 0, [Sys 13 0])\<rparr>"

theorem http_exchange_witness: "\<exists>x. exchange bang_client (\<lambda>_. []) (\<lambda>_. []) long_link root_request 1000 = Some x"
proof -
  obtain data where d: "rq_dump root_request = Inr data" "length data < 80"
  proof -
    have "case rq_dump root_request of Inl _ \<Rightarrow> False | Inr data \<Rightarrow> length data < 80" by code_simp
    then show thesis using that by (cases "rq_dump root_request") auto
  qed
  have "length (ln_in long_link) = 13" by (simp add: long_link_def chunk_link_def)
  moreover have "served 100 long_link"
    by (simp add: served_def ready_def hooked_def long_link_def chunk_link_def bang_link_def example_link_def SocketStream_def)
  ultimately have "served (length data + Suc (length (ln_in long_link))) long_link" using d(2) served_mono by simp
  moreover have "uint (ce_buff bang_client) < 2 ^ 31" by (simp add: ce_buff_def bang_client_def RequestSizeIniter_def GetHttpRequestBufferSize_def)
  ultimately show ?thesis using http_exchange [OF d(1)] by blast
qed
section \<open>The pool over time\<close>

text \<open>
  The pool with the connections it has lent out: a connection is taken, used (its stream changes), or given back. The kernel's answers and the clock are arbitrary.
\<close>

inductive pool_step :: "client_env \<Rightarrow> http_pool \<times> http_conn list \<Rightarrow> http_pool \<times> http_conn list \<Rightarrow> bool" for en where
  take: "getConnection en dl now pool h = Some (Inr (Some c, pool', h')) \<Longrightarrow> pool_step en (pool, lent) (pool', c # lent)"
| refused: "getConnection en dl now pool h = Some (Inr (None, pool', h')) \<Longrightarrow> pool_step en (pool, lent) (pool', lent)"
| used: "pool_step en (pool, as @ c # bs) (pool, as @ c\<lparr>hc_link := l\<rparr> # bs)"
| give: "ReleasePtr en now c pool h = Some (Inr (pool', h')) \<Longrightarrow> pool_step en (pool, as @ c # bs) (pool', as @ bs)"

definition pooled_ok :: "http_pool \<Rightarrow> http_conn \<Rightarrow> bool" where
  "pooled_ok pool c \<longleftrightarrow> ss_isConnected (hc_link c) \<and> hc_createTime c = 0 \<and> hc_request c < ucast (pl_maxRequest pool)"

definition pool_inv :: "http_pool \<times> http_conn list \<Rightarrow> bool" where
  "pool_inv = (\<lambda>(pool, lent).
    pl_total pool = of_nat (length (pl_conns pool) + length lent) \<and> list_all (pooled_ok pool) (pl_conns pool) \<and>
    list_all (\<lambda>c. hc_createTime c = 0) lent)"

lemma pick_conn_parts:
  "pick_conn now alive cs invalid = (gone, p, left) \<Longrightarrow>
    \<exists>bad. gone = invalid @ bad \<and> cs = bad @ (case p of None \<Rightarrow> [] | Some c \<Rightarrow> [c]) @ left \<and> (p = None \<longrightarrow> left = []) \<and>
      (\<forall>c. p = Some c \<longrightarrow> ss_isConnected (hc_link c))"
proof (induction now alive cs invalid rule: pick_conn.induct)
  case (2 now alive c cs invalid)
  show ?case
  proof (cases "\<not> ss_isConnected (hc_link c) \<or> hc_createTime c + ucast alive > now")
    case True
    then obtain bad where "gone = (invalid @ [c]) @ bad" "cs = bad @ (case p of None \<Rightarrow> [] | Some c \<Rightarrow> [c]) @ left"
      "p = None \<longrightarrow> left = []" "\<forall>c. p = Some c \<longrightarrow> ss_isConnected (hc_link c)"
      using 2 by (auto split: if_splits)
    then show ?thesis by (intro exI [of _ "c # bad"]) auto
  next
    case False
    then show ?thesis using "2.prems" by auto
  qed
qed auto

lemma getConnection_parts:
  assumes "getConnection en dl now pool h = Some (Inr (r, pool', h'))"
  obtains bad p left where "pl_conns pool = bad @ (case p of None \<Rightarrow> [] | Some c \<Rightarrow> [c]) @ left" "p = None \<Longrightarrow> left = []"
    "pl_conns pool' = left" "pl_maxRequest pool' = pl_maxRequest pool"
    "case p of Some c \<Rightarrow> (\<exists>l. r = Some (c\<lparr>hc_link := l\<rparr>)) \<and> pl_total pool' = pl_total pool - of_nat (length bad)
     | None \<Rightarrow> (case r of None \<Rightarrow> pl_total pool' = pl_total pool - of_nat (length bad)
         | Some c \<Rightarrow> hc_createTime c = 0 \<and> pl_total pool' = pl_total pool - of_nat (length bad) + 1)"
proof -
  obtain bad p left where k: "pick_conn now (pl_maxAliveTime pool) (pl_conns pool) [] = (bad, p, left)" by (metis prod_cases3)
  have parts: "pl_conns pool = bad @ (case p of None \<Rightarrow> [] | Some c \<Rightarrow> [c]) @ left" "p = None \<Longrightarrow> left = []"
    using pick_conn_parts [OF k] by auto
  show thesis
  proof (rule that [OF parts])
    show "pl_conns pool' = left" "pl_maxRequest pool' = pl_maxRequest pool"
      using assms k by (auto simp: getConnection_def Let_def split: option.splits prod.splits)
    show "case p of Some c \<Rightarrow> (\<exists>l. r = Some (c\<lparr>hc_link := l\<rparr>)) \<and> pl_total pool' = pl_total pool - of_nat (length bad)
     | None \<Rightarrow> (case r of None \<Rightarrow> pl_total pool' = pl_total pool - of_nat (length bad)
         | Some c \<Rightarrow> hc_createTime c = 0 \<and> pl_total pool' = pl_total pool - of_nat (length bad) + 1)"
      using assms k by (auto simp: getConnection_def HttpConnection_def Let_def split: option.splits prod.splits)
  qed
qed

lemma pooled_ok_same: "pl_maxRequest pool' = pl_maxRequest pool \<Longrightarrow> pooled_ok pool' = pooled_ok pool"
  by (simp add: fun_eq_iff pooled_ok_def)

lemma getConnection_inv:
  assumes "getConnection en dl now pool h = Some (Inr (r, pool', h'))" "pool_inv (pool, lent)"
  shows "pool_inv (pool', (case r of None \<Rightarrow> [] | Some c \<Rightarrow> [c]) @ lent)"
proof -
  have t: "pl_total pool = of_nat (length (pl_conns pool)) + of_nat (length lent)" and ok: "list_all (pooled_ok pool) (pl_conns pool)"
    and z: "list_all (\<lambda>c. hc_createTime c = 0) lent" using assms(2) by (simp_all add: pool_inv_def)
  from assms(1) show ?thesis
  proof (cases rule: getConnection_parts)
    case (1 bad p left)
    have ok': "list_all (pooled_ok pool') (pl_conns pool')" using ok 1(1,3) pooled_ok_same [OF 1(4)] by simp
    show ?thesis
    proof (cases p)
      case None
      then show ?thesis using 1 t z ok' by (cases r) (simp_all add: pool_inv_def)
    next
      case (Some c)
      then obtain l where r: "r = Some (c\<lparr>hc_link := l\<rparr>)" and tot: "pl_total pool' = pl_total pool - of_nat (length bad)"
        using 1(5) by auto
      have "hc_createTime c = 0" using ok 1(1) Some by (simp add: pooled_ok_def)
      then show ?thesis using r tot 1(1,3) t z ok' Some by (simp add: pool_inv_def)
    qed
  qed
qed

lemma ReleasePtr_inv:
  assumes "ReleasePtr en now c pool h = Some (Inr (pool', h'))" "pool_inv (pool, as @ c # bs)"
  shows "pool_inv (pool', as @ bs)"
proof -
  let ?c = "c\<lparr>hc_request := hc_request c + 1\<rparr>"
  consider "pool' = pool\<lparr>pl_total := pl_total pool - 1\<rparr>"
    | "pool' = pool\<lparr>pl_conns := pl_conns pool @ [?c]\<rparr>" "pooled_ok pool ?c"
    using assms by (auto simp: ReleasePtr_def Let_def pooled_ok_def pool_inv_def not_le split: if_splits)
  then show ?thesis
  proof cases
    case 1
    then show ?thesis using assms(2) pooled_ok_same [of pool' pool] by (simp add: pool_inv_def)
  next
    case 2
    then show ?thesis using assms(2) pooled_ok_same [of pool' pool] by (simp add: pool_inv_def)
  qed
qed

lemma pool_step_inv: "pool_step en s s' \<Longrightarrow> pool_inv s \<Longrightarrow> pool_inv s'"
proof (induction rule: pool_step.induct)
  case (take dl now pool h c pool' h' lent)
  then show ?case using getConnection_inv [OF take(1)] by simp
next
  case (refused dl now pool h pool' h' lent)
  then show ?case using getConnection_inv [OF refused(1)] by simp
next
  case (give now c pool h pool' h' as bs)
  then show ?case by (rule ReleasePtr_inv)
qed (simp add: pool_inv_def)

lemma pool_steps_inv:
  assumes "(pool_step en)\<^sup>*\<^sup>* s s'" "pool_inv s"
  shows "pool_inv s'"
  using assms by (induction rule: rtranclp_induct) (auto intro: pool_step_inv)

lemma new_pool_inv: "pool_inv (HttpConnectionPool host vhost port max_size alive max_request, [])"
  by (simp add: pool_inv_def HttpConnectionPool_def)

text \<open>
  C29: The books of the pool. However connections are taken, used and given back, \<^verbatim>\<open>m_total\<close> (32 bits) counts the waiting connections and those lent out;
  a waiting connection is connected and has served fewer requests than the limit. No limit on the number follows: \<^verbatim>\<open>m_maxSize\<close> is not consulted.
  And since \<^verbatim>\<open>m_createTime\<close> is never set and the test of the age is the wrong way round, once the clock is past \<^verbatim>\<open>m_maxAliveTime\<close> the oldest waiting
  connection is handed out, whatever its age.
\<close>

theorem http_pool_books:
  assumes "(pool_step en)\<^sup>*\<^sup>* (HttpConnectionPool host vhost port max_size alive max_request, []) (pool, lent)"
  shows "pl_total pool = of_nat (length (pl_conns pool) + length lent) \<and>
    list_all (\<lambda>c. ss_isConnected (hc_link c) \<and> hc_request c < ucast (pl_maxRequest pool)) (pl_conns pool) \<and>
    (ucast (pl_maxAliveTime pool) \<le> now \<longrightarrow> pl_conns pool \<noteq> [] \<longrightarrow> getConnection en dl now pool h =
      Some (Inr (Some ((hd (pl_conns pool))\<lparr>hc_link := (hc_link (hd (pl_conns pool)))\<lparr>ln_hook := h\<rparr>\<rparr>), pool\<lparr>pl_conns := tl (pl_conns pool)\<rparr>, h)))"
proof -
  have i: "pool_inv (pool, lent)" using pool_steps_inv [OF assms new_pool_inv] .
  have "getConnection en dl now pool h =
      Some (Inr (Some (c\<lparr>hc_link := (hc_link c)\<lparr>ln_hook := h\<rparr>\<rparr>), pool\<lparr>pl_conns := cs\<rparr>, h))"
    if c: "pl_conns pool = c # cs" and now: "ucast (pl_maxAliveTime pool) \<le> now" for c cs
  proof -
    have "ss_isConnected (hc_link c)" "hc_createTime c = 0" using i c by (simp_all add: pool_inv_def pooled_ok_def)
    then have "pick_conn now (pl_maxAliveTime pool) (pl_conns pool) [] = ([], Some c, cs)" using c now leD [OF now] by simp
    then show ?thesis by (simp add: getConnection_def)
  qed
  then show ?thesis using i by (cases "pl_conns pool") (auto simp: pool_inv_def pooled_ok_def list_all_iff)
qed

text \<open>A host with one address, on a thread without hooks, where a connection is made at once.\<close>

definition easy_dial :: dial where
  "easy_dial = \<lparr>dl_sys = \<lparr>sys_setsockopt = (\<lambda>_ _. 0), sys_name = (\<lambda>_ _. None), sys_peer = (\<lambda>_ _. None)\<rparr>, dl_host = 1,
    dl_gai = (\<lambda>_ _ _ _ _. Some [Raw_in \<lparr>sin_family = AF_INET, sin_port = 0, s_addr = 0\<rparr>]), dl_strerror = (\<lambda>_. []), dl_sock = (7, 0, None),
    dl_connect = \<lparr>ca_w = 0, ca_cur = 0, ca_n = 0, ca_e = 0, ca_now = 0, ca_timer = 0, ca_rt = 0, ca_resumed = ln_hook example_link, ca_gs = 0,
      ca_error = 0, ca_close_rt = 0, ca_close = 0\<rparr>, dl_opt = 0, dl_calls = [], dl_in = []\<rparr>"

lemmas dial_eval = dial_up_def Socket_connect_def ensure_sock_def isValid_def CreateTCP_def Socket_def newSock_def socket_hook_def
  initSock_def setOption_def setsockopt_hook_def returned_def getLocalAddress_def getRemoteAddress_def call_connect_def connect_hook_def
  connect_with_timeout_def LookupAnyIPAddress_def Lookup_def split_host_def split_brackets_def memchr_def easy_dial_def example_link_def
  SocketStream_def Address_Create_def is_ip_def setPort_def getFamily_def map_filter_simps Let_def

lemma easy_pool:
  "\<exists>c h. getConnection bang_client easy_dial 1000 (HttpConnectionPool ''h'' [] 80 1 100 5) (ln_hook example_link) =
    Some (Inr (Some c, (HttpConnectionPool ''h'' [] 80 1 100 5)\<lparr>pl_total := 1\<rparr>, h)) \<and> ss_isConnected (hc_link c) \<and> hc_createTime c = 0 \<and> hc_request c = 0"
  by (simp add: getConnection_def HttpConnectionPool_def dial_eval ss_isConnected_def isConnected_def HttpConnection_def)

theorem http_pool_books_witness:
  "\<exists>pool c. (pool_step bang_client)\<^sup>*\<^sup>* (HttpConnectionPool ''h'' [] 80 1 100 5, []) (pool, []) \<and>
    pl_conns pool = [c] \<and> pl_total pool = 1 \<and> ss_isConnected (hc_link c)"
proof -
  let ?new = "HttpConnectionPool ''h'' [] 80 1 100 5"
  obtain c h where g: "getConnection bang_client easy_dial 1000 ?new (ln_hook example_link) = Some (Inr (Some c, ?new\<lparr>pl_total := 1\<rparr>, h))"
    and c: "ss_isConnected (hc_link c)" "hc_createTime c = 0" "hc_request c = 0" using easy_pool by blast
  let ?pool = "?new\<lparr>pl_total := 1, pl_conns := [c\<lparr>hc_request := 1\<rparr>]\<rparr>"
  have "\<not> (5 :: u64) \<le> 1" by (simp add: word_le_nat_alt)
  then have "ReleasePtr bang_client 1000 c (?new\<lparr>pl_total := 1\<rparr>) h = Some (Inr (?pool, h))"
    using c by (simp add: ReleasePtr_def HttpConnectionPool_def Let_def)
  from pool_step.give [OF this, of "[]" "[]"] have "pool_step bang_client (?new\<lparr>pl_total := 1\<rparr>, [c]) (?pool, [])" by simp
  moreover have "pool_step bang_client (?new, []) (?new\<lparr>pl_total := 1\<rparr>, [c])" using pool_step.take [OF g] by simp
  ultimately have r: "(pool_step bang_client)\<^sup>*\<^sup>* (?new, []) (?pool, [])" by (meson converse_rtranclp_into_rtranclp r_into_rtranclp)
  note books = http_pool_books [OF r, of 1000 easy_dial h]
  have "pl_total ?pool = of_nat (length (pl_conns ?pool) + length ([] :: http_conn list))" by (rule conjunct1 [OF books])
  moreover have "list_all (\<lambda>c. ss_isConnected (hc_link c) \<and> hc_request c < ucast (pl_maxRequest ?pool)) (pl_conns ?pool)"
    by (rule conjunct1 [OF conjunct2 [OF books]])
  ultimately have "pl_total ?pool = 1 \<and> ss_isConnected (hc_link (c\<lparr>hc_request := 1\<rparr>))" by simp
  with r show ?thesis by (intro exI [of _ ?pool] exI [of _ "c\<lparr>hc_request := 1\<rparr>"]) simp
qed

end
