(* ===== verification/Spec2Isabelle.thy ===== *)
theory Spec2Isabelle
  imports Sylar_Codec Sylar_HttpServer Sylar_HttpConnection
begin

text \<open>
  This library models the server framework under \<^verbatim>\<open>src/sylar\<close> and proves what makes its parts correct.

  \<^bold>\<open>The program.\<close> Fibers are switched by schedulers, which run on worker threads. An I/O manager is a scheduler with timers that waits
  for events with epoll and wakes the fibers that wait for them. Hooks replace the blocking calls of the C library, so that a fiber
  that would block goes to sleep on the I/O manager of its thread. Sockets and streams are built on the hooked calls. The TCP server accepts
  connections and hands each to a worker; the HTTP server reads requests from it with a parser, dispatches them to servlets and sends
  their responses. The HTTP client connects to the host of a URI, or takes a connection from a pool, sends a request and receives the response.
  Byte arrays hold the data that is sent and received in their own encodings.

  \<^bold>\<open>Conventions.\<close> A class is a record, an enumeration a datatype, an integer of the source a word of its width where overflow matters. An
  operation that throws, asserts, dereferences a null pointer or leaves an object in undefined behaviour gives a value of the type
  \<open>cxx_error\<close>; one that may run for ever is a partial function whose value \<open>None\<close> says that it does not return, so that the
  properties that say it returns are proved as such. What the kernel, the clock and the allocator answer is an argument or part of
  the state. Names are those of the source, with a prefix or a suffix where a name is taken.

  \<^bold>\<open>The theories.\<close>
  \<^item> \<^verbatim>\<open>Sylar_Prelude\<close>, \<^verbatim>\<open>Sylar_Text\<close>, \<^verbatim>\<open>Sylar_Ordered\<close>: errors and lists; numbers as text and the C functions on strings; ordered sets and maps over a strict
    weak order (locale \<open>strict_weak\<close>), which timers, headers and strings interpret.
  \<^item> \<^verbatim>\<open>Sylar_Endian\<close>, \<^verbatim>\<open>Sylar_ByteArray\<close>, \<^verbatim>\<open>Sylar_Codec\<close>, \<^verbatim>\<open>Sylar_ByteArray_IO\<close> (\<^verbatim>\<open>endian.h\<close>, \<^verbatim>\<open>bytearray.cpp\<close>): the chain of blocks refines a byte string with a position (locale \<open>seekable_store\<close>); every typed
    writer and its reader are codecs over it (locale \<open>byte_codec\<close>), so messages come back as they were written; scatter and gather views and files agree with plain reads and writes.
  \<^item> \<^verbatim>\<open>Sylar_Timer\<close>, \<^verbatim>\<open>Sylar_Fiber\<close>, \<^verbatim>\<open>Sylar_Scheduler\<close>, \<^verbatim>\<open>Sylar_IOManager\<close> (the files of these names): the timer set stays ordered and exactly the due callbacks are taken; the states of
    a fiber; the worker loop as an interleaving step relation, in which no assertion fails and the counters are exact; the registered events, the pending count and the interest list of the kernel agree, and each
    registration is delivered once.
  \<^item> \<^verbatim>\<open>Sylar_FdManager\<close>, \<^verbatim>\<open>Sylar_Hook\<close> (\<^verbatim>\<open>fd_manager.cpp\<close>, \<^verbatim>\<open>hook.cpp\<close>): the table of descriptors, and the retry loop around a system call, its time-out included.
  \<^item> \<^verbatim>\<open>Sylar_Address\<close>, \<^verbatim>\<open>Sylar_Socket\<close>, \<^verbatim>\<open>Sylar_Stream\<close> (\<^verbatim>\<open>address.cpp\<close>, \<^verbatim>\<open>socket.cpp\<close>, \<^verbatim>\<open>stream.cpp\<close>, \<^verbatim>\<open>streams/socket_stream.cpp\<close>): addresses, masks and their text; the life of a socket; transfers of a fixed
    size (locales \<open>byte_source\<close>, \<open>byte_sink\<close>, \<open>array_source\<close>, \<open>array_sink\<close>, interpreted on the socket stream).
  \<^item> \<^verbatim>\<open>Sylar_Http\<close>, \<^verbatim>\<open>Sylar_HttpParser\<close>, \<^verbatim>\<open>Sylar_Servlet\<close> (\<^verbatim>\<open>http/http.cpp\<close>, \<^verbatim>\<open>http_parser.cpp\<close>, the actions of \<^verbatim>\<open>http11_parser.rl\<close> and \<^verbatim>\<open>httpclient_parser.rl\<close>, \<^verbatim>\<open>servlet.cpp\<close>): messages and their text,
    the safety of the parser for every table that marks before it reads, the choice of a servlet.
  \<^item> \<^verbatim>\<open>Sylar_TcpServer\<close>, \<^verbatim>\<open>Sylar_HttpSession\<close>, \<^verbatim>\<open>Sylar_HttpServer\<close> (\<^verbatim>\<open>tcp_server.cpp\<close>, \<^verbatim>\<open>http/http_session.cpp\<close>, \<^verbatim>\<open>http/http_server.cpp\<close>): binding, accepting and stopping; a request is what
    the peer sent (locale \<open>head_parser\<close>, interpreted on both parsers); every client is served and let go.
  \<^item> \<^verbatim>\<open>Sylar_UriTable\<close>, \<^verbatim>\<open>Sylar_Uri\<close> (\<^verbatim>\<open>uri.cpp\<close>): the 560 states of the checked-in machine; it throws on no text without an empty port, and reads back what \<^verbatim>\<open>toString\<close> prints.
  \<^item> \<^verbatim>\<open>Sylar_HttpConnection\<close> (\<^verbatim>\<open>http/http_connection.cpp\<close>): responses with a plain or a chunked body, the exchange of a request for a response, the books of the pool.
  \<^item> This theory: a message encoded on one host, sent over a connection and decoded on the other.

  \<^bold>\<open>Bounds.\<close> No definition carries fuel. Where a property says that a call returns, its hypothesis counts the answers of the kernel: one for each byte to come or to send and one more,
  which is enough because every successful call moves at least one byte. Lengths below 2 GiB appear where the code passes a size through an \<^verbatim>\<open>int\<close>.

  \<^bold>\<open>Not modelled.\<close> Log output (\<^verbatim>\<open>log.cpp\<close>, \<^verbatim>\<open>log.h\<close>), on which no other part depends; its formatter is pure text and could be added. Configuration variables (\<^verbatim>\<open>config.h\<close>,
  \<^verbatim>\<open>config.cpp\<close>), which rest on yaml-cpp and boost: their values are arguments. The wrappers of the clock, of threads and of locks (\<^verbatim>\<open>util\<close>, \<^verbatim>\<open>thread\<close>, \<^verbatim>\<open>mutex\<close>): a section under a lock is one step. The
  lookup of the original functions in \<^verbatim>\<open>hook.cpp\<close>. The tables Ragel generates for the HTTP grammars at build time, which are not among the sources and are an argument; and \<^verbatim>\<open>uri.rl\<close>, since the machine
  in \<^verbatim>\<open>uri.cpp\<close> is there. Machine contexts and stacks of fibers, and the layout of memory outside byte arrays and socket addresses.
\<close>

section \<open>A message across a connection\<close>

lemma message_sent:
  assumes "ba_inv b" "\<forall>v \<in> set vs. field_ok v" "write_message big b vs = Inr b1" "setPosition b1 (m_position b) = Inr b2"
    "writeFixSize_ba ss_write_ba l b2 (m_position b1 - m_position b) = Some (Inr (int (m_position b1 - m_position b), b3, l'))"
    "m_position b1 - m_position b < 2 ^ 31"
  shows "ln_out l' = ln_out l @ message_wire (m_endian b) vs \<and>
    length (message_wire (m_endian b) vs) = m_position b1 - m_position b"
proof -
  let ?m = "message_wire (m_endian b) vs"
  have w: "ba.wrote b ?m b1" using write_message_ok [OF assms(1,2), of big] assms(3) by auto
  then have n: "m_position b1 - m_position b = length ?m" by (simp add: ba.wrote_def)
  have a: "ba.ahead b2 ?m" "m_position b2 = m_position b" using ba.wrote_seek_ahead [OF w] assms(4) by auto
  then have inv: "ba_inv b2" and room: "length ?m \<le> getReadSize b2"
    by (auto simp: ba.ahead_def getReadSize_def)
  obtain r where r: "fixBa_loop ss_write_ba l b2 (int (length ?m)) = Some (Inr (r, b3, l'))"
    "fix_result (length ?m) r = int (length ?m)"
    using assms(5) n by (auto simp: writeFixSize_ba_def)
  obtain k where "ln_out l' = ln_out l @ take k (drop (m_position b2) (contents b2))"
    "case r of None \<Rightarrow> k = length ?m | Some len \<Rightarrow> len \<le> 0 \<and> k < length ?m"
    using ss_ba.fixBa_take [OF inv room r(1)] by blast
  moreover have "k = length ?m" if "case r of None \<Rightarrow> k = length ?m | Some len \<Rightarrow> len \<le> 0 \<and> k < length ?m"
    using that r(2) by (auto simp: fix_result_def split: option.splits)
  ultimately show ?thesis using a(1) n by (simp add: ba.ahead_def)
qed

lemma message_received:
  assumes "ba_inv c" "ln_in p = wire @ later" "length wire < 2 ^ 31"
    "readFixSize_ba ss_read_ba p c (length wire) = Some (Inr (int (length wire), c1, p'))"
  shows "ba.wrote c wire c1 \<and> ln_in p' = later"
proof -
  obtain r where r: "fixBa_loop ss_read_ba p c (int (length wire)) = Some (Inr (r, c1, p'))"
    "fix_result (length wire) r = int (length wire)"
    using assms(4) by (auto simp: readFixSize_ba_def)
  obtain d where d: "ln_in p = d @ ln_in p'" "ba.wrote c d c1"
    "case r of None \<Rightarrow> length d = length wire | Some len \<Rightarrow> len \<le> 0 \<and> length d < length wire"
    using ss_ba.fixBa_store [OF assms(1) r(1)] by blast
  then have "length d = length wire" using r(2) by (auto simp: fix_result_def split: option.splits)
  then show ?thesis using d assms(2) by simp
qed

text \<open>
  C1: A message survives the network. A sequence of typed values written to a buffer and sent with
  \<open>writeFixSize\<close> over one socket, and received with \<open>readFixSize\<close> into another buffer from a socket whose
  incoming bytes begin with those sent, is read back as the same values, whatever the byte orders of the
  two hosts and however the kernel splits the transfer into calls; what was sent after it stays in
  the connection. (Both transfers report success; no string in the message is empty.)
\<close>

theorem message_over_socket:
  assumes "ba_inv b" "ba_inv c" "m_endian c = m_endian b" "\<forall>v \<in> set vs. field_ok v \<and> field_solid v"
    "write_message big1 b vs = Inr b1" "setPosition b1 (m_position b) = Inr b2"
    "n = m_position b1 - m_position b" "n < 2 ^ 31"
    "writeFixSize_ba ss_write_ba l b2 n = Some (Inr (int n, b3, l'))"
    "ln_in p = drop (length (ln_out l)) (ln_out l') @ later"
    "readFixSize_ba ss_read_ba p c n = Some (Inr (int n, c1, p'))"
  shows "\<exists>c2 c3. setPosition c1 (m_position c) = Inr c2 \<and>
    read_message big2 c2 (map ftype_of vs) = Inr (vs, c3) \<and> ln_in p' = later"
proof -
  let ?m = "message_wire (m_endian b) vs"
  have ok: "\<forall>v \<in> set vs. field_ok v" "\<forall>v \<in> set vs. field_solid v" using assms(4) by auto
  have s: "ln_out l' = ln_out l @ ?m" "length ?m = n"
    using message_sent [OF assms(1) ok(1) assms(5,6)] assms(7,8,9) by auto
  have r: "ba.wrote c ?m c1" "ln_in p' = later"
    using message_received [OF assms(2), of p ?m later c1 p'] assms(8,10,11) s by auto
  obtain c2 where c2: "setPosition c1 (m_position c) = Inr c2" "ba.ahead c2 (message_wire (m_endian c2) vs)"
    using ba.wrote_seek_ahead [OF r(1)] assms(3) by auto
  then show ?thesis using read_message_ok [OF ok(1) c2(2), of big2] ok(2) r(2) by blast
qed

theorem message_over_socket_witness:
  "\<exists>b1 c1 c2 c3. write_message True (ByteArray (\<lambda>_ _. 0) 3) [Uint16 0x1234, StrF16 [7]] = Inr b1 \<and>
    setPosition c1 0 = Inr c2 \<and>
    read_message False c2 [TUint16, TStrF16] = Inr ([Uint16 0x1234, StrF16 [7]], c3)"
proof -
  let ?b = "ByteArray (\<lambda>_ _. 0) 3" and ?vs = "[Uint16 0x1234, StrF16 [7]]"
  have inv: "ba_inv ?b" using ByteArray_inv [of 3 "\<lambda>_ _. 0"] by simp
  have ok: "\<forall>v \<in> set ?vs. field_ok v \<and> field_solid v" by simp
  obtain b1 where b1: "write_message True ?b ?vs = Inr b1" "ba.wrote ?b (message_wire (m_endian ?b) ?vs) b1"
    using write_message_ok [OF inv, of ?vs True] ok by auto
  define n where "n = m_position b1 - m_position ?b"
  have n: "n = 5" using b1(2) by (simp add: n_def ba.wrote_def message_wire_def)
  obtain b2 where b2: "setPosition b1 (m_position ?b) = Inr b2" "ba_inv b2"
    using ba.wrote_seek_ahead [OF b1(2)] by (auto simp: ba.ahead_def)
  define l where "l = example_link\<lparr>ln_calls := [(0, 0, [Sys (int n) 0])]\<rparr>"
  have "direct l n" by (simp add: direct_def l_def example_link_def SocketStream_def ss_isConnected_def isConnected_def)
  then obtain b3 l' where w: "writeFixSize_ba ss_write_ba l b2 n = Some (Inr (int n, b3, l'))"
    using direct_write [OF b2(2)] n by fastforce
  have out: "ln_out l' = ln_out l @ message_wire (m_endian ?b) ?vs" "length (message_wire (m_endian ?b) ?vs) = n"
  proof -
    have "n < 2 ^ 31" "\<forall>v \<in> set ?vs. field_ok v" using n ok by simp_all
    note message_sent [OF inv this(2) b1(1) b2(1) w [unfolded n_def] this(1) [unfolded n_def]]
    then show "ln_out l' = ln_out l @ message_wire (m_endian ?b) ?vs" "length (message_wire (m_endian ?b) ?vs) = n"
      unfolding n_def by blast+
  qed
  define p where "p = l\<lparr>ln_in := drop (length (ln_out l)) (ln_out l')\<rparr>"
  have "direct p n"
    by (simp add: direct_def p_def l_def example_link_def SocketStream_def ss_isConnected_def isConnected_def)
  then obtain c1 p' where r: "readFixSize_ba ss_read_ba p ?b n = Some (Inr (int n, c1, p'))"
    using direct_read [OF inv, of p n] n out by (fastforce simp: p_def)
  have "ln_in p = drop (length (ln_out l)) (ln_out l') @ []" by (simp add: p_def)
  then show ?thesis
    using message_over_socket [OF inv inv refl ok b1(1) b2(1) n_def _ w _ r, of "[]" False] n b1(1)
    by (fastforce simp: ByteArray_def)
qed

end
